(* ===== verification/Prelude.thy ===== *)
theory Prelude
  imports Main "HOL-Library.Word" "HOL-Library.Multiset"
begin

text \<open>
  Shared vocabulary of the development: the Go types the components use
  (fixed width integers as words, \<^verbatim>\<open>*big.Int\<close> as \<open>int\<close>, \<^verbatim>\<open>[]byte\<close> as a list of
  8-bit words, \<^verbatim>\<open>common.Address\<close> and \<^verbatim>\<open>common.Hash\<close> as 160- and 256-bit words), the byte
  level conversions of those types, the result type of fallible code, Go's
  \<^verbatim>\<open>sort.Search\<close>, and the generic lemmas on lists, maps, words and finite sums that
  the component theories rest on.
\<close>

section \<open>Types and collections\<close>

type_synonym byte = "8 word"
type_synonym bytes = "8 word list"
type_synonym u64 = "64 word"
type_synonym address = "160 word"
type_synonym hash = "256 word"

text \<open>
  A Go function that returns \<^verbatim>\<open>(T, error)\<close> returns \<open>Inl e\<close> for a non-nil error and
  \<open>Inr v\<close> otherwise; a function that may panic returns an option, \<open>None\<close> being the panic.
\<close>

type_synonym ('e, 'a) result = "'e + 'a"

named_theorems gas_simps "gas arithmetic on 64-bit words"
named_theorems obs_simps "what the observers of a component return after an operation"
named_theorems frame_simps "what an operation leaves unchanged"

section \<open>Big endian byte strings\<close>

text \<open>
  \<open>be_bytes n x\<close> is the big endian representation of \<open>x\<close> in exactly \<open>n\<close> bytes, which is what
  \<^verbatim>\<open>binary.BigEndian.PutUint64\<close> (n = 8), \<^verbatim>\<open>Address.Bytes\<close> (n = 20) and \<^verbatim>\<open>Hash.Bytes\<close> (n = 32)
  produce; \<open>from_be\<close> is \<^verbatim>\<open>big.Int.SetBytes\<close>.
\<close>

fun be_bytes :: "nat \<Rightarrow> nat \<Rightarrow> bytes" where
  "be_bytes 0 x = []"
| "be_bytes (Suc n) x = be_bytes n (x div 256) @ [of_nat (x mod 256)]"

definition from_be :: "bytes \<Rightarrow> nat" where
  "from_be bs = foldl (\<lambda>a b. a * 256 + unat b) 0 bs"

definition addr_bytes :: "address \<Rightarrow> bytes" where
  "addr_bytes a = be_bytes 20 (unat a)"

definition hash_bytes :: "hash \<Rightarrow> bytes" where
  "hash_bytes h = be_bytes 32 (unat h)"

text \<open>
  \<^verbatim>\<open>BytesToAddress\<close> crops its argument from the left when it is longer than 20 bytes and
  right-aligns it when it is shorter: both are reduction modulo \<open>2 ^ 160\<close>.
\<close>

definition bytes_to_address :: "bytes \<Rightarrow> address" where
  "bytes_to_address bs = of_nat (from_be bs)"

definition bytes_to_hash :: "bytes \<Rightarrow> hash" where
  "bytes_to_hash bs = of_nat (from_be bs)"

definition NullAddress :: address where "NullAddress = 0"

text \<open>The bytes of a Go string literal.\<close>

definition str_bytes :: "string \<Rightarrow> bytes" where
  "str_bytes s = map (\<lambda>c. of_nat (of_char c)) s"

section \<open>Go's slices, integer division and sort.Search\<close>

text \<open>
  Indexing a slice out of range is a run-time panic, hence \<open>None\<close>. Go's \<^verbatim>\<open>/\<close> on signed
  integers truncates towards zero.
\<close>

definition go_index :: "'a list \<Rightarrow> int \<Rightarrow> 'a option" where
  "go_index xs i = (if 0 \<le> i \<and> i < int (length xs) then Some (xs ! nat i) else None)"

definition go_quot :: "int \<Rightarrow> int \<Rightarrow> int" where
  "go_quot a b = sgn a * sgn b * (\<bar>a\<bar> div \<bar>b\<bar>)"

text \<open>
  The binary search of Go's \<^verbatim>\<open>sort\<close> package: the loop keeps \<open>f (i - 1) = false\<close> and
  \<open>f j = true\<close> and halves the interval \<open>[i, j)\<close>.
\<close>

function search_loop :: "(nat \<Rightarrow> bool) \<Rightarrow> nat \<Rightarrow> nat \<Rightarrow> nat" where
  "search_loop f i j =
     (if i < j
      then let h = (i + j) div 2
           in if f h then search_loop f i h else search_loop f (Suc h) j
      else i)"
  by pat_completeness auto
termination
  by (relation "measure (\<lambda>(f, i, j). j - i)") auto

definition sort_Search :: "nat \<Rightarrow> (nat \<Rightarrow> bool) \<Rightarrow> nat" where
  "sort_Search n f = search_loop f 0 n"

declare search_loop.simps [simp del]

section \<open>Totals over maps with finite support\<close>

text \<open>
  The sum of an integer valued function over the points where it is not zero. It is the
  total supply of a ledger when \<open>f\<close> maps each account to its balance.
\<close>

definition total :: "('a \<Rightarrow> int) \<Rightarrow> int" where
  "total f = (\<Sum>x | f x \<noteq> 0. f x)"

definition fin_support :: "('a \<Rightarrow> int) \<Rightarrow> bool" where
  "fin_support f \<longleftrightarrow> finite {x. f x \<noteq> 0}"

section \<open>Lemmas on byte strings\<close>

lemma length_be_bytes [simp]: "length (be_bytes n x) = n"
  by (induction n arbitrary: x) auto

lemma length_str_bytes [simp]: "length (str_bytes s) = length s"
  by (simp add: str_bytes_def)

lemma from_be_Nil [simp]: "from_be [] = 0"
  by (simp add: from_be_def)

lemma from_be_snoc [simp]: "from_be (bs @ [b]) = from_be bs * 256 + unat b"
  by (simp add: from_be_def)

lemma unat_of_nat_byte [simp]: "unat (of_nat (x mod 256) :: byte) = x mod 256"
  by (simp add: unat_of_nat)

lemma from_be_be_bytes: "from_be (be_bytes n x) = x mod 256 ^ n"
proof (induction n arbitrary: x)
  case 0
  then show ?case by simp
next
  case (Suc n)
  have "from_be (be_bytes (Suc n) x) = (x div 256) mod 256 ^ n * 256 + x mod 256"
    by (simp add: Suc.IH)
  also have "\<dots> = x mod (256 * 256 ^ n)"
    by (metis add.commute mod_mult2_eq mult.commute)
  finally show ?case by simp
qed

lemma be_bytes_inject:
  assumes "be_bytes n x = be_bytes n y" and "x < 256 ^ n" and "y < 256 ^ n"
  shows "x = y"
  by (metis assms from_be_be_bytes mod_less)

lemma unat_addr_less: "unat (a :: address) < 256 ^ 20"
  using unsigned_less [of a, where ?'a = nat] by simp

lemma unat_hash_less: "unat (h :: hash) < 256 ^ 32"
  using unsigned_less [of h, where ?'a = nat] by simp

lemma unat_u64_less: "unat (n :: u64) < 256 ^ 8"
  using unsigned_less [of n, where ?'a = nat] by simp

lemma unat_of_nat_eq_u64: "i < 2 ^ 64 \<Longrightarrow> unat (of_nat i :: u64) = i"
  by (simp add: unat_of_nat)

lemma of_nat_u64_inject: "i < 2 ^ 64 \<Longrightarrow> j < 2 ^ 64 \<Longrightarrow> (of_nat i :: u64) = of_nat j \<longleftrightarrow> i = j"
  by (metis unat_of_nat_eq_u64)

lemma length_addr_bytes [simp]: "length (addr_bytes a) = 20"
  by (simp add: addr_bytes_def)

lemma length_hash_bytes [simp]: "length (hash_bytes h) = 32"
  by (simp add: hash_bytes_def)

lemma addr_bytes_inject [simp]: "addr_bytes a = addr_bytes b \<longleftrightarrow> a = b"
  unfolding addr_bytes_def
  by (metis be_bytes_inject unat_addr_less word_unat_eq_iff)

lemma hash_bytes_inject [simp]: "hash_bytes a = hash_bytes b \<longleftrightarrow> a = b"
  unfolding hash_bytes_def
  by (metis be_bytes_inject unat_hash_less word_unat_eq_iff)

lemma bytes_to_address_addr_bytes [simp]: "bytes_to_address (addr_bytes a) = a"
  unfolding bytes_to_address_def addr_bytes_def
  using unat_addr_less [of a] by (simp add: from_be_be_bytes)

lemma bytes_to_hash_hash_bytes [simp]: "bytes_to_hash (hash_bytes h) = h"
  unfolding bytes_to_hash_def hash_bytes_def
  using unat_hash_less [of h] by (simp add: from_be_be_bytes)

lemma from_be_less: "from_be bs < 256 ^ length bs"
proof (induction bs rule: rev_induct)
  case Nil
  then show ?case by simp
next
  case (snoc b bs)
  have "unat b < 256" using unsigned_less [of b, where ?'a = nat] by simp
  with snoc.IH show ?case by (simp add: field_simps)
qed

section \<open>Lemmas on slices and division\<close>

lemma go_index_nat [simp]:
  "go_index xs (int i) = (if i < length xs then Some (xs ! i) else None)"
  by (simp add: go_index_def)

lemma go_quot_2 [simp]: "go_quot (int n) 2 = int (n div 2)"
  by (cases "n = 0") (simp_all add: go_quot_def sgn_if zdiv_int)

section \<open>Lemmas on binary search\<close>

lemma search_loop_least:
  assumes "i \<le> j"
    and "\<And>k. k < i \<Longrightarrow> \<not> f k"
    and "\<And>k. j \<le> k \<Longrightarrow> k < n \<Longrightarrow> f k"
    and "j \<le> n"
    and "\<And>k l. k \<le> l \<Longrightarrow> l < n \<Longrightarrow> f k \<Longrightarrow> f l"
  shows "search_loop f i j \<le> n
    \<and> (\<forall>k < search_loop f i j. \<not> f k)
    \<and> (\<forall>k. search_loop f i j \<le> k \<longrightarrow> k < n \<longrightarrow> f k)"
  using assms
proof (induction f i j rule: search_loop.induct)
  case (1 f i j)
  let ?h = "(i + j) div 2"
  show ?case
  proof (cases "i < j")
    case False
    then have "search_loop f i j = i" by (simp add: search_loop.simps)
    with False "1.prems" show ?thesis by auto
  next
    case True
    then have h: "i \<le> ?h" "?h < j" by auto
    show ?thesis
    proof (cases "f ?h")
      case fh: True
      have "\<And>k. ?h \<le> k \<Longrightarrow> k < n \<Longrightarrow> f k"
        using "1.prems"(5) fh by blast
      with "1.IH"(1) [OF True refl fh] "1.prems" h
      show ?thesis by (simp add: search_loop.simps [of f i j] True fh Let_def)
    next
      case fh: False
      have "\<And>k. k < Suc ?h \<Longrightarrow> \<not> f k"
        using "1.prems"(4,5) fh h by (metis less_Suc_eq_le order_less_le_trans)
      with "1.IH"(2) [OF True refl fh] "1.prems" h
      show ?thesis by (simp add: search_loop.simps [of f i j] True fh Let_def)
    qed
  qed
qed

section \<open>Lemmas on totals\<close>

lemma fin_support_upd: "fin_support f \<Longrightarrow> fin_support (f(x := v))"
  unfolding fin_support_def by (rule finite_subset [of _ "insert x {x. f x \<noteq> 0}"]) auto

lemma total_alt: "finite A \<Longrightarrow> {x. f x \<noteq> 0} \<subseteq> A \<Longrightarrow> total f = (\<Sum>x\<in>A. f x)"
  unfolding total_def by (rule sum.mono_neutral_left) auto

lemma total_upd:
  assumes "fin_support f"
  shows "total (f(x := v)) = total f - f x + v"
proof -
  let ?A = "insert x {y. f y \<noteq> 0}"
  have fin: "finite ?A" using assms by (simp add: fin_support_def)
  have "total (f(x := v)) = (\<Sum>y\<in>?A. (f(x := v)) y)" by (rule total_alt [OF fin]) auto
  also have "\<dots> = v + (\<Sum>y\<in>?A - {x}. f y)" by (subst sum.remove [OF fin, of x]) auto
  also have "(\<Sum>y\<in>?A - {x}. f y) = total f - f x"
  proof -
    have "total f = (\<Sum>y\<in>?A. f y)" by (rule total_alt [OF fin]) auto
    also have "\<dots> = f x + (\<Sum>y\<in>?A - {x}. f y)" by (rule sum.remove [OF fin]) simp
    finally show ?thesis by simp
  qed
  finally show ?thesis by (simp add: fun_upd_def)
qed

end
