(* ===== verification/Merkle.thy ===== *)
theory Merkle
  imports Prelude
begin

text \<open>
  The binary Merkle trees of \<^verbatim>\<open>src/core/types/derive_sha.go\<close> and \<^verbatim>\<open>block.go\<close>: the root an
  operator submits for the states, transactions and receipts of an epoch, the inclusion
  proofs a challenger builds with \<^verbatim>\<open>GetMerkleProof\<close>, and the verifier
  \<^verbatim>\<open>checkMembership\<close> of the root chain's \<^verbatim>\<open>BMT.sol\<close>. The hash function
  \<^verbatim>\<open>crypto.Keccak256Hash\<close> wraps a third-party package and is the parameter \<open>keccak\<close>
  of every definition.
\<close>

section \<open>Trees and roots\<close>

definition EmptyRootHash :: hash where
  "EmptyRootHash = 0x56e81f171bcc55a6ff8345e692c0f86e5b48e01b996cadc001622fb5e363b421"

definition node_input :: "hash \<Rightarrow> hash \<Rightarrow> bytes" where
  "node_input a b = hash_bytes a @ hash_bytes b"

text \<open>
  One level of the tree from the level below. The loop of the source pairs neighbours
  and hashes a last unpaired element with itself.
\<close>

fun nextlevel :: "(bytes \<Rightarrow> hash) \<Rightarrow> hash list \<Rightarrow> hash list" where
  "nextlevel keccak [] = []"
| "nextlevel keccak [a] = [keccak (node_input a a)]"
| "nextlevel keccak (a # b # level) = keccak (node_input a b) # nextlevel keccak level"

lemma length_nextlevel [simp]: "length (nextlevel keccak level) = (length level + 1) div 2"
  by (induction keccak level rule: nextlevel.induct) auto

function getBinaryMerkleRoot :: "(bytes \<Rightarrow> hash) \<Rightarrow> hash list \<Rightarrow> hash" where
  "getBinaryMerkleRoot keccak level =
     (if length level = 0 then EmptyRootHash
      else if length level = 1 then level ! 0
      else getBinaryMerkleRoot keccak (nextlevel keccak level))"
  by pat_completeness auto
termination
proof (relation "measure (\<lambda>(k, level). length level)")
  fix keccak :: "bytes \<Rightarrow> hash" and level :: "hash list"
  assume "length level \<noteq> 0" and "length level \<noteq> 1"
  then have "(length level + 1) div 2 < length level" by presburger
  then show "((keccak, nextlevel keccak level), keccak, level) \<in> measure (\<lambda>(k, level). length level)"
    by simp
qed simp

declare getBinaryMerkleRoot.simps [simp del]

text \<open>A \<^verbatim>\<open>DerivableList\<close> is the list of the RLP encodings of its elements.\<close>

definition leafLevel :: "(bytes \<Rightarrow> hash) \<Rightarrow> bytes list \<Rightarrow> hash list" where
  "leafLevel keccak rlps = map keccak rlps"

definition DeriveShaFromBMT :: "(bytes \<Rightarrow> hash) \<Rightarrow> bytes list \<Rightarrow> hash" where
  "DeriveShaFromBMT keccak rlps = getBinaryMerkleRoot keccak (leafLevel keccak rlps)"

section \<open>Inclusion proofs\<close>

text \<open>
  The slice \<^verbatim>\<open>tree\<close> after the loop that creates it: the leaf level first, the root level
  last. \<^verbatim>\<open>depth\<close> is the index of the last level.
\<close>

function createTree :: "(bytes \<Rightarrow> hash) \<Rightarrow> hash list \<Rightarrow> hash list list" where
  "createTree keccak level =
     (if length level > 1 then level # createTree keccak (nextlevel keccak level) else [level])"
  by pat_completeness auto
termination
  by (relation "measure (\<lambda>(k, level). length level)") auto

declare createTree.simps [simp del]

text \<open>The loop that collects the siblings; an index out of range is a panic.\<close>

fun proofLoop :: "hash list list \<Rightarrow> int \<Rightarrow> hash list option" where
  "proofLoop [] nodeIndex = Some []"
| "proofLoop (level # levels) nodeIndex =
     (let siblingIndex =
        (if nodeIndex mod 2 = 0
         then (if int (length level) = nodeIndex + 1 then nodeIndex else nodeIndex + 1)
         else nodeIndex - 1)
      in case go_index level siblingIndex of
           None \<Rightarrow> None
         | Some h \<Rightarrow> map_option (Cons h) (proofLoop levels (go_quot nodeIndex 2)))"

definition GetMerkleProof :: "(bytes \<Rightarrow> hash) \<Rightarrow> bytes list \<Rightarrow> int \<Rightarrow> hash list option" where
  "GetMerkleProof keccak rlps index =
     (if length rlps = 1 then Some []
      else let tree = createTree keccak (leafLevel keccak rlps);
               depth = length tree - 1
           in proofLoop (take depth tree) index)"

text \<open>
  The bytes of a proof as \<^verbatim>\<open>handleBlockFinalized\<close> concatenates them for the root chain
  call, and the root chain's verifier. \<open>None\<close> is a failed \<^verbatim>\<open>require\<close>.
\<close>

definition proofBytes :: "hash list \<Rightarrow> bytes" where
  "proofBytes proof = concat (map hash_bytes proof)"

fun membershipLoop :: "(bytes \<Rightarrow> hash) \<Rightarrow> nat \<Rightarrow> hash \<Rightarrow> nat \<Rightarrow> bytes \<Rightarrow> hash" where
  "membershipLoop keccak 0 computedHash index proof = computedHash"
| "membershipLoop keccak (Suc n) computedHash index proof =
     (let proofElement = bytes_to_hash (take 32 proof)
      in membershipLoop keccak n
           (keccak (if index mod 2 = 0 then node_input computedHash proofElement
                    else node_input proofElement computedHash))
           (index div 2) (drop 32 proof))"

definition checkMembership ::
    "(bytes \<Rightarrow> hash) \<Rightarrow> hash \<Rightarrow> nat \<Rightarrow> hash \<Rightarrow> bytes \<Rightarrow> bool option" where
  "checkMembership keccak leaf index rootHash proof =
     (if length proof mod 32 \<noteq> 0 then None
      else let numElements = length proof div 32
           in if numElements \<ge> 16 then None
              else Some (membershipLoop keccak numElements leaf index proof = rootHash))"

section \<open>The verifier over lists of hashes\<close>

text \<open>
  What \<open>membershipLoop\<close> computes on the bytes of a list of hashes, and the inputs it
  feeds to the hash function on the way.
\<close>

fun climb :: "(bytes \<Rightarrow> hash) \<Rightarrow> hash \<Rightarrow> nat \<Rightarrow> hash list \<Rightarrow> hash" where
  "climb keccak h index [] = h"
| "climb keccak h index (p # ps) =
     climb keccak (keccak (if even index then node_input h p else node_input p h)) (index div 2) ps"

fun climb_inputs :: "(bytes \<Rightarrow> hash) \<Rightarrow> hash \<Rightarrow> nat \<Rightarrow> hash list \<Rightarrow> bytes list" where
  "climb_inputs keccak h index [] = []"
| "climb_inputs keccak h index (p # ps) =
     (let x = (if even index then node_input h p else node_input p h)
      in x # climb_inputs keccak (keccak x) (index div 2) ps)"

fun level_inputs :: "hash list \<Rightarrow> bytes list" where
  "level_inputs [] = []"
| "level_inputs [a] = [node_input a a]"
| "level_inputs (a # b # level) = node_input a b # level_inputs level"

lemma nextlevel_eq: "nextlevel keccak level = map keccak (level_inputs level)"
  by (induction keccak level rule: nextlevel.induct) auto

lemma length_proofBytes [simp]: "length (proofBytes pf) = 32 * length pf"
  unfolding proofBytes_def by (induction pf) auto

lemma membershipLoop_climb:
  "membershipLoop keccak (length pf) h index (proofBytes pf) = climb keccak h index pf"
  by (induction pf arbitrary: h index)
    (simp_all add: proofBytes_def even_iff_mod_2_eq_zero)

lemma node_input_inject [simp]: "node_input a b = node_input c d \<longleftrightarrow> a = c \<and> b = d"
  by (simp add: node_input_def)

section \<open>Neighbours on a level\<close>

definition sibling :: "hash list \<Rightarrow> nat \<Rightarrow> hash" where
  "sibling level i =
     (if odd i then level ! (i - 1) else if length level = i + 1 then level ! i else level ! (i + 1))"

lemma level_inputs_nth:
  "i < length level \<Longrightarrow> level_inputs level ! (i div 2) =
     (if even i then node_input (level ! i) (sibling level i)
      else node_input (sibling level i) (level ! i))"
proof (induction level arbitrary: i rule: level_inputs.induct)
  case (3 a b level)
  show ?case
  proof (cases "i < 2")
    case True
    then have "i = 0 \<or> i = 1" by auto
    then show ?thesis by (auto simp: sibling_def)
  next
    case False
    define j where "j = i - 2"
    with False have i: "i = Suc (Suc j)" by simp
    with "3.prems" have "j < length level" by simp
    then have "level_inputs level ! (j div 2) =
      (if even j then node_input (level ! j) (sibling level j)
       else node_input (sibling level j) (level ! j))"
      by (rule "3.IH")
    moreover have "sibling (a # b # level) i = sibling level j"
      by (cases j) (auto simp: sibling_def i)
    ultimately show ?thesis by (simp add: i)
  qed
qed (auto simp: sibling_def)

section \<open>Inputs hashed by a whole tree, and its depth\<close>

function tree_inputs :: "(bytes \<Rightarrow> hash) \<Rightarrow> hash list \<Rightarrow> bytes list" where
  "tree_inputs keccak level =
     (if length level > 1 then level_inputs level @ tree_inputs keccak (nextlevel keccak level)
      else [])"
  by pat_completeness auto
termination
  by (relation "measure (\<lambda>(k, level). length level)") auto

declare tree_inputs.simps [simp del]

definition depth :: "(bytes \<Rightarrow> hash) \<Rightarrow> hash list \<Rightarrow> nat" where
  "depth keccak level = length (createTree keccak level) - 1"

lemma length_level_inputs [simp]: "length (level_inputs level) = (length level + 1) div 2"
  by (induction level rule: level_inputs.induct) auto

lemma createTree_step:
  "1 < length level \<Longrightarrow> createTree keccak level = level # createTree keccak (nextlevel keccak level)"
  by (simp add: createTree.simps [of keccak level])

lemma createTree_leaf: "length level \<le> 1 \<Longrightarrow> createTree keccak level = [level]"
  by (simp add: createTree.simps [of keccak level])

lemma createTree_nonempty [simp]: "createTree keccak level \<noteq> []"
  by (subst createTree.simps) simp

lemma root_step:
  "1 < length level \<Longrightarrow>
     getBinaryMerkleRoot keccak level = getBinaryMerkleRoot keccak (nextlevel keccak level)"
  by (subst getBinaryMerkleRoot.simps) auto

lemma root_leaf: "length level = 1 \<Longrightarrow> getBinaryMerkleRoot keccak level = level ! 0"
  by (simp add: getBinaryMerkleRoot.simps [of keccak level])

lemma depth_step: "1 < length level \<Longrightarrow> depth keccak level = Suc (depth keccak (nextlevel keccak level))"
  by (simp add: depth_def createTree_step)

lemma depth_leaf: "length level \<le> 1 \<Longrightarrow> depth keccak level = 0"
  by (simp add: depth_def createTree_leaf)

lemma depth_bound: "length level \<le> 2 ^ n \<Longrightarrow> depth keccak level \<le> n"
proof (induction n arbitrary: level)
  case 0
  then show ?case by (simp add: depth_leaf)
next
  case (Suc n)
  show ?case
  proof (cases "1 < length level")
    case True
    have "length (nextlevel keccak level) \<le> 2 ^ n" using Suc.prems by simp
    then have "depth keccak (nextlevel keccak level) \<le> n" by (rule Suc.IH)
    with True show ?thesis by (simp add: depth_step)
  qed (simp add: depth_leaf)
qed

lemma sibling_index:
  "i < length level \<Longrightarrow> 1 < length level \<Longrightarrow>
     go_index level
       (if int i mod 2 = 0 then (if int (length level) = int i + 1 then int i else int i + 1)
        else int i - 1) = Some (sibling level i)"
  by (auto simp: go_index_def sibling_def nat_add_distrib nat_diff_distrib even_iff_mod_2_eq_zero
      elim!: evenE oddE; presburger)

lemma nextlevel_nth:
  "i < length level \<Longrightarrow> nextlevel keccak level ! (i div 2) = keccak (level_inputs level ! (i div 2))"
  by (subst nextlevel_eq, subst nth_map) auto

section \<open>Completeness and soundness of proofs\<close>

lemma proofLoop_climb:
  assumes "i < length level"
  shows "\<exists>ps. proofLoop (take (depth keccak level) (createTree keccak level)) (int i) = Some ps
    \<and> length ps = depth keccak level
    \<and> climb keccak (level ! i) i ps = getBinaryMerkleRoot keccak level"
  using assms
proof (induction keccak level arbitrary: i rule: createTree.induct)
  case (1 keccak level)
  let ?next = "nextlevel keccak level"
  show ?case
  proof (cases "1 < length level")
    case True
    have "i div 2 < length ?next" using "1.prems" by simp
    from "1.IH" [OF True this] obtain ps where
      ps: "proofLoop (take (depth keccak ?next) (createTree keccak ?next)) (int (i div 2)) = Some ps"
        "length ps = depth keccak ?next"
        "climb keccak (?next ! (i div 2)) (i div 2) ps = getBinaryMerkleRoot keccak ?next"
      by blast
    have "?next ! (i div 2) = keccak
      (if even i then node_input (level ! i) (sibling level i)
       else node_input (sibling level i) (level ! i))"
      using "1.prems" by (simp add: nextlevel_nth level_inputs_nth)
    with ps True show ?thesis
      by (simp add: createTree_step depth_step root_step Let_def sibling_index [OF "1.prems" True])
  next
    case False
    with "1.prems" have "length level = 1" by simp
    with "1.prems" show ?thesis by (simp add: depth_leaf root_leaf)
  qed
qed

lemma climb_sound:
  assumes "i < length level" and "length ps = depth keccak level"
    and "climb keccak h i ps = getBinaryMerkleRoot keccak level"
  shows "h = level ! i \<or>
    (\<exists>x \<in> set (climb_inputs keccak h i ps). \<exists>y \<in> set (tree_inputs keccak level).
       x \<noteq> y \<and> keccak x = keccak y)"
  using assms
proof (induction keccak level arbitrary: i h ps rule: createTree.induct)
  case (1 keccak level)
  let ?next = "nextlevel keccak level"
  show ?case
  proof (cases "1 < length level")
    case True
    with "1.prems"(2) obtain p ps' where ps: "ps = p # ps'" "length ps' = depth keccak ?next"
      by (cases ps) (auto simp: depth_step)
    define x where "x = (if even i then node_input h p else node_input p h)"
    define y where "y = level_inputs level ! (i div 2)"
    have i2: "i div 2 < length ?next" using "1.prems"(1) by simp
    have y: "y \<in> set (tree_inputs keccak level)"
      using True "1.prems"(1) by (simp add: y_def tree_inputs.simps [of keccak level])
    have step: "climb keccak (keccak x) (i div 2) ps' = getBinaryMerkleRoot keccak ?next"
      using "1.prems"(3) True by (simp add: ps x_def root_step)
    have inputs: "climb_inputs keccak h i ps = x # climb_inputs keccak (keccak x) (i div 2) ps'"
      by (simp add: ps x_def Let_def)
    from "1.IH" [OF True i2 ps(2) step]
    consider "keccak x = ?next ! (i div 2)"
      | "\<exists>u \<in> set (climb_inputs keccak (keccak x) (i div 2) ps').
           \<exists>v \<in> set (tree_inputs keccak ?next). u \<noteq> v \<and> keccak u = keccak v"
      by blast
    then show ?thesis
    proof cases
      case 1
      then have "keccak x = keccak y"
        using "1.prems"(1) by (simp add: y_def nextlevel_nth)
      moreover have "x = y \<Longrightarrow> h = level ! i"
        using "1.prems"(1) by (simp add: x_def y_def level_inputs_nth split: if_splits)
      ultimately show ?thesis using y inputs by auto
    next
      case 2
      then show ?thesis using True inputs by (auto simp: tree_inputs.simps [of keccak level])
    qed
  next
    case False
    with "1.prems" have "length level = 1" by simp
    with "1.prems" show ?thesis by (simp add: depth_leaf root_leaf)
  qed
qed

lemma level_inputs_dup:
  "odd (length level) \<Longrightarrow> level_inputs (level @ [last level]) = level_inputs level"
  by (induction level rule: level_inputs.induct) auto

lemma length_le_depth: "length level \<le> 2 ^ depth keccak level"
proof (induction keccak level rule: createTree.induct)
  case (1 keccak level)
  show ?case
  proof (cases "1 < length level")
    case True
    then have "(length level + 1) div 2 \<le> 2 ^ depth keccak (nextlevel keccak level)" using 1 by simp
    then show ?thesis using True by (simp add: depth_step)
  next
    case False
    then show ?thesis by (simp add: depth_leaf)
  qed
qed

text \<open>
  C1. The inclusion proof that \<^verbatim>\<open>GetMerkleProof\<close> builds for any element of a list exists (no index is
  out of range). Once \<^verbatim>\<open>handleBlockFinalized\<close> has concatenated its bytes, the root chain's
  \<^verbatim>\<open>checkMembership\<close> accepts it against the root that \<^verbatim>\<open>DeriveShaFromBMT\<close> put into the block header if the
  list has at most \<open>2 ^ 15\<close> elements, and refuses it, by its limit of fifteen proof elements, if
  the list is longer.
\<close>

theorem GetMerkleProof_accepted:
  assumes "i < length rlps"
  shows "\<exists>ps. GetMerkleProof keccak rlps (int i) = Some ps \<and>
    checkMembership keccak (keccak (rlps ! i)) i (DeriveShaFromBMT keccak rlps) (proofBytes ps) =
      (if length rlps \<le> 2 ^ 15 then Some True else None)"
proof -
  let ?level = "leafLevel keccak rlps"
  have len: "length ?level = length rlps" and nth: "?level ! i = keccak (rlps ! i)"
    using assms(1) by (simp_all add: leafLevel_def)
  obtain ps where ps: "proofLoop (take (depth keccak ?level) (createTree keccak ?level)) (int i) = Some ps"
      "length ps = depth keccak ?level"
      "climb keccak (?level ! i) i ps = getBinaryMerkleRoot keccak ?level"
    using proofLoop_climb [of i ?level keccak] assms(1) len by auto
  have "GetMerkleProof keccak rlps (int i) = Some ps"
  proof (cases "length rlps = 1")
    case True
    with ps(2) len have "ps = []" by (simp add: depth_leaf)
    with True show ?thesis by (simp add: GetMerkleProof_def)
  next
    case False
    with ps(1) show ?thesis by (simp add: GetMerkleProof_def Let_def depth_def)
  qed
  moreover have "length ps < 16 \<longleftrightarrow> length rlps \<le> 2 ^ 15"
  proof
    assume "length ps < 16"
    then have "(2::nat) ^ depth keccak ?level \<le> 2 ^ 15" using ps(2) by (intro power_increasing) auto
    then show "length rlps \<le> 2 ^ 15" using length_le_depth [of ?level keccak] len by linarith
  next
    assume "length rlps \<le> 2 ^ 15"
    then show "length ps < 16" using ps(2) depth_bound [of ?level 15 keccak] len by simp
  qed
  ultimately show ?thesis
    using ps(3) nth by (auto simp: checkMembership_def Let_def membershipLoop_climb DeriveShaFromBMT_def)
qed

theorem GetMerkleProof_accepted_witness:
  "\<exists>ps. GetMerkleProof (\<lambda>b. of_nat (length b)) [[1], [2, 3], [4]] 2 = Some ps \<and>
    checkMembership (\<lambda>b. of_nat (length b)) 1 2
      (DeriveShaFromBMT (\<lambda>b. of_nat (length b)) [[1], [2, 3], [4]]) (proofBytes ps) = Some True"
  using GetMerkleProof_accepted [of 2 "[[1], [2, 3], [4]]" "\<lambda>b. of_nat (length b)"] by simp

text \<open>
  C2. Soundness of the verifier. If \<^verbatim>\<open>checkMembership\<close> accepts a proof of the tree's depth for
  some leaf at an index inside the list, the leaf is the hash of the element at that index,
  unless the inputs hashed along the proof path and the inputs hashed in the tree contain two
  different byte strings with the same hash.
\<close>

theorem checkMembership_sound:
  assumes "i < length rlps"
    and "length ps = depth keccak (leafLevel keccak rlps)"
    and "checkMembership keccak leaf i (DeriveShaFromBMT keccak rlps) (proofBytes ps) = Some True"
  shows "leaf = keccak (rlps ! i) \<or>
    (\<exists>x \<in> set (climb_inputs keccak leaf i ps).
     \<exists>y \<in> set (tree_inputs keccak (leafLevel keccak rlps)). x \<noteq> y \<and> keccak x = keccak y)"
proof -
  have "climb keccak leaf i ps = getBinaryMerkleRoot keccak (leafLevel keccak rlps)"
    using assms(3)
    by (simp add: checkMembership_def Let_def membershipLoop_climb DeriveShaFromBMT_def split: if_splits)
  with climb_sound [of i "leafLevel keccak rlps" ps keccak leaf] assms(1,2)
  show ?thesis by (simp add: leafLevel_def)
qed

theorem checkMembership_sound_witness:
  "checkMembership (\<lambda>b. of_nat (length b)) 2 1 (DeriveShaFromBMT (\<lambda>b. of_nat (length b)) [[4], [5, 6]]) (proofBytes [1]) = Some True \<and>
   ((2 :: hash) = of_nat (length ([5, 6] :: bytes)) \<or>
    (\<exists>x \<in> set (climb_inputs (\<lambda>b. of_nat (length b)) 2 1 [1]).
     \<exists>y \<in> set (tree_inputs (\<lambda>b. of_nat (length b)) (leafLevel (\<lambda>b. of_nat (length b)) [[4], [5, 6]])).
       x \<noteq> y \<and> (of_nat (length x) :: hash) = of_nat (length y)))"
proof -
  let ?k = "\<lambda>b. of_nat (length b) :: hash" and ?l = "[[4], [5, 6]] :: bytes list"
  have d: "length [1 :: hash] = depth ?k (leafLevel ?k ?l)"
    by (simp add: depth_step depth_leaf leafLevel_def)
  have c: "checkMembership ?k 2 1 (DeriveShaFromBMT ?k ?l) (proofBytes [1]) = Some True"
    by (simp add: checkMembership_def DeriveShaFromBMT_def leafLevel_def root_step root_leaf proofBytes_def node_input_def)
  show ?thesis using checkMembership_sound [OF _ d c] c by simp
qed

text \<open>
  C3. A level of odd length greater than one has the same root as the level with its last
  element repeated: the root does not determine the number of elements below it.
\<close>

theorem getBinaryMerkleRoot_duplicate_last:
  assumes "odd (length level)" and "1 < length level"
  shows "getBinaryMerkleRoot keccak (level @ [last level]) = getBinaryMerkleRoot keccak level"
proof -
  have "nextlevel keccak (level @ [last level]) = nextlevel keccak level"
    using assms(1) by (simp add: nextlevel_eq level_inputs_dup)
  then show ?thesis
    using assms(2) root_step [of "level @ [last level]" keccak] root_step [of level keccak] by force
qed

theorem getBinaryMerkleRoot_duplicate_last_witness:
  "getBinaryMerkleRoot (\<lambda>b. of_nat (length b)) [5, 6, 7, 7] =
   getBinaryMerkleRoot (\<lambda>b. of_nat (length b)) [5, 6, 7]"
  using getBinaryMerkleRoot_duplicate_last [of "[5, 6, 7]" "\<lambda>b. of_nat (length b)"] by simp

end
