(* ===== verification/State_Object.thy ===== *)
theory State_Object
  imports Prelude
begin

text \<open>
  Accounts and their cached state objects (\<^verbatim>\<open>src/core/state/state_object.go\<close>). Objects are
  values: a method that mutates its receiver returns the changed object. What an object
  reads from below, the storage tries and the code store behind the interface
  \<^verbatim>\<open>state.Database\<close> and the Keccak hash, is the record \<open>env\<close> that every operation takes.
\<close>

section \<open>Environment, accounts and objects\<close>

record Account =
  Nonce :: u64
  Balance :: int
  Root :: hash
  CodeHash :: hash

text \<open>
  \<open>OpenStorageTrie\<close> yields the contents of the storage trie with a given root, or \<open>None\<close>
  when the database returns an error; \<open>ContractCode\<close> likewise for code by hash;
  \<open>TrieHash\<close> and \<open>AccountTrieHash\<close> are the root hashes of a storage trie and of the account trie with
  the given contents. A trie that was opened is complete: looking up, updating and deleting a
  key in it do not fail.
\<close>

record env =
  e_keccak :: "bytes \<Rightarrow> hash"
  OpenStorageTrie :: "hash \<Rightarrow> (hash \<rightharpoonup> hash) option"
  ContractCode :: "hash \<Rightarrow> bytes option"
  TrieHash :: "(hash \<rightharpoonup> hash) \<Rightarrow> hash"
  AccountTrieHash :: "(address \<rightharpoonup> Account) \<Rightarrow> hash"

record stateObject =
  so_address :: address
  so_data :: Account
  so_dbErr :: bool
  so_trie :: "(hash \<rightharpoonup> hash) option"
  so_code :: "bytes option"
  originStorage :: "hash \<rightharpoonup> hash"
  pendingStorage :: "hash \<rightharpoonup> hash"
  dirtyStorage :: "hash \<rightharpoonup> hash"
  fakeStorage :: "(hash \<rightharpoonup> hash) option"
  dirtyCode :: bool
  suicided :: bool
  deleted :: bool

definition emptyRoot :: hash where
  "emptyRoot = 0x56e81f171bcc55a6ff8345e692c0f86e5b48e01b996cadc001622fb5e363b421"

definition emptyCodeHash :: "env \<Rightarrow> hash" where
  "emptyCodeHash E = e_keccak E []"

text \<open>Reading a missing key of a Go map yields the zero value.\<close>

definition map_get :: "('k \<rightharpoonup> hash) \<Rightarrow> 'k \<Rightarrow> hash" where
  "map_get m k = (case m k of None \<Rightarrow> 0 | Some v \<Rightarrow> v)"

text \<open>
  \<^verbatim>\<open>newObject\<close> completes the fields that are nil in \<^verbatim>\<open>Account{}\<close>: the balance, the code hash
  and the zero root.
\<close>

definition newObject :: "env \<Rightarrow> address \<Rightarrow> u64 \<Rightarrow> int option \<Rightarrow> hash \<Rightarrow> hash option \<Rightarrow> stateObject" where
  "newObject E addr nonce balance root codeHash =
     \<lparr>so_address = addr,
      so_data = \<lparr>Nonce = nonce,
              Balance = (case balance of None \<Rightarrow> 0 | Some b \<Rightarrow> b),
              Root = (if root = 0 then emptyRoot else root),
              CodeHash = (case codeHash of None \<Rightarrow> emptyCodeHash E | Some h \<Rightarrow> h)\<rparr>,
      so_dbErr = False, so_trie = None, so_code = None,
      originStorage = Map.empty, pendingStorage = Map.empty, dirtyStorage = Map.empty,
      fakeStorage = None, dirtyCode = False, suicided = False, deleted = False\<rparr>"

text \<open>The object for an account that was read from the account trie.\<close>

definition loadObject :: "env \<Rightarrow> address \<Rightarrow> Account \<Rightarrow> stateObject" where
  "loadObject E addr d = newObject E addr (Nonce d) (Some (Balance d)) (Root d) (Some (CodeHash d))"

definition so_empty :: "env \<Rightarrow> stateObject \<Rightarrow> bool" where
  "so_empty E o1 \<longleftrightarrow> Nonce (so_data o1) = 0 \<and> Balance (so_data o1) = 0 \<and> CodeHash (so_data o1) = emptyCodeHash E"

section \<open>Storage\<close>

definition openTrie :: "env \<Rightarrow> hash \<Rightarrow> hash \<rightharpoonup> hash" where
  "openTrie E root =
     (case OpenStorageTrie E root of
        Some t \<Rightarrow> t
      | None \<Rightarrow> (case OpenStorageTrie E 0 of Some t \<Rightarrow> t | None \<Rightarrow> Map.empty))"

definition getTrie :: "env \<Rightarrow> stateObject \<Rightarrow> (hash \<rightharpoonup> hash) \<times> stateObject" where
  "getTrie E o1 =
     (case so_trie o1 of
        Some t \<Rightarrow> (t, o1)
      | None \<Rightarrow>
          let t = openTrie E (Root (so_data o1))
          in (t, o1\<lparr>so_trie := Some t, so_dbErr := so_dbErr o1 \<or> OpenStorageTrie E (Root (so_data o1)) = None\<rparr>))"

definition so_GetCommittedState :: "env \<Rightarrow> hash \<Rightarrow> stateObject \<Rightarrow> hash \<times> stateObject" where
  "so_GetCommittedState E key o1 =
     (case fakeStorage o1 of
        Some f \<Rightarrow> (map_get f key, o1)
      | None \<Rightarrow>
        (case pendingStorage o1 key of
           Some v \<Rightarrow> (v, o1)
         | None \<Rightarrow>
           (case originStorage o1 key of
              Some v \<Rightarrow> (v, o1)
            | None \<Rightarrow>
                let (t, o2) = getTrie E o1; v = map_get t key
                in (v, o2\<lparr>originStorage := (originStorage o2)(key \<mapsto> v)\<rparr>))))"

definition so_GetState :: "env \<Rightarrow> hash \<Rightarrow> stateObject \<Rightarrow> hash \<times> stateObject" where
  "so_GetState E key o1 =
     (case fakeStorage o1 of
        Some f \<Rightarrow> (map_get f key, o1)
      | None \<Rightarrow>
        (case dirtyStorage o1 key of
           Some v \<Rightarrow> (v, o1)
         | None \<Rightarrow> so_GetCommittedState E key o1))"

definition setState :: "hash \<Rightarrow> hash \<Rightarrow> stateObject \<Rightarrow> stateObject" where
  "setState key v o1 = o1\<lparr>dirtyStorage := (dirtyStorage o1)(key \<mapsto> v)\<rparr>"

definition so_SetStorage :: "(hash \<rightharpoonup> hash) \<Rightarrow> stateObject \<Rightarrow> stateObject" where
  "so_SetStorage storage o1 =
     o1\<lparr>fakeStorage := Some ((case fakeStorage o1 of None \<Rightarrow> Map.empty | Some f \<Rightarrow> f) ++ storage)\<rparr>"

text \<open>\<^verbatim>\<open>finalise\<close> moves the dirty slots to the pending area.\<close>

definition so_finalise :: "stateObject \<Rightarrow> stateObject" where
  "so_finalise o1 =
     o1\<lparr>pendingStorage := pendingStorage o1 ++ dirtyStorage o1, dirtyStorage := Map.empty\<rparr>"

text \<open>
  \<^verbatim>\<open>updateTrie\<close> writes every pending slot that differs from the original value into the trie,
  a zero as a deletion. The loop treats each key by itself, so its result is given per key.
\<close>

definition flushed :: "stateObject \<Rightarrow> hash \<Rightarrow> hash option" where
  "flushed o1 key =
     (case pendingStorage o1 key of
        None \<Rightarrow> None
      | Some v \<Rightarrow> if v = map_get (originStorage o1) key then None else Some v)"

definition updateTrie :: "env \<Rightarrow> stateObject \<Rightarrow> (hash \<rightharpoonup> hash) \<times> stateObject" where
  "updateTrie E o1 =
     (let (t, o2) = getTrie E (so_finalise o1);
          t' = (\<lambda>k. case flushed o2 k of None \<Rightarrow> t k | Some v \<Rightarrow> if v = 0 then None else Some v)
      in (t', o2\<lparr>so_trie := Some t', originStorage := originStorage o2 ++ flushed o2,
                 pendingStorage := Map.empty\<rparr>))"

definition updateRoot :: "env \<Rightarrow> stateObject \<Rightarrow> stateObject" where
  "updateRoot E o1 =
     (let (t, o2) = updateTrie E o1 in o2\<lparr>so_data := (so_data o2)\<lparr>Root := TrieHash E t\<rparr>\<rparr>)"

section \<open>Balance, nonce, code\<close>

definition setBalance :: "int \<Rightarrow> stateObject \<Rightarrow> stateObject" where
  "setBalance amount o1 = o1\<lparr>so_data := (so_data o1)\<lparr>Balance := amount\<rparr>\<rparr>"

definition setNonce :: "u64 \<Rightarrow> stateObject \<Rightarrow> stateObject" where
  "setNonce nonce o1 = o1\<lparr>so_data := (so_data o1)\<lparr>Nonce := nonce\<rparr>\<rparr>"

definition setCode :: "hash \<Rightarrow> bytes option \<Rightarrow> stateObject \<Rightarrow> stateObject" where
  "setCode codeHash c o1 = o1\<lparr>so_code := c, so_data := (so_data o1)\<lparr>CodeHash := codeHash\<rparr>, dirtyCode := True\<rparr>"

definition markSuicided :: "stateObject \<Rightarrow> stateObject" where
  "markSuicided o1 = o1\<lparr>suicided := True\<rparr>"

text \<open>\<^verbatim>\<open>Code\<close> returns nil (\<open>None\<close>) for an account without code and caches what it loads.\<close>

definition Code :: "env \<Rightarrow> stateObject \<Rightarrow> bytes option \<times> stateObject" where
  "Code E o1 =
     (case so_code o1 of
        Some c \<Rightarrow> (Some c, o1)
      | None \<Rightarrow>
          if CodeHash (so_data o1) = emptyCodeHash E then (None, o1)
          else let c = ContractCode E (CodeHash (so_data o1))
               in (c, o1\<lparr>so_code := c, so_dbErr := so_dbErr o1 \<or> c = None\<rparr>))"

section \<open>What an object shows\<close>

text \<open>
  The observable content of an object, independent of which layer of cache a slot or the
  code currently lives in.
\<close>

record account_view =
  v_nonce :: u64
  v_balance :: int
  v_codehash :: hash
  v_code :: bytes
  v_storage :: "hash \<Rightarrow> hash"
  v_committed :: "hash \<Rightarrow> hash"
  v_suicided :: bool
  v_deleted :: bool

definition trie_view :: "env \<Rightarrow> stateObject \<Rightarrow> hash \<rightharpoonup> hash" where
  "trie_view E o1 = (case so_trie o1 of Some t \<Rightarrow> t | None \<Rightarrow> openTrie E (Root (so_data o1)))"

definition committed_view :: "env \<Rightarrow> stateObject \<Rightarrow> hash \<Rightarrow> hash" where
  "committed_view E o1 k =
     (case fakeStorage o1 of
        Some f \<Rightarrow> map_get f k
      | None \<Rightarrow> (case pendingStorage o1 k of
                   Some v \<Rightarrow> v
                 | None \<Rightarrow> (case originStorage o1 k of Some v \<Rightarrow> v | None \<Rightarrow> map_get (trie_view E o1) k)))"

definition storage_view :: "env \<Rightarrow> stateObject \<Rightarrow> hash \<Rightarrow> hash" where
  "storage_view E o1 k =
     (case fakeStorage o1 of
        Some f \<Rightarrow> map_get f k
      | None \<Rightarrow> (case dirtyStorage o1 k of Some v \<Rightarrow> v | None \<Rightarrow> committed_view E o1 k))"

definition code_view :: "env \<Rightarrow> stateObject \<Rightarrow> bytes" where
  "code_view E o1 =
     (case so_code o1 of
        Some c \<Rightarrow> c
      | None \<Rightarrow> if CodeHash (so_data o1) = emptyCodeHash E then []
                else (case ContractCode E (CodeHash (so_data o1)) of Some c \<Rightarrow> c | None \<Rightarrow> []))"

definition obj_view :: "env \<Rightarrow> stateObject \<Rightarrow> account_view" where
  "obj_view E o1 =
     \<lparr>v_nonce = Nonce (so_data o1), v_balance = Balance (so_data o1),
      v_codehash = CodeHash (so_data o1), v_code = code_view E o1,
      v_storage = storage_view E o1, v_committed = committed_view E o1,
      v_suicided = suicided o1, v_deleted = deleted o1\<rparr>"

text \<open>
  The storage layers agree: a slot enters the dirty or pending area only after its
  original value was loaded, and a loaded value is what the trie holds.
\<close>

definition storage_inv :: "env \<Rightarrow> stateObject \<Rightarrow> bool" where
  "storage_inv E o1 \<longleftrightarrow>
     fakeStorage o1 = None \<and>
     dom (dirtyStorage o1) \<subseteq> dom (originStorage o1) \<and>
     dom (pendingStorage o1) \<subseteq> dom (originStorage o1) \<and>
     (\<forall>k v. originStorage o1 k = Some v \<longrightarrow> map_get (trie_view E o1) k = v)"

lemmas view_defs = obj_view_def storage_view_def committed_view_def code_view_def trie_view_def

section \<open>Objects that differ in caches only\<close>

lemma trie_view_cong:
  "so_trie o2 = so_trie o1 \<Longrightarrow> Root (so_data o2) = Root (so_data o1) \<Longrightarrow> trie_view E o2 = trie_view E o1"
  by (simp add: trie_view_def cong: option.case_cong)

lemma committed_view_cong:
  "fakeStorage o2 = fakeStorage o1 \<Longrightarrow> pendingStorage o2 = pendingStorage o1 \<Longrightarrow>
   originStorage o2 = originStorage o1 \<Longrightarrow> trie_view E o2 = trie_view E o1 \<Longrightarrow>
   committed_view E o2 = committed_view E o1"
  by (rule ext) (simp add: committed_view_def cong: option.case_cong)

lemma storage_view_cong:
  "fakeStorage o2 = fakeStorage o1 \<Longrightarrow> dirtyStorage o2 = dirtyStorage o1 \<Longrightarrow>
   committed_view E o2 = committed_view E o1 \<Longrightarrow> storage_view E o2 = storage_view E o1"
  by (rule ext) (simp add: storage_view_def cong: option.case_cong)

lemma code_view_cong:
  "so_code o2 = so_code o1 \<Longrightarrow> CodeHash (so_data o2) = CodeHash (so_data o1) \<Longrightarrow>
   code_view E o2 = code_view E o1"
  by (simp add: code_view_def cong: option.case_cong)

lemmas view_congs = trie_view_cong committed_view_cong storage_view_cong code_view_cong

section \<open>Reads do not change what an object shows\<close>

lemma map_get_empty [simp]: "map_get Map.empty k = 0"
  by (simp add: map_get_def)

lemma map_get_upd [simp]: "map_get (m(k \<mapsto> v)) k' = (if k' = k then v else map_get m k')"
  by (simp add: map_get_def)

lemma getTrie_fst [simp]: "fst (getTrie E o1) = trie_view E o1"
  by (simp add: getTrie_def trie_view_def Let_def split: option.splits)

lemma getTrie_view [simp]: "trie_view E (snd (getTrie E o1)) = trie_view E o1"
  by (simp add: getTrie_def trie_view_def Let_def split: option.splits)

lemma getTrie_frame [simp]:
  "so_address (snd (getTrie E o1)) = so_address o1" "so_data (snd (getTrie E o1)) = so_data o1"
  "originStorage (snd (getTrie E o1)) = originStorage o1"
  "pendingStorage (snd (getTrie E o1)) = pendingStorage o1"
  "dirtyStorage (snd (getTrie E o1)) = dirtyStorage o1"
  "fakeStorage (snd (getTrie E o1)) = fakeStorage o1" "so_code (snd (getTrie E o1)) = so_code o1"
  "suicided (snd (getTrie E o1)) = suicided o1" "deleted (snd (getTrie E o1)) = deleted o1"
  "dirtyCode (snd (getTrie E o1)) = dirtyCode o1"
  by (simp_all add: getTrie_def Let_def split: option.splits)

lemma GetCommittedState_val [obs_simps]: "fst (so_GetCommittedState E k o1) = committed_view E o1 k"
  by (simp add: so_GetCommittedState_def committed_view_def case_prod_beta Let_def split: option.splits)

lemma GetCommittedState_frame [simp]:
  "so_address (snd (so_GetCommittedState E k o1)) = so_address o1"
  "so_data (snd (so_GetCommittedState E k o1)) = so_data o1"
  "pendingStorage (snd (so_GetCommittedState E k o1)) = pendingStorage o1"
  "dirtyStorage (snd (so_GetCommittedState E k o1)) = dirtyStorage o1"
  "fakeStorage (snd (so_GetCommittedState E k o1)) = fakeStorage o1"
  "so_code (snd (so_GetCommittedState E k o1)) = so_code o1"
  "suicided (snd (so_GetCommittedState E k o1)) = suicided o1"
  "deleted (snd (so_GetCommittedState E k o1)) = deleted o1"
  by (simp_all add: so_GetCommittedState_def case_prod_beta Let_def split: option.splits)

lemma GetCommittedState_trie [simp]:
  "trie_view E (snd (so_GetCommittedState E k o1)) = trie_view E o1"
proof -
  have "trie_view E (o2\<lparr>originStorage := m\<rparr>) = trie_view E o2" for o2 m
    by (rule trie_view_cong) simp_all
  then show ?thesis
    by (simp add: so_GetCommittedState_def case_prod_beta Let_def split: option.splits)
qed

lemma GetCommittedState_origin:
  "originStorage (snd (so_GetCommittedState E k o1)) =
     (if fakeStorage o1 = None \<and> pendingStorage o1 k = None \<and> originStorage o1 k = None
      then (originStorage o1)(k \<mapsto> map_get (trie_view E o1) k) else originStorage o1)"
  by (simp add: so_GetCommittedState_def case_prod_beta Let_def split: option.splits)

lemma GetCommittedState_committed [simp]:
  "committed_view E (snd (so_GetCommittedState E k o1)) = committed_view E o1"
  by (rule ext) (auto simp: committed_view_def GetCommittedState_origin split: option.splits)


lemma obj_view_GetCommittedState [obs_simps]:
  "obj_view E (snd (so_GetCommittedState E k o1)) = obj_view E o1"
proof -
  have "storage_view E (snd (so_GetCommittedState E k o1)) = storage_view E o1"
    by (rule storage_view_cong) simp_all
  moreover have "code_view E (snd (so_GetCommittedState E k o1)) = code_view E o1"
    by (rule code_view_cong) simp_all
  ultimately show ?thesis by (simp add: obj_view_def)
qed

lemma GetState_val [obs_simps]: "fst (so_GetState E k o1) = storage_view E o1 k"
  by (simp add: so_GetState_def storage_view_def obs_simps split: option.splits)

lemma obj_view_GetState [obs_simps]: "obj_view E (snd (so_GetState E k o1)) = obj_view E o1"
  by (simp add: so_GetState_def obs_simps split: option.splits)

lemma GetState_frame [simp]:
  "so_address (snd (so_GetState E k o1)) = so_address o1"
  "so_data (snd (so_GetState E k o1)) = so_data o1"
  "fakeStorage (snd (so_GetState E k o1)) = fakeStorage o1"
  "deleted (snd (so_GetState E k o1)) = deleted o1"
  by (simp_all add: so_GetState_def split: option.splits)

lemma Code_val [obs_simps]:
  "(case fst (Code E o1) of None \<Rightarrow> [] | Some c \<Rightarrow> c) = code_view E o1"
  by (simp add: Code_def code_view_def Let_def split: option.splits)

lemma Code_frame [simp]:
  "so_address (snd (Code E o1)) = so_address o1" "so_data (snd (Code E o1)) = so_data o1"
  "fakeStorage (snd (Code E o1)) = fakeStorage o1" "deleted (snd (Code E o1)) = deleted o1"
  by (simp_all add: Code_def Let_def split: option.splits)

lemma obj_view_Code [obs_simps]: "obj_view E (snd (Code E o1)) = obj_view E o1"
proof -
  let ?o = "snd (Code E o1)"
  have *: "code_view E ?o = code_view E o1"
    by (auto simp: Code_def code_view_def Let_def split: option.splits)
  have frame: "so_trie ?o = so_trie o1" "originStorage ?o = originStorage o1"
      "pendingStorage ?o = pendingStorage o1" "dirtyStorage ?o = dirtyStorage o1"
      "suicided ?o = suicided o1"
    by (simp_all add: Code_def Let_def split: option.splits)
  then have "committed_view E ?o = committed_view E o1"
    by (intro committed_view_cong trie_view_cong) simp_all
  with frame have "storage_view E ?o = storage_view E o1"
    by (intro storage_view_cong) simp_all
  with * frame \<open>committed_view E ?o = committed_view E o1\<close> show ?thesis
    by (simp add: obj_view_def)
qed

section \<open>What the mutators change\<close>

lemma trie_view_mutators [simp]:
  "trie_view E (setBalance b o1) = trie_view E o1"
  "trie_view E (setNonce n o1) = trie_view E o1"
  "trie_view E (setCode h c o1) = trie_view E o1"
  "trie_view E (setState k v o1) = trie_view E o1"
  "trie_view E (o1\<lparr>suicided := f\<rparr>) = trie_view E o1"
  "trie_view E (o1\<lparr>deleted := f\<rparr>) = trie_view E o1"
  "trie_view E (o1\<lparr>dirtyCode := f\<rparr>) = trie_view E o1"
  by (rule trie_view_cong; simp add: setBalance_def setNonce_def setCode_def setState_def)+

lemma committed_view_mutators [simp]:
  "committed_view E (setBalance b o1) = committed_view E o1"
  "committed_view E (setNonce n o1) = committed_view E o1"
  "committed_view E (setCode h c o1) = committed_view E o1"
  "committed_view E (setState k v o1) = committed_view E o1"
  "committed_view E (o1\<lparr>suicided := f\<rparr>) = committed_view E o1"
  "committed_view E (o1\<lparr>deleted := f\<rparr>) = committed_view E o1"
  "committed_view E (o1\<lparr>dirtyCode := f\<rparr>) = committed_view E o1"
  by (rule committed_view_cong; (simp add: trie_view_mutators)?; simp add: setBalance_def setNonce_def setCode_def setState_def)+

lemma storage_view_mutators [simp]:
  "storage_view E (setBalance b o1) = storage_view E o1"
  "storage_view E (setNonce n o1) = storage_view E o1"
  "storage_view E (setCode h c o1) = storage_view E o1"
  "storage_view E (o1\<lparr>suicided := f\<rparr>) = storage_view E o1"
  "storage_view E (o1\<lparr>deleted := f\<rparr>) = storage_view E o1"
  "storage_view E (o1\<lparr>dirtyCode := f\<rparr>) = storage_view E o1"
  by (rule storage_view_cong; (simp add: committed_view_mutators)?; simp add: setBalance_def setNonce_def setCode_def setState_def)+

lemma code_view_mutators [simp]:
  "code_view E (setBalance b o1) = code_view E o1"
  "code_view E (setNonce n o1) = code_view E o1"
  "code_view E (setState k v o1) = code_view E o1"
  "code_view E (o1\<lparr>suicided := f\<rparr>) = code_view E o1"
  "code_view E (o1\<lparr>deleted := f\<rparr>) = code_view E o1"
  "code_view E (o1\<lparr>dirtyCode := f\<rparr>) = code_view E o1"
  by (rule code_view_cong; simp add: setBalance_def setNonce_def setCode_def setState_def)+

lemma data_mutators [simp]:
  "so_data (setBalance b o1) = (so_data o1)\<lparr>Balance := b\<rparr>"
  "so_data (setNonce n o1) = (so_data o1)\<lparr>Nonce := n\<rparr>"
  "so_data (setCode h c o1) = (so_data o1)\<lparr>CodeHash := h\<rparr>"
  "so_data (setState k v o1) = so_data o1"
  "suicided (setBalance b o1) = suicided o1" "suicided (setNonce n o1) = suicided o1"
  "suicided (setCode h c o1) = suicided o1" "suicided (setState k v o1) = suicided o1"
  "deleted (setBalance b o1) = deleted o1" "deleted (setNonce n o1) = deleted o1"
  "deleted (setCode h c o1) = deleted o1" "deleted (setState k v o1) = deleted o1"
  by (simp_all add: setBalance_def setNonce_def setCode_def setState_def)

lemma obj_view_setBalance [obs_simps]:
  "obj_view E (setBalance b o1) = (obj_view E o1)\<lparr>v_balance := b\<rparr>"
  by (simp add: obj_view_def)

lemma obj_view_setNonce [obs_simps]:
  "obj_view E (setNonce n o1) = (obj_view E o1)\<lparr>v_nonce := n\<rparr>"
  by (simp add: obj_view_def)

lemma storage_view_setState:
  "fakeStorage o1 = None \<Longrightarrow> storage_view E (setState k v o1) = (storage_view E o1)(k := v)"
  by (rule ext) (simp add: storage_view_def cong: option.case_cong, simp add: setState_def)

lemma obj_view_setState [obs_simps]:
  "fakeStorage o1 = None \<Longrightarrow>
     obj_view E (setState k v o1) = (obj_view E o1)\<lparr>v_storage := (v_storage (obj_view E o1))(k := v)\<rparr>"
  by (simp add: obj_view_def storage_view_setState)

definition code_of :: "env \<Rightarrow> hash \<Rightarrow> bytes option \<Rightarrow> bytes" where
  "code_of E h c =
     (case c of
        Some c' \<Rightarrow> c'
      | None \<Rightarrow> if h = emptyCodeHash E then []
                else (case ContractCode E h of Some c' \<Rightarrow> c' | None \<Rightarrow> []))"

lemma code_view_eq: "code_view E o1 = code_of E (CodeHash (so_data o1)) (so_code o1)"
  by (simp add: code_view_def code_of_def)

lemma obj_view_setCode [obs_simps]:
  "obj_view E (setCode h c o1) = (obj_view E o1)\<lparr>v_codehash := h, v_code := code_of E h c\<rparr>"
  by (simp add: obj_view_def code_view_eq) (simp add: setCode_def)

lemma code_of_Code: "code_of E (CodeHash (so_data o1)) (fst (Code E o1)) = code_view E o1"
  by (simp add: Code_def code_of_def code_view_def Let_def split: option.splits)

lemma obj_view_suicided [obs_simps]:
  "obj_view E (o1\<lparr>suicided := b\<rparr>) = (obj_view E o1)\<lparr>v_suicided := b\<rparr>"
  by (simp add: obj_view_def)

lemma mutators_frame [simp]:
  "so_address (setBalance b o1) = so_address o1" "fakeStorage (setBalance b o1) = fakeStorage o1"
  "deleted (setBalance b o1) = deleted o1"
  "so_address (setNonce n o1) = so_address o1" "fakeStorage (setNonce n o1) = fakeStorage o1"
  "deleted (setNonce n o1) = deleted o1"
  "so_address (setState k v o1) = so_address o1" "fakeStorage (setState k v o1) = fakeStorage o1"
  "deleted (setState k v o1) = deleted o1"
  "so_address (setCode h c o1) = so_address o1" "fakeStorage (setCode h c o1) = fakeStorage o1"
  "deleted (setCode h c o1) = deleted o1"
  by (simp_all add: setBalance_def setNonce_def setState_def setCode_def)

lemma loadObject_frame [simp]:
  "so_address (loadObject E a d) = a" "fakeStorage (loadObject E a d) = None"
  "deleted (loadObject E a d) = False"
  "so_address (newObject E a n b r c) = a" "fakeStorage (newObject E a n b r c) = None"
  "deleted (newObject E a n b r c) = False"
  by (simp_all add: loadObject_def newObject_def)

section \<open>The storage layers stay consistent\<close>

lemma GetState_origin:
  "originStorage (snd (so_GetState E k o1)) =
     (if fakeStorage o1 = None \<and> dirtyStorage o1 k = None \<and> pendingStorage o1 k = None \<and>
         originStorage o1 k = None
      then (originStorage o1)(k \<mapsto> map_get (trie_view E o1) k) else originStorage o1)"
  by (simp add: so_GetState_def GetCommittedState_origin split: option.splits)

lemma GetState_layers [simp]:
  "dirtyStorage (snd (so_GetState E k o1)) = dirtyStorage o1"
  "pendingStorage (snd (so_GetState E k o1)) = pendingStorage o1"
  "trie_view E (snd (so_GetState E k o1)) = trie_view E o1"
  by (simp_all add: so_GetState_def split: option.splits)

lemma storage_inv_GetState:
  "storage_inv E o1 \<Longrightarrow> storage_inv E (snd (so_GetState E k o1))"
  by (auto simp: storage_inv_def GetState_origin)

lemma storage_inv_write:
  assumes "storage_inv E o1"
  shows "storage_inv E (setState k v (snd (so_GetState E k o1)))"
proof -
  have layers: "originStorage (setState k v o2) = originStorage o2"
      "pendingStorage (setState k v o2) = pendingStorage o2"
      "dirtyStorage (setState k v o2) = (dirtyStorage o2)(k \<mapsto> v)" for o2
    by (simp_all add: setState_def)
  show ?thesis
    using assms by (auto simp: storage_inv_def layers GetState_origin dom_def)
qed

lemma storage_inv_loadObject: "storage_inv E (loadObject E a d)"
  by (simp add: storage_inv_def loadObject_def newObject_def)

lemma storage_inv_finalise: "storage_inv E o1 \<Longrightarrow> storage_inv E (so_finalise o1)"
proof -
  have "trie_view E (so_finalise o1) = trie_view E o1"
    by (rule trie_view_cong) (simp_all add: so_finalise_def)
  then show "storage_inv E o1 \<Longrightarrow> ?thesis"
    by (auto simp: storage_inv_def) (auto simp: so_finalise_def)
qed

lemma finalise_views [simp]:
  assumes "fakeStorage o1 = None"
  shows "committed_view E (so_finalise o1) = storage_view E o1"
    and "storage_view E (so_finalise o1) = storage_view E o1"
proof -
  have tv: "trie_view E (so_finalise o1) = trie_view E o1"
    by (rule trie_view_cong) (simp_all add: so_finalise_def)
  have "committed_view E (so_finalise o1) k = storage_view E o1 k" for k
    using assms
    by (simp add: committed_view_def storage_view_def tv map_add_def cong: option.case_cong)
      (simp add: so_finalise_def map_add_def split: option.splits)
  then show 1: "committed_view E (so_finalise o1) = storage_view E o1" by (rule ext)
  have "storage_view E (so_finalise o1) = committed_view E (so_finalise o1)"
    using assms by (simp add: storage_view_def fun_eq_iff so_finalise_def)
  with 1 show "storage_view E (so_finalise o1) = storage_view E o1" by simp
qed

lemma flushed_trie:
  assumes "storage_inv E o1" and "dirtyStorage o1 = Map.empty"
  shows "map_get (\<lambda>k. case flushed o1 k of None \<Rightarrow> trie_view E o1 k
           | Some v \<Rightarrow> if v = 0 then None else Some v) k = committed_view E o1 k"
proof (cases "pendingStorage o1 k")
  case None
  then have "committed_view E o1 k = map_get (trie_view E o1) k"
    using assms(1) by (auto simp: storage_inv_def committed_view_def split: option.splits)
  with None show ?thesis by (simp add: flushed_def map_get_def)
next
  case (Some v)
  with assms(1) obtain w where w: "originStorage o1 k = Some w" "map_get (trie_view E o1) k = w"
    by (auto simp: storage_inv_def)
  with Some assms(1) show ?thesis
    by (auto simp: flushed_def committed_view_def storage_inv_def map_get_def split: option.splits)
qed

lemma updateTrie_storage:
  assumes "storage_inv E o1" and "updateTrie E o1 = (t, o2)"
  shows "(\<forall>k. map_get t k = storage_view E o1 k)
    \<and> so_trie o2 = Some t
    \<and> storage_view E o2 = storage_view E o1
    \<and> committed_view E o2 = storage_view E o1
    \<and> storage_inv E o2"
proof -
  let ?f = "so_finalise o1" and ?g = "snd (getTrie E (so_finalise o1))"
  have fake: "fakeStorage o1 = None" using assms(1) by (simp add: storage_inv_def)
  have inv: "storage_inv E ?g"
    using storage_inv_finalise [OF assms(1)] by (simp add: storage_inv_def)
  have dirty: "dirtyStorage ?g = Map.empty" by (simp add: so_finalise_def)
  have comm: "committed_view E ?g = storage_view E o1"
    using committed_view_cong [of ?g ?f E] fake by simp
  have t: "t = (\<lambda>k. case flushed ?g k of None \<Rightarrow> trie_view E ?g k
             | Some v \<Rightarrow> if v = 0 then None else Some v)"
    and o2: "o2 = ?g\<lparr>so_trie := Some t, originStorage := originStorage ?g ++ flushed ?g,
                      pendingStorage := Map.empty\<rparr>"
    using assms(2) unfolding updateTrie_def case_prod_beta Let_def getTrie_fst getTrie_view by auto
  have get: "map_get t k = storage_view E o1 k" for k
    unfolding t using flushed_trie [OF inv dirty] comm by simp
  have tv: "trie_view E o2 = t" by (simp add: trie_view_def o2)
  have origin: "map_get t k = v" if "originStorage o2 k = Some v" for k v
  proof (cases "flushed ?g k")
    case None
    then have "originStorage ?g k = Some v" and "t k = trie_view E ?g k"
      using that by (auto simp: o2 t map_add_def)
    then show ?thesis using inv by (simp add: storage_inv_def map_get_def)
  next
    case (Some w)
    then have "v = w" using that by (auto simp: o2)
    with Some show ?thesis by (simp add: t map_get_def)
  qed
  have "committed_view E o2 k = map_get t k" for k
    using origin [of k] fake
    by (simp add: committed_view_def tv cong: option.case_cong) (auto simp: o2 so_finalise_def split: option.splits)
  then have c2: "committed_view E o2 = storage_view E o1" using get by auto
  moreover have "storage_view E o2 = committed_view E o2"
  proof -
    have "fakeStorage o2 = None" "dirtyStorage o2 = Map.empty"
      using fake dirty by (simp_all add: o2 so_finalise_def)
    then show ?thesis by (simp add: storage_view_def fun_eq_iff)
  qed
  moreover have "storage_inv E o2"
    using origin fake dirty by (simp add: storage_inv_def tv) (simp add: o2 so_finalise_def)
  ultimately show ?thesis using get by (simp add: o2)
qed

lemma updateTrie_get:
  "storage_inv E o1 \<Longrightarrow> updateTrie E o1 = (t, o2) \<Longrightarrow> map_get t k = storage_view E o1 k"
  using updateTrie_storage by blast

text \<open>A concrete environment: empty tries, no stored code.\<close>

definition env0 :: env where
  "env0 = \<lparr>e_keccak = (\<lambda>b. of_nat (length b) + 1), OpenStorageTrie = (\<lambda>r. Some Map.empty),
           ContractCode = (\<lambda>h. None), TrieHash = (\<lambda>t. 1), AccountTrieHash = (\<lambda>t. 2)\<rparr>"

text \<open>
  C4. Flushing an object's storage (\<^verbatim>\<open>updateTrie\<close>): afterwards the storage trie holds, for every
  slot, exactly the value the object showed before, zero slots being absent; the object
  still shows the same storage, all of it is committed, and the layers are still consistent.
\<close>

theorem updateTrie_writes_current_storage:
  assumes "storage_inv E o1" and "updateTrie E o1 = (t, o2)"
  shows "(\<forall>k. map_get t k = storage_view E o1 k)
    \<and> so_trie o2 = Some t
    \<and> storage_view E o2 = storage_view E o1
    \<and> committed_view E o2 = storage_view E o1
    \<and> storage_inv E o2"
  using assms by (rule updateTrie_storage)

theorem updateTrie_writes_current_storage_witness:
  "map_get (fst (updateTrie env0 (setState 1 42 (snd (so_GetState env0 1 (newObject env0 7 0 None 0 None)))))) 1 = 42"
proof -
  let ?n = "newObject env0 7 0 None 0 None"
  let ?o = "snd (so_GetState env0 1 ?n)"
  have n: "storage_inv env0 ?n" by (simp add: storage_inv_def newObject_def)
  have inv: "storage_inv env0 (setState 1 42 ?o)" by (rule storage_inv_write [OF n])
  have "storage_view env0 (setState 1 42 ?o) 1 = 42"
    by (simp add: storage_view_setState)
  with updateTrie_writes_current_storage [OF inv prod.collapse [symmetric]] show ?thesis by simp
qed

end
