(* ===== verification/StateDB.thy ===== *)
theory StateDB
  imports State_Object
begin

text \<open>
  The world state of \<^verbatim>\<open>src/core/state/statedb.go\<close> with its journal
  (\<^verbatim>\<open>src/core/state/journal.go\<close>): the live objects over the account trie, the refund counter,
  logs and preimages, and the journal of undo entries behind \<^verbatim>\<open>Snapshot\<close> and
  \<^verbatim>\<open>RevertToSnapshot\<close>. The account trie is given by its contents. A method that can panic
  returns an option, \<open>None\<close> being the panic; methods that only fill a cache while they
  read return the state with the filled cache.
\<close>

section \<open>Data\<close>

record Log =
  log_Address :: address
  log_Topics :: "hash list"
  log_Data :: bytes
  log_BlockNumber :: u64
  log_TxHash :: hash
  log_TxIndex :: u64
  log_BlockHash :: hash
  log_Index :: u64

datatype journalEntry =
    createObjectChange address
  | resetObjectChange stateObject
  | suicideChange address bool int
  | balanceChange address int
  | nonceChange address u64
  | storageChange address hash hash
  | codeChange address "bytes option" hash
  | refundChange u64
  | addLogChange hash
  | addPreimageChange hash
  | touchChange address

record StateDB =
  db_trie :: "address \<rightharpoonup> Account"
  stateObjects :: "address \<rightharpoonup> stateObject"
  stateObjectsPending :: "address set"
  stateObjectsDirty :: "address set"
  refund :: u64
  thash :: hash
  bhash :: hash
  txIndex :: u64
  logs :: "hash \<rightharpoonup> Log list"
  logSize :: u64
  preimages :: "hash \<rightharpoonup> bytes"
  entries :: "journalEntry list"
  dirties :: "address \<rightharpoonup> int"
  validRevisions :: "(nat \<times> nat) list"
  nextRevisionId :: nat

definition state_New :: "(address \<rightharpoonup> Account) \<Rightarrow> StateDB" where
  "state_New tr =
     \<lparr>db_trie = tr, stateObjects = Map.empty, stateObjectsPending = {}, stateObjectsDirty = {},
      refund = 0, thash = 0, bhash = 0, txIndex = 0, logs = Map.empty, logSize = 0,
      preimages = Map.empty, entries = [], dirties = Map.empty, validRevisions = [],
      nextRevisionId = 0\<rparr>"

section \<open>The journal\<close>

fun dirtied :: "journalEntry \<Rightarrow> address option" where
  "dirtied (createObjectChange a) = Some a"
| "dirtied (resetObjectChange prev) = None"
| "dirtied (suicideChange a prev prevbalance) = Some a"
| "dirtied (balanceChange a prev) = Some a"
| "dirtied (nonceChange a prev) = Some a"
| "dirtied (storageChange a key prevalue) = Some a"
| "dirtied (codeChange a prevcode prevhash) = Some a"
| "dirtied (refundChange prev) = None"
| "dirtied (addLogChange txhash) = None"
| "dirtied (addPreimageChange h) = None"
| "dirtied (touchChange a) = Some a"

definition dirty_count :: "(address \<rightharpoonup> int) \<Rightarrow> address \<Rightarrow> int" where
  "dirty_count d a = (case d a of None \<Rightarrow> 0 | Some n \<Rightarrow> n)"

definition journal_dirty :: "address \<Rightarrow> StateDB \<Rightarrow> StateDB" where
  "journal_dirty a s = s\<lparr>dirties := (dirties s)(a \<mapsto> dirty_count (dirties s) a + 1)\<rparr>"

definition journal_append :: "journalEntry \<Rightarrow> StateDB \<Rightarrow> StateDB" where
  "journal_append e s =
     (let s' = s\<lparr>entries := entries s @ [e]\<rparr>
      in case dirtied e of None \<Rightarrow> s' | Some a \<Rightarrow> journal_dirty a s')"

definition drop_dirty :: "journalEntry \<Rightarrow> StateDB \<Rightarrow> StateDB" where
  "drop_dirty e s =
     (case dirtied e of
        None \<Rightarrow> s
      | Some a \<Rightarrow>
          let n = dirty_count (dirties s) a - 1
          in s\<lparr>dirties := (dirties s)(a := (if n = 0 then None else Some n))\<rparr>)"

section \<open>Looking objects up and creating them\<close>

definition setStateObject :: "stateObject \<Rightarrow> StateDB \<Rightarrow> StateDB" where
  "setStateObject obj s = s\<lparr>stateObjects := (stateObjects s)(so_address obj \<mapsto> obj)\<rparr>"

definition getDeletedStateObject :: "env \<Rightarrow> address \<Rightarrow> StateDB \<Rightarrow> stateObject option \<times> StateDB" where
  "getDeletedStateObject E addr s =
     (case stateObjects s addr of
        Some obj \<Rightarrow> (Some obj, s)
      | None \<Rightarrow>
        (case db_trie s addr of
           None \<Rightarrow> (None, s)
         | Some d \<Rightarrow> let obj = loadObject E addr d in (Some obj, setStateObject obj s)))"

definition getStateObject :: "env \<Rightarrow> address \<Rightarrow> StateDB \<Rightarrow> stateObject option \<times> StateDB" where
  "getStateObject E addr s =
     (case getDeletedStateObject E addr s of
        (Some obj, s') \<Rightarrow> (if deleted obj then None else Some obj, s')
      | (None, s') \<Rightarrow> (None, s'))"

definition createObject :: "env \<Rightarrow> address \<Rightarrow> StateDB \<Rightarrow> stateObject \<times> stateObject option \<times> StateDB" where
  "createObject E addr s =
     (let (prev, s1) = getDeletedStateObject E addr s;
          newobj = setNonce 0 (newObject E addr 0 None 0 None);
          s2 = journal_append (case prev of None \<Rightarrow> createObjectChange addr
                                          | Some p \<Rightarrow> resetObjectChange p) s1
      in (newobj, prev, setStateObject newobj s2))"

definition GetOrNewStateObject :: "env \<Rightarrow> address \<Rightarrow> StateDB \<Rightarrow> stateObject \<times> StateDB" where
  "GetOrNewStateObject E addr s =
     (case getStateObject E addr s of
        (Some obj, s') \<Rightarrow> (obj, s')
      | (None, s') \<Rightarrow> let (newobj, prev, s'') = createObject E addr s' in (newobj, s''))"

definition CreateAccount :: "env \<Rightarrow> address \<Rightarrow> StateDB \<Rightarrow> StateDB" where
  "CreateAccount E addr s =
     (let (newobj, prev, s') = createObject E addr s
      in case prev of
           None \<Rightarrow> s'
         | Some p \<Rightarrow> setStateObject (setBalance (Balance (so_data p)) newobj) s')"

section \<open>Reading\<close>

definition Exist :: "env \<Rightarrow> address \<Rightarrow> StateDB \<Rightarrow> bool \<times> StateDB" where
  "Exist E addr s = (let (o1, s') = getStateObject E addr s in (o1 \<noteq> None, s'))"

definition Empty :: "env \<Rightarrow> address \<Rightarrow> StateDB \<Rightarrow> bool \<times> StateDB" where
  "Empty E addr s =
     (let (o1, s') = getStateObject E addr s
      in (case o1 of None \<Rightarrow> True | Some obj \<Rightarrow> so_empty E obj, s'))"

definition GetBalance :: "env \<Rightarrow> address \<Rightarrow> StateDB \<Rightarrow> int \<times> StateDB" where
  "GetBalance E addr s =
     (let (o1, s') = getStateObject E addr s
      in (case o1 of None \<Rightarrow> 0 | Some obj \<Rightarrow> Balance (so_data obj), s'))"

definition GetNonce :: "env \<Rightarrow> address \<Rightarrow> StateDB \<Rightarrow> u64 \<times> StateDB" where
  "GetNonce E addr s =
     (let (o1, s') = getStateObject E addr s
      in (case o1 of None \<Rightarrow> 0 | Some obj \<Rightarrow> Nonce (so_data obj), s'))"

definition GetCodeHash :: "env \<Rightarrow> address \<Rightarrow> StateDB \<Rightarrow> hash \<times> StateDB" where
  "GetCodeHash E addr s =
     (let (o1, s') = getStateObject E addr s
      in (case o1 of None \<Rightarrow> 0 | Some obj \<Rightarrow> CodeHash (so_data obj), s'))"

definition HasSuicided :: "env \<Rightarrow> address \<Rightarrow> StateDB \<Rightarrow> bool \<times> StateDB" where
  "HasSuicided E addr s =
     (let (o1, s') = getStateObject E addr s
      in (case o1 of None \<Rightarrow> False | Some obj \<Rightarrow> suicided obj, s'))"

definition GetCode :: "env \<Rightarrow> address \<Rightarrow> StateDB \<Rightarrow> bytes \<times> StateDB" where
  "GetCode E addr s =
     (case getStateObject E addr s of
        (None, s') \<Rightarrow> ([], s')
      | (Some obj, s') \<Rightarrow>
          let (c, obj') = Code E obj
          in (case c of None \<Rightarrow> [] | Some b \<Rightarrow> b, setStateObject obj' s'))"

definition GetState :: "env \<Rightarrow> address \<Rightarrow> hash \<Rightarrow> StateDB \<Rightarrow> hash \<times> StateDB" where
  "GetState E addr key s =
     (case getStateObject E addr s of
        (None, s') \<Rightarrow> (0, s')
      | (Some obj, s') \<Rightarrow> let (v, obj') = so_GetState E key obj in (v, setStateObject obj' s'))"

definition GetCommittedState :: "env \<Rightarrow> address \<Rightarrow> hash \<Rightarrow> StateDB \<Rightarrow> hash \<times> StateDB" where
  "GetCommittedState E addr key s =
     (case getStateObject E addr s of
        (None, s') \<Rightarrow> (0, s')
      | (Some obj, s') \<Rightarrow> let (v, obj') = so_GetCommittedState E key obj in (v, setStateObject obj' s'))"

definition GetLogs :: "hash \<Rightarrow> StateDB \<Rightarrow> Log list" where
  "GetLogs h s = (case logs s h of None \<Rightarrow> [] | Some l \<Rightarrow> l)"

section \<open>Writing\<close>

definition ripemd :: address where
  "ripemd = 3"

definition touch :: "stateObject \<Rightarrow> StateDB \<Rightarrow> StateDB" where
  "touch obj s =
     (let s' = journal_append (touchChange (so_address obj)) s
      in if so_address obj = ripemd then journal_dirty (so_address obj) s' else s')"

definition so_SetBalance :: "int \<Rightarrow> stateObject \<Rightarrow> StateDB \<Rightarrow> StateDB" where
  "so_SetBalance amount obj s =
     setStateObject (setBalance amount obj)
       (journal_append (balanceChange (so_address obj) (Balance (so_data obj))) s)"

definition SetBalance :: "env \<Rightarrow> address \<Rightarrow> int \<Rightarrow> StateDB \<Rightarrow> StateDB" where
  "SetBalance E addr amount s =
     (let (obj, s') = GetOrNewStateObject E addr s in so_SetBalance amount obj s')"

definition AddBalance :: "env \<Rightarrow> address \<Rightarrow> int \<Rightarrow> StateDB \<Rightarrow> StateDB" where
  "AddBalance E addr amount s =
     (let (obj, s') = GetOrNewStateObject E addr s
      in if amount = 0 then (if so_empty E obj then touch obj s' else s')
         else so_SetBalance (Balance (so_data obj) + amount) obj s')"

definition SubBalance :: "env \<Rightarrow> address \<Rightarrow> int \<Rightarrow> StateDB \<Rightarrow> StateDB" where
  "SubBalance E addr amount s =
     (let (obj, s') = GetOrNewStateObject E addr s
      in if amount = 0 then s' else so_SetBalance (Balance (so_data obj) - amount) obj s')"

definition SetNonce :: "env \<Rightarrow> address \<Rightarrow> u64 \<Rightarrow> StateDB \<Rightarrow> StateDB" where
  "SetNonce E addr nonce s =
     (let (obj, s') = GetOrNewStateObject E addr s
      in setStateObject (setNonce nonce obj)
           (journal_append (nonceChange (so_address obj) (Nonce (so_data obj))) s'))"

definition SetCode :: "env \<Rightarrow> address \<Rightarrow> bytes \<Rightarrow> StateDB \<Rightarrow> StateDB" where
  "SetCode E addr c s =
     (let (obj, s') = GetOrNewStateObject E addr s;
          (prevcode, obj') = Code E obj
      in setStateObject (setCode (e_keccak E c) (Some c) obj')
           (journal_append (codeChange (so_address obj') prevcode (CodeHash (so_data obj'))) s'))"

definition SetState :: "env \<Rightarrow> address \<Rightarrow> hash \<Rightarrow> hash \<Rightarrow> StateDB \<Rightarrow> StateDB" where
  "SetState E addr key v s =
     (let (obj, s') = GetOrNewStateObject E addr s
      in case fakeStorage obj of
           Some f \<Rightarrow> setStateObject (obj\<lparr>fakeStorage := Some (f(key \<mapsto> v))\<rparr>) s'
         | None \<Rightarrow>
             let (prev, obj') = so_GetState E key obj
             in if prev = v then setStateObject obj' s'
                else setStateObject (setState key v obj')
                       (journal_append (storageChange (so_address obj') key prev) s'))"

definition SetStorage :: "env \<Rightarrow> address \<Rightarrow> (hash \<rightharpoonup> hash) \<Rightarrow> StateDB \<Rightarrow> StateDB" where
  "SetStorage E addr storage s =
     (let (obj, s') = GetOrNewStateObject E addr s in setStateObject (so_SetStorage storage obj) s')"

definition Suicide :: "env \<Rightarrow> address \<Rightarrow> StateDB \<Rightarrow> bool \<times> StateDB" where
  "Suicide E addr s =
     (case getStateObject E addr s of
        (None, s') \<Rightarrow> (False, s')
      | (Some obj, s') \<Rightarrow>
          (True, setStateObject (setBalance 0 (markSuicided obj))
                   (journal_append (suicideChange addr (suicided obj) (Balance (so_data obj))) s')))"

definition AddLog :: "Log \<Rightarrow> StateDB \<Rightarrow> StateDB" where
  "AddLog l s =
     (let s1 = journal_append (addLogChange (thash s)) s;
          l' = l\<lparr>log_TxHash := thash s, log_BlockHash := bhash s, log_TxIndex := txIndex s,
                 log_Index := logSize s\<rparr>
      in s1\<lparr>logs := (logs s1)(thash s \<mapsto> GetLogs (thash s) s1 @ [l']), logSize := logSize s1 + 1\<rparr>)"

definition AddPreimage :: "hash \<Rightarrow> bytes \<Rightarrow> StateDB \<Rightarrow> StateDB" where
  "AddPreimage h preimage s =
     (case preimages s h of
        Some p \<Rightarrow> s
      | None \<Rightarrow> (journal_append (addPreimageChange h) s)\<lparr>preimages := (preimages s)(h \<mapsto> preimage)\<rparr>)"

definition AddRefund :: "u64 \<Rightarrow> StateDB \<Rightarrow> StateDB" where
  "AddRefund gas s = (journal_append (refundChange (refund s)) s)\<lparr>refund := refund s + gas\<rparr>"

definition SubRefund :: "u64 \<Rightarrow> StateDB \<Rightarrow> StateDB option" where
  "SubRefund gas s =
     (let s' = journal_append (refundChange (refund s)) s
      in if gas > refund s' then None else Some (s'\<lparr>refund := refund s' - gas\<rparr>))"

definition Prepare :: "hash \<Rightarrow> hash \<Rightarrow> u64 \<Rightarrow> StateDB \<Rightarrow> StateDB" where
  "Prepare th bh ti s = s\<lparr>thash := th, bhash := bh, txIndex := ti\<rparr>"

section \<open>Snapshots\<close>

text \<open>
  Undoing one entry. Setting a field of an object that is not there (or is deleted) is a
  nil dereference, and shortening an empty slice of logs is out of range: both panic.
\<close>

definition revert_object :: "env \<Rightarrow> address \<Rightarrow> (stateObject \<Rightarrow> stateObject) \<Rightarrow> StateDB \<Rightarrow> StateDB option" where
  "revert_object E a f s =
     (case getStateObject E a s of
        (None, s') \<Rightarrow> None
      | (Some obj, s') \<Rightarrow> Some (setStateObject (f obj) s'))"

fun revert_entry :: "env \<Rightarrow> journalEntry \<Rightarrow> StateDB \<Rightarrow> StateDB option" where
  "revert_entry E (createObjectChange a) s =
     Some (s\<lparr>stateObjects := (stateObjects s)(a := None), stateObjectsDirty := stateObjectsDirty s - {a}\<rparr>)"
| "revert_entry E (resetObjectChange prev) s = Some (setStateObject prev s)"
| "revert_entry E (suicideChange a prev prevbalance) s =
     (case getStateObject E a s of
        (None, s') \<Rightarrow> Some s'
      | (Some obj, s') \<Rightarrow> Some (setStateObject (setBalance prevbalance (obj\<lparr>suicided := prev\<rparr>)) s'))"
| "revert_entry E (balanceChange a prev) s = revert_object E a (setBalance prev) s"
| "revert_entry E (nonceChange a prev) s = revert_object E a (setNonce prev) s"
| "revert_entry E (storageChange a key prevalue) s = revert_object E a (setState key prevalue) s"
| "revert_entry E (codeChange a prevcode prevhash) s = revert_object E a (setCode prevhash prevcode) s"
| "revert_entry E (refundChange prev) s = Some (s\<lparr>refund := prev\<rparr>)"
| "revert_entry E (addLogChange txhash) s =
     (let l = GetLogs txhash s
      in if length l = 1 then Some (s\<lparr>logs := (logs s)(txhash := None), logSize := logSize s - 1\<rparr>)
         else if l = [] then None
         else Some (s\<lparr>logs := (logs s)(txhash \<mapsto> butlast l), logSize := logSize s - 1\<rparr>))"
| "revert_entry E (addPreimageChange h) s = Some (s\<lparr>preimages := (preimages s)(h := None)\<rparr>)"
| "revert_entry E (touchChange a) s = Some s"

fun revert_loop :: "env \<Rightarrow> journalEntry list \<Rightarrow> StateDB \<Rightarrow> StateDB option" where
  "revert_loop E [] s = Some s"
| "revert_loop E (e # es) s =
     (case revert_entry E e s of
        None \<Rightarrow> None
      | Some s' \<Rightarrow> revert_loop E es (drop_dirty e s'))"

definition journal_revert :: "env \<Rightarrow> nat \<Rightarrow> StateDB \<Rightarrow> StateDB option" where
  "journal_revert E snapshot s =
     map_option (\<lambda>s'. s'\<lparr>entries := take snapshot (entries s')\<rparr>)
       (revert_loop E (rev (drop snapshot (entries s))) s)"

definition Snapshot :: "StateDB \<Rightarrow> nat \<times> StateDB" where
  "Snapshot s =
     (nextRevisionId s,
      s\<lparr>nextRevisionId := nextRevisionId s + 1,
        validRevisions := validRevisions s @ [(nextRevisionId s, length (entries s))]\<rparr>)"

definition RevertToSnapshot :: "env \<Rightarrow> nat \<Rightarrow> StateDB \<Rightarrow> StateDB option" where
  "RevertToSnapshot E revid s =
     (let idx = sort_Search (length (validRevisions s)) (\<lambda>i. fst (validRevisions s ! i) \<ge> revid)
      in if idx = length (validRevisions s) \<or> fst (validRevisions s ! idx) \<noteq> revid then None
         else map_option (\<lambda>s'. s'\<lparr>validRevisions := take idx (validRevisions s')\<rparr>)
                (journal_revert E (snd (validRevisions s ! idx)) s))"

section \<open>Finalising\<close>

definition clearJournalAndRefund :: "StateDB \<Rightarrow> StateDB" where
  "clearJournalAndRefund s =
     (if entries s \<noteq> [] then s\<lparr>entries := [], dirties := Map.empty, refund := 0, validRevisions := []\<rparr>
      else s\<lparr>validRevisions := []\<rparr>)"

definition finalise_object :: "env \<Rightarrow> bool \<Rightarrow> stateObject \<Rightarrow> stateObject" where
  "finalise_object E deleteEmptyObjects obj =
     (if suicided obj \<or> (deleteEmptyObjects \<and> so_empty E obj) then obj\<lparr>deleted := True\<rparr>
      else so_finalise obj)"

text \<open>The loop over the dirty addresses treats each address by itself.\<close>

definition Finalise :: "env \<Rightarrow> bool \<Rightarrow> StateDB \<Rightarrow> StateDB" where
  "Finalise E deleteEmptyObjects s =
     (let live = dom (dirties s) \<inter> dom (stateObjects s)
      in clearJournalAndRefund
           (s\<lparr>stateObjects := (\<lambda>a. if a \<in> dom (dirties s)
                                   then map_option (finalise_object E deleteEmptyObjects) (stateObjects s a)
                                   else stateObjects s a),
              stateObjectsPending := stateObjectsPending s \<union> live,
              stateObjectsDirty := stateObjectsDirty s \<union> live\<rparr>))"

end
