(* ===== verification/StateDB_Refine.thy ===== *)
theory StateDB_Refine
  imports StateDB
begin

text \<open>
  The contract of the world state: seen through its observers a \<^verbatim>\<open>StateDB\<close> is a map from
  addresses to account contents with a refund counter, logs and preimages, together with a
  stack of saved copies of that map. \<^verbatim>\<open>Snapshot\<close> pushes a copy and \<^verbatim>\<open>RevertToSnapshot\<close> pops
  back to one. The theory gives the abstraction function, the undo function the journal
  implements, and proves that every operation refines its abstract counterpart.
\<close>

section \<open>The observable world\<close>

record world =
  w_accounts :: "address \<Rightarrow> account_view option"
  w_refund :: u64
  w_logs :: "hash \<Rightarrow> Log list"
  w_logSize :: u64
  w_preimages :: "hash \<rightharpoonup> bytes"

definition view :: "env \<Rightarrow> StateDB \<Rightarrow> address \<Rightarrow> account_view option" where
  "view E s a =
     (case stateObjects s a of
        Some obj \<Rightarrow> Some (obj_view E obj)
      | None \<Rightarrow> map_option (\<lambda>d. obj_view E (loadObject E a d)) (db_trie s a))"

definition world_of :: "env \<Rightarrow> StateDB \<Rightarrow> world" where
  "world_of E s =
     \<lparr>w_accounts = view E s, w_refund = refund s, w_logs = (\<lambda>h. GetLogs h s),
      w_logSize = logSize s, w_preimages = preimages s\<rparr>"

text \<open>What undoing an entry does to the observable world.\<close>

definition undo_account ::
    "address \<Rightarrow> (account_view \<Rightarrow> account_view) \<Rightarrow> world \<Rightarrow> world option" where
  "undo_account a f w =
     (case w_accounts w a of
        None \<Rightarrow> None
      | Some v \<Rightarrow> if v_deleted v then None
                  else Some (w\<lparr>w_accounts := (w_accounts w)(a \<mapsto> f v)\<rparr>))"

fun undo_entry :: "env \<Rightarrow> journalEntry \<Rightarrow> world \<Rightarrow> world option" where
  "undo_entry E (createObjectChange a) w = Some (w\<lparr>w_accounts := (w_accounts w)(a := None)\<rparr>)"
| "undo_entry E (resetObjectChange prev) w =
     Some (w\<lparr>w_accounts := (w_accounts w)(so_address prev \<mapsto> obj_view E prev)\<rparr>)"
| "undo_entry E (suicideChange a prev prevbalance) w =
     (case undo_account a (\<lambda>v. v\<lparr>v_suicided := prev, v_balance := prevbalance\<rparr>) w of
        None \<Rightarrow> Some w | Some w' \<Rightarrow> Some w')"
| "undo_entry E (balanceChange a prev) w = undo_account a (\<lambda>v. v\<lparr>v_balance := prev\<rparr>) w"
| "undo_entry E (nonceChange a prev) w = undo_account a (\<lambda>v. v\<lparr>v_nonce := prev\<rparr>) w"
| "undo_entry E (storageChange a k prev) w =
     undo_account a (\<lambda>v. v\<lparr>v_storage := (v_storage v)(k := prev)\<rparr>) w"
| "undo_entry E (codeChange a prevcode prevhash) w =
     undo_account a (\<lambda>v. v\<lparr>v_codehash := prevhash, v_code := code_of E prevhash prevcode\<rparr>) w"
| "undo_entry E (refundChange prev) w = Some (w\<lparr>w_refund := prev\<rparr>)"
| "undo_entry E (addLogChange h) w =
     (if w_logs w h = [] then None
      else Some (w\<lparr>w_logs := (w_logs w)(h := butlast (w_logs w h)), w_logSize := w_logSize w - 1\<rparr>))"
| "undo_entry E (addPreimageChange h) w = Some (w\<lparr>w_preimages := (w_preimages w)(h := None)\<rparr>)"
| "undo_entry E (touchChange a) w = Some w"

text \<open>Undoing a list of entries, latest first.\<close>

fun undo :: "env \<Rightarrow> journalEntry list \<Rightarrow> world \<Rightarrow> world option" where
  "undo E [] w = Some w"
| "undo E (e # es) w = (case undo_entry E e w of None \<Rightarrow> None | Some w' \<Rightarrow> undo E es w')"

section \<open>Well-formed states\<close>

definition wf_objs :: "StateDB \<Rightarrow> bool" where
  "wf_objs s \<longleftrightarrow> (\<forall>a obj. stateObjects s a = Some obj \<longrightarrow> so_address obj = a \<and> fakeStorage obj = None)"

fun entry_ok :: "StateDB \<Rightarrow> journalEntry \<Rightarrow> bool" where
  "entry_ok s (createObjectChange a) = (db_trie s a = None)"
| "entry_ok s (resetObjectChange prev) = (fakeStorage prev = None)"
| "entry_ok s _ = True"

definition dirtied_times :: "journalEntry list \<Rightarrow> address \<Rightarrow> nat" where
  "dirtied_times es a = length (filter (\<lambda>e. dirtied e = Some a) es)"

text \<open>
  The dirty map counts, for each address, the journal entries that dirty it. The address
  of the RIPEMD precompile is counted once more by \<^verbatim>\<open>touch\<close> and is left out.
\<close>

definition dirties_ok :: "(address \<rightharpoonup> int) \<Rightarrow> journalEntry list \<Rightarrow> bool" where
  "dirties_ok d es \<longleftrightarrow>
     (\<forall>a. a \<noteq> ripemd \<longrightarrow>
        d a = (if dirtied_times es a = 0 then None else Some (int (dirtied_times es a))))"

definition revisions_ok :: "StateDB \<Rightarrow> bool" where
  "revisions_ok s \<longleftrightarrow>
     sorted_wrt (<) (map fst (validRevisions s)) \<and>
     sorted (map snd (validRevisions s)) \<and>
     (\<forall>r \<in> set (validRevisions s). fst r < nextRevisionId s \<and> snd r \<le> length (entries s))"

definition wf_state :: "env \<Rightarrow> StateDB \<Rightarrow> bool" where
  "wf_state E s \<longleftrightarrow>
     wf_objs s \<and> (\<forall>e \<in> set (entries s). entry_ok s e) \<and> dirties_ok (dirties s) (entries s) \<and>
     revisions_ok s \<and> undo E (rev (entries s)) (world_of E s) \<noteq> None"

text \<open>The saved copies: the world each valid revision would revert to.\<close>

definition snaps :: "env \<Rightarrow> StateDB \<Rightarrow> (nat \<times> world) list" where
  "snaps E s =
     map (\<lambda>(id, i). (id, the (undo E (rev (drop i (entries s))) (world_of E s)))) (validRevisions s)"

section \<open>Undo lists\<close>

lemma undo_append:
  "undo E (es @ fs) w = (case undo E es w of None \<Rightarrow> None | Some w' \<Rightarrow> undo E fs w')"
  by (induction es arbitrary: w) (auto split: option.splits)

lemma undo_prefix: "undo E (es @ fs) w \<noteq> None \<Longrightarrow> undo E es w \<noteq> None"
  by (auto simp: undo_append split: option.splits)

section \<open>Views of lookups and updates\<close>

lemma world_of_eqI:
  "view E s' = view E s \<Longrightarrow> refund s' = refund s \<Longrightarrow> logs s' = logs s \<Longrightarrow> logSize s' = logSize s \<Longrightarrow>
   preimages s' = preimages s \<Longrightarrow> world_of E s' = world_of E s"
  by (simp add: world_of_def GetLogs_def)

lemma view_setStateObject [simp]:
  "view E (setStateObject obj s) = (view E s)(so_address obj \<mapsto> obj_view E obj)"
  by (rule ext) (simp add: view_def setStateObject_def split: option.split)

lemma setStateObject_frame [simp]:
  "db_trie (setStateObject obj s) = db_trie s" "entries (setStateObject obj s) = entries s"
  "dirties (setStateObject obj s) = dirties s" "validRevisions (setStateObject obj s) = validRevisions s"
  "nextRevisionId (setStateObject obj s) = nextRevisionId s" "refund (setStateObject obj s) = refund s"
  "logs (setStateObject obj s) = logs s" "logSize (setStateObject obj s) = logSize s"
  "preimages (setStateObject obj s) = preimages s" "thash (setStateObject obj s) = thash s"
  "stateObjects (setStateObject obj s) = (stateObjects s)(so_address obj \<mapsto> obj)"
  by (simp_all add: setStateObject_def)

lemma world_of_setStateObject:
  "world_of E (setStateObject obj s) =
     (world_of E s)\<lparr>w_accounts := (w_accounts (world_of E s))(so_address obj \<mapsto> obj_view E obj)\<rparr>"
  by (simp add: world_of_def GetLogs_def)

lemma journal_append_frame [simp]:
  "db_trie (journal_append e s) = db_trie s" "stateObjects (journal_append e s) = stateObjects s"
  "entries (journal_append e s) = entries s @ [e]" "refund (journal_append e s) = refund s"
  "logs (journal_append e s) = logs s" "logSize (journal_append e s) = logSize s"
  "preimages (journal_append e s) = preimages s" "validRevisions (journal_append e s) = validRevisions s"
  "nextRevisionId (journal_append e s) = nextRevisionId s" "thash (journal_append e s) = thash s"
  by (simp_all add: journal_append_def journal_dirty_def Let_def split: option.splits)

lemma view_journal_append [simp]: "view E (journal_append e s) = view E s"
  by (rule ext) (simp add: view_def split: option.split)

lemma world_of_journal_append [simp]: "world_of E (journal_append e s) = world_of E s"
  by (rule world_of_eqI) simp_all

lemma wf_objs_setStateObject:
  "wf_objs s \<Longrightarrow> fakeStorage obj = None \<Longrightarrow> wf_objs (setStateObject obj s)"
  by (auto simp: wf_objs_def)

lemma wf_objs_journal_append [simp]: "wf_objs (journal_append e s) = wf_objs s"
  by (simp add: wf_objs_def)

lemma dirtied_times_append [simp]:
  "dirtied_times (es @ fs) a = dirtied_times es a + dirtied_times fs a"
  "dirtied_times [] a = 0"
  "dirtied_times (e # es) a = (if dirtied e = Some a then 1 else 0) + dirtied_times es a"
  by (simp_all add: dirtied_times_def)

lemma dirties_ok_append:
  assumes "dirties_ok (dirties s) (entries s)"
  shows "dirties_ok (dirties (journal_append e s)) (entries s @ [e])"
  using assms
  by (auto simp: dirties_ok_def journal_append_def journal_dirty_def dirty_count_def Let_def
      split: option.splits if_splits)

lemma dirties_ok_drop:
  assumes "dirties_ok (dirties s) (es @ [e])"
  shows "dirties_ok (dirties (drop_dirty e s)) es"
  using assms
  by (auto simp: dirties_ok_def drop_dirty_def dirty_count_def Let_def split: option.splits if_splits)

section \<open>Lookups fill caches only\<close>

definition jframe :: "StateDB \<Rightarrow> StateDB \<Rightarrow> bool" where
  "jframe s s' \<longleftrightarrow>
     db_trie s' = db_trie s \<and> entries s' = entries s \<and> dirties s' = dirties s \<and>
     validRevisions s' = validRevisions s \<and> nextRevisionId s' = nextRevisionId s \<and>
     thash s' = thash s \<and> bhash s' = bhash s \<and> txIndex s' = txIndex s"

lemma jframe_refl [simp]: "jframe s s"
  by (simp add: jframe_def)

lemma jframe_trans: "jframe s s' \<Longrightarrow> jframe s' s'' \<Longrightarrow> jframe s s''"
  by (simp add: jframe_def)

lemma jframe_setStateObject [simp]: "jframe s (setStateObject obj s') = jframe s s'"
  by (simp add: jframe_def setStateObject_def)

definition cached :: "env \<Rightarrow> StateDB \<Rightarrow> StateDB \<Rightarrow> bool" where
  "cached E s s' \<longleftrightarrow> world_of E s' = world_of E s \<and> wf_objs s' \<and> jframe s s'"

lemma w_accounts_world_of [simp]: "w_accounts (world_of E s) = view E s"
  by (simp add: world_of_def)

lemma world_of_cong_view: "world_of E s' = world_of E s \<Longrightarrow> view E s' = view E s"
  by (metis w_accounts_world_of)

lemma getDeletedStateObject_cases:
  assumes "wf_objs s"
  obtains (absent) "getDeletedStateObject E a s = (None, s)" "view E s a = None"
      "stateObjects s a = None" "db_trie s a = None"
  | (found) obj s' where "getDeletedStateObject E a s = (Some obj, s')" "cached E s s'"
      "stateObjects s' a = Some obj" "so_address obj = a" "fakeStorage obj = None"
      "view E s a = Some (obj_view E obj)"
proof (cases "stateObjects s a")
  case (Some obj)
  with assms show thesis
    by (intro found [of obj s]) (auto simp: getDeletedStateObject_def cached_def wf_objs_def view_def)
next
  case None
  show thesis
  proof (cases "db_trie s a")
    case db: None
    with None show thesis by (intro absent) (auto simp: getDeletedStateObject_def view_def)
  next
    case (Some d)
    let ?o = "loadObject E a d"
    have v: "view E s a = Some (obj_view E ?o)" using None Some by (simp add: view_def)
    have "world_of E (setStateObject ?o s) = world_of E s"
      by (rule world_of_eqI) (use v in \<open>auto simp: fun_upd_idem\<close>)
    with None Some v assms show thesis
      by (intro found [of ?o "setStateObject ?o s"])
        (auto simp: getDeletedStateObject_def cached_def wf_objs_setStateObject Let_def)
  qed
qed

definition absent_view :: "account_view option \<Rightarrow> bool" where
  "absent_view v \<longleftrightarrow> (case v of None \<Rightarrow> True | Some x \<Rightarrow> v_deleted x)"

lemma v_deleted_obj_view [simp]: "v_deleted (obj_view E obj) = deleted obj"
  by (simp add: obj_view_def)

lemma getStateObject_cases:
  assumes "wf_objs s"
  obtains (absent) s' where "getStateObject E a s = (None, s')" "cached E s s'"
      "absent_view (view E s a)"
  | (found) obj s' where "getStateObject E a s = (Some obj, s')" "cached E s s'"
      "stateObjects s' a = Some obj" "so_address obj = a" "fakeStorage obj = None"
      "\<not> deleted obj" "view E s a = Some (obj_view E obj)"
  using assms
proof (cases rule: getDeletedStateObject_cases [of s E a])
  case absent
  with assms show thesis
    by (intro that(1) [of s]) (auto simp: getStateObject_def cached_def absent_view_def)
next
  case (found obj s')
  then show thesis
    by (cases "deleted obj") (auto intro: that simp: getStateObject_def absent_view_def)
qed

section \<open>Reverting an entry is undoing it\<close>

lemma cached_world: "cached E s s' \<Longrightarrow> world_of E s' = world_of E s"
  by (simp add: cached_def)

lemma cached_set:
  assumes "cached E s s'"
  shows "world_of E (setStateObject obj s') =
           (world_of E s)\<lparr>w_accounts := (view E s)(so_address obj \<mapsto> obj_view E obj)\<rparr>"
    and "fakeStorage obj = None \<Longrightarrow> wf_objs (setStateObject obj s')"
    and "jframe s s'"
proof -
  from assms have "world_of E s' = world_of E s" by (rule cached_world)
  from this world_of_cong_view [OF this]
  show "world_of E (setStateObject obj s') =
          (world_of E s)\<lparr>w_accounts := (view E s)(so_address obj \<mapsto> obj_view E obj)\<rparr>"
    by (simp add: world_of_setStateObject)
qed (use assms in \<open>simp_all add: cached_def wf_objs_setStateObject\<close>)

lemma revert_object_refines:
  assumes "wf_objs s"
    and f: "\<And>obj. fakeStorage obj = None \<Longrightarrow> obj_view E (f obj) = g (obj_view E obj)"
    and f_frame: "\<And>obj. so_address (f obj) = so_address obj" "\<And>obj. fakeStorage (f obj) = fakeStorage obj"
  shows "map_option (world_of E) (revert_object E a f s) = undo_account a g (world_of E s)"
  using assms(1)
proof (cases rule: getStateObject_cases [of s E a])
  case (absent s')
  then show ?thesis by (auto simp: revert_object_def undo_account_def absent_view_def split: option.splits)
next
  case (found obj s')
  then show ?thesis
    by (simp add: revert_object_def undo_account_def f f_frame cached_set(1) [OF found(2)])
qed

lemma revert_suicide_refines:
  assumes "wf_objs s"
  shows "map_option (world_of E) (revert_entry E (suicideChange a b n) s) =
           undo_entry E (suicideChange a b n) (world_of E s)"
    and "revert_entry E (suicideChange a b n) s = Some s' \<Longrightarrow> wf_objs s' \<and> jframe s s'"
proof -
  show "map_option (world_of E) (revert_entry E (suicideChange a b n) s) =
          undo_entry E (suicideChange a b n) (world_of E s)"
    using assms
  proof (cases rule: getStateObject_cases [of s E a])
    case (absent s')
    then show ?thesis by (auto simp: undo_account_def absent_view_def cached_world [OF absent(2)] split: option.splits)
  next
    case (found obj s')
    then show ?thesis by (simp add: undo_account_def obs_simps cached_set(1) [OF found(2)])
  qed
  show "wf_objs s' \<and> jframe s s'" if "revert_entry E (suicideChange a b n) s = Some s'"
    using assms
  proof (cases rule: getStateObject_cases [of s E a])
    case (absent s'')
    with that show ?thesis by (simp add: cached_def)
  next
    case (found obj s'')
    then have "s' = setStateObject (setBalance n (obj\<lparr>suicided := b\<rparr>)) s''" using that by simp
    with found show ?thesis by (simp add: cached_set(2,3) [OF found(2)])
  qed
qed

lemma revert_log_refines:
  "map_option (world_of E) (revert_entry E (addLogChange h) s) =
     undo_entry E (addLogChange h) (world_of E s)"
  "revert_entry E (addLogChange h) s = Some s' \<Longrightarrow> wf_objs s \<Longrightarrow> wf_objs s' \<and> jframe s s'"
proof -
  have v: "view E (s\<lparr>logs := l, logSize := n\<rparr>) = view E s" for l n
    by (rule ext) (simp add: view_def split: option.split)
  show "map_option (world_of E) (revert_entry E (addLogChange h) s) =
          undo_entry E (addLogChange h) (world_of E s)"
    by (auto simp: world_of_def v GetLogs_def Let_def fun_eq_iff length_Suc_conv split: option.splits)
  show "wf_objs s' \<and> jframe s s'" if "revert_entry E (addLogChange h) s = Some s'" "wf_objs s"
    using that by (auto simp: jframe_def wf_objs_def Let_def split: if_splits)
qed

lemma revert_entry_refines:
  assumes "wf_objs s" "entry_ok s e"
  shows "map_option (world_of E) (revert_entry E e s) = undo_entry E e (world_of E s)"
proof (cases e)
  case (createObjectChange a)
  with assms have "view E (s\<lparr>stateObjects := (stateObjects s)(a := None),
      stateObjectsDirty := stateObjectsDirty s - {a}\<rparr>) = (view E s)(a := None)"
    by (intro ext) (simp add: view_def split: option.split)
  then show ?thesis by (simp add: createObjectChange world_of_def GetLogs_def)
next
  case (resetObjectChange prev)
  then show ?thesis by (simp add: world_of_setStateObject)
next
  case (refundChange prev)
  have "view E (s\<lparr>refund := prev\<rparr>) = view E s"
    by (rule ext) (simp add: view_def split: option.split)
  then show ?thesis by (simp add: refundChange world_of_def GetLogs_def)
next
  case (addPreimageChange h)
  have "view E (s\<lparr>preimages := (preimages s)(h := None)\<rparr>) = view E s"
    by (rule ext) (simp add: view_def split: option.split)
  then show ?thesis by (simp add: addPreimageChange world_of_def GetLogs_def)
next
  case (storageChange a k b)
  have "map_option (world_of E) (revert_object E a (setState k b) s) = undo_account a (\<lambda>v. v\<lparr>v_storage := (v_storage v)(k := b)\<rparr>) (world_of E s)"
    by (rule revert_object_refines [OF assms(1)]) (simp_all add: obj_view_setState)
  then show ?thesis by (simp add: storageChange)
next
  case (balanceChange a b)
  have "map_option (world_of E) (revert_object E a (setBalance b) s) = undo_account a (\<lambda>v. v\<lparr>v_balance := b\<rparr>) (world_of E s)"
    by (rule revert_object_refines [OF assms(1)]) (simp_all add: obj_view_setBalance)
  then show ?thesis by (simp add: balanceChange)
next
  case (nonceChange a b)
  have "map_option (world_of E) (revert_object E a (setNonce b) s) = undo_account a (\<lambda>v. v\<lparr>v_nonce := b\<rparr>) (world_of E s)"
    by (rule revert_object_refines [OF assms(1)]) (simp_all add: obj_view_setNonce)
  then show ?thesis by (simp add: nonceChange)
next
  case (codeChange a c h)
  have "map_option (world_of E) (revert_object E a (setCode h c) s) = undo_account a (\<lambda>v. v\<lparr>v_codehash := h, v_code := code_of E h c\<rparr>) (world_of E s)"
    by (rule revert_object_refines [OF assms(1)]) (simp_all add: obj_view_setCode)
  then show ?thesis by (simp add: codeChange)
next
  case (suicideChange a b n)
  from revert_suicide_refines(1) [OF assms(1)] show ?thesis by (simp only: suicideChange)
next
  case (addLogChange h)
  from revert_log_refines(1) show ?thesis by (simp only: addLogChange)
next
  case (touchChange a)
  then show ?thesis by simp
qed

lemma revert_object_frame:
  assumes "wf_objs s" "revert_object E a f s = Some s'"
    and f_frame: "\<And>obj. so_address (f obj) = so_address obj" "\<And>obj. fakeStorage (f obj) = fakeStorage obj"
  shows "wf_objs s' \<and> jframe s s'"
  using assms(1)
proof (cases rule: getStateObject_cases [of s E a])
  case (absent s'')
  with assms(2) show ?thesis by (simp add: revert_object_def)
next
  case (found obj s'')
  then have "s' = setStateObject (f obj) s''" using assms(2) by (simp add: revert_object_def)
  with found show ?thesis by (simp add: f_frame cached_set(2,3) [OF found(2)])
qed

lemma revert_entry_frame:
  assumes "wf_objs s" "entry_ok s e" "revert_entry E e s = Some s'"
  shows "wf_objs s' \<and> jframe s s'"
proof (cases e)
  case (suicideChange a b n)
  from revert_suicide_refines(2) [OF assms(1) assms(3) [unfolded suicideChange]] show ?thesis .
next
  case (addLogChange h)
  from revert_log_refines(2) [OF assms(3) [unfolded addLogChange] assms(1)] show ?thesis .
next
  case (balanceChange a b)
  with assms(3) have "revert_object E a (setBalance b) s = Some s'" by simp
  then show ?thesis by (rule revert_object_frame [OF assms(1)]) simp_all
next
  case (nonceChange a b)
  with assms(3) have "revert_object E a (setNonce b) s = Some s'" by simp
  then show ?thesis by (rule revert_object_frame [OF assms(1)]) simp_all
next
  case (storageChange a k b)
  with assms(3) have "revert_object E a (setState k b) s = Some s'" by simp
  then show ?thesis by (rule revert_object_frame [OF assms(1)]) simp_all
next
  case (codeChange a c h)
  with assms(3) have "revert_object E a (setCode h c) s = Some s'" by simp
  then show ?thesis by (rule revert_object_frame [OF assms(1)]) simp_all
next
  case (createObjectChange a)
  with assms show ?thesis by (auto simp: jframe_def wf_objs_def split: if_splits)
next
  case (resetObjectChange prev)
  with assms show ?thesis by (auto simp: wf_objs_setStateObject)
next
  case (refundChange r)
  with assms have "s' = s\<lparr>refund := r\<rparr>" by simp
  with assms(1) show ?thesis by (simp add: jframe_def wf_objs_def)
next
  case (addPreimageChange h)
  with assms have "s' = s\<lparr>preimages := (preimages s)(h := None)\<rparr>" by simp
  with assms(1) show ?thesis by (simp add: jframe_def wf_objs_def)
next
  case (touchChange a)
  with assms show ?thesis by simp
qed

lemma drop_dirty_frame [simp]:
  "db_trie (drop_dirty e s) = db_trie s" "stateObjects (drop_dirty e s) = stateObjects s"
  "entries (drop_dirty e s) = entries s" "validRevisions (drop_dirty e s) = validRevisions s"
  "nextRevisionId (drop_dirty e s) = nextRevisionId s" "refund (drop_dirty e s) = refund s"
  "logs (drop_dirty e s) = logs s" "logSize (drop_dirty e s) = logSize s"
  "preimages (drop_dirty e s) = preimages s" "thash (drop_dirty e s) = thash s"
  "bhash (drop_dirty e s) = bhash s" "txIndex (drop_dirty e s) = txIndex s"
  by (simp_all add: drop_dirty_def Let_def split: option.splits)

lemma world_of_drop_dirty [simp]: "world_of E (drop_dirty e s) = world_of E s"
  by (rule world_of_eqI) (simp_all add: fun_eq_iff view_def split: option.split)

lemma entry_ok_cong: "db_trie s' = db_trie s \<Longrightarrow> entry_ok s' e = entry_ok s e"
  by (cases e) simp_all

text \<open>All of \<^verbatim>\<open>jframe\<close> but the dirty map, which reverting shrinks.\<close>

definition rframe :: "StateDB \<Rightarrow> StateDB \<Rightarrow> bool" where
  "rframe s s' \<longleftrightarrow>
     db_trie s' = db_trie s \<and> entries s' = entries s \<and> validRevisions s' = validRevisions s \<and>
     nextRevisionId s' = nextRevisionId s \<and> thash s' = thash s \<and> bhash s' = bhash s \<and> txIndex s' = txIndex s"

lemma revert_loop_refines:
  assumes "wf_objs s" "\<forall>e \<in> set es. entry_ok s e" "dirties_ok (dirties s) (rest @ rev es)"
    "undo E es (world_of E s) = Some w"
  shows "\<exists>s'. revert_loop E es s = Some s' \<and> world_of E s' = w \<and> wf_objs s' \<and> rframe s s' \<and>
           dirties_ok (dirties s') rest"
  using assms
proof (induction es arbitrary: s)
  case Nil
  then show ?case by (simp add: rframe_def)
next
  case (Cons e es)
  from Cons.prems(4) obtain w1 where w1: "undo_entry E e (world_of E s) = Some w1" "undo E es w1 = Some w"
    by (auto split: option.splits)
  from Cons.prems(1,2) have "map_option (world_of E) (revert_entry E e s) = Some w1"
    using w1(1) by (simp add: revert_entry_refines)
  then obtain s1 where s1: "revert_entry E e s = Some s1" "world_of E s1 = w1" by blast
  from Cons.prems(1,2) s1(1) have fr: "wf_objs s1" "jframe s s1"
    using revert_entry_frame [of s e E s1] by auto
  let ?s = "drop_dirty e s1"
  have "\<exists>s'. revert_loop E es ?s = Some s' \<and> world_of E s' = w \<and> wf_objs s' \<and> rframe ?s s' \<and>
          dirties_ok (dirties s') rest"
  proof (rule Cons.IH)
    show "wf_objs ?s" using fr(1) by (simp add: wf_objs_def)
    show "\<forall>e' \<in> set es. entry_ok ?s e'"
      using Cons.prems(2) fr(2) entry_ok_cong [of ?s s] by (simp add: jframe_def)
    show "dirties_ok (dirties ?s) (rest @ rev es)"
      by (rule dirties_ok_drop) (use Cons.prems(3) fr(2) in \<open>simp add: jframe_def\<close>)
    show "undo E es (world_of E ?s) = Some w" using s1(2) w1(2) by simp
  qed
  then show ?case using s1(1) fr(2) by (auto simp: rframe_def jframe_def)
qed

section \<open>Steps: what every operation does to the saved copies\<close>

definition step :: "env \<Rightarrow> StateDB \<Rightarrow> StateDB \<Rightarrow> bool" where
  "step E s s' \<longleftrightarrow>
     wf_state E s' \<and> db_trie s' = db_trie s \<and> validRevisions s' = validRevisions s \<and>
     nextRevisionId s' = nextRevisionId s \<and>
     (\<exists>es. entries s' = entries s @ es \<and> undo E (rev es) (world_of E s') = Some (world_of E s))"

lemma step_refl: "wf_state E s \<Longrightarrow> step E s s"
  by (auto simp: step_def)

lemma step_wf: "step E s s' \<Longrightarrow> wf_state E s'"
  by (simp add: step_def)

lemma step_trans:
  assumes "step E s1 s2" "step E s2 s3"
  shows "step E s1 s3"
proof -
  from assms obtain es fs where
    e: "entries s2 = entries s1 @ es" "undo E (rev es) (world_of E s2) = Some (world_of E s1)" and
    f: "entries s3 = entries s2 @ fs" "undo E (rev fs) (world_of E s3) = Some (world_of E s2)"
    by (auto simp: step_def)
  then have "entries s3 = entries s1 @ (es @ fs)"
      "undo E (rev (es @ fs)) (world_of E s3) = Some (world_of E s1)"
    by (simp_all add: undo_append)
  with assms show ?thesis unfolding step_def by metis
qed

lemma step_snaps:
  assumes "wf_state E s" "step E s s'"
  shows "snaps E s' = snaps E s"
proof -
  from assms(2) obtain es where
    es: "entries s' = entries s @ es" "undo E (rev es) (world_of E s') = Some (world_of E s)" and
    v: "validRevisions s' = validRevisions s"
    by (auto simp: step_def)
  have "undo E (rev (drop i (entries s'))) (world_of E s') = undo E (rev (drop i (entries s))) (world_of E s)"
    if "i \<le> length (entries s)" for i
    using that es by (simp add: undo_append)
  moreover have "\<forall>r \<in> set (validRevisions s). snd r \<le> length (entries s)"
    using assms(1) by (simp add: wf_state_def revisions_ok_def)
  ultimately show ?thesis
    by (auto simp: snaps_def v)
qed

lemma wf_objs_wf: "wf_state E s \<Longrightarrow> wf_objs s"
  by (simp add: wf_state_def)

lemma cached_step:
  assumes "wf_state E s" "cached E s s'"
  shows "step E s s'"
proof -
  from assms(2) have c: "world_of E s' = world_of E s" "wf_objs s'" and j: "jframe s s'"
    by (simp_all add: cached_def)
  from j have "entry_ok s' e = entry_ok s e" for e by (intro entry_ok_cong) (simp add: jframe_def)
  with assms(1) c j show ?thesis
    by (simp add: step_def wf_state_def jframe_def revisions_ok_def)
qed

lemma prim_step:
  assumes "wf_state E s" "wf_objs s'" "entry_ok s e"
    and "entries s' = entries s @ [e]" "db_trie s' = db_trie s"
    and "validRevisions s' = validRevisions s" "nextRevisionId s' = nextRevisionId s"
    and "dirties_ok (dirties s') (entries s @ [e])"
    and "undo_entry E e (world_of E s') = Some (world_of E s)"
  shows "step E s s'"
proof -
  have "entry_ok s' f = entry_ok s f" for f by (rule entry_ok_cong) (rule assms(5))
  moreover have "revisions_ok s'" using assms(1,4,6,7) by (auto simp: wf_state_def revisions_ok_def)
  moreover have "undo E (rev (entries s')) (world_of E s') \<noteq> None"
    using assms(1,4,9) by (simp add: wf_state_def)
  ultimately have "wf_state E s'" using assms(1,2,3,4,8) by (simp add: wf_state_def)
  with assms(4-7,9) show ?thesis by (simp add: step_def)
qed

lemma write_step:
  assumes "wf_state E s" "entry_ok s e" "fakeStorage obj = None"
    and "undo_entry E e (world_of E (setStateObject obj s)) = Some (world_of E s)"
  shows "step E s (setStateObject obj (journal_append e s))"
proof (rule prim_step [OF assms(1) _ assms(2)])
  show "wf_objs (setStateObject obj (journal_append e s))"
    using assms(1,3) by (simp add: wf_objs_setStateObject wf_objs_wf)
  show "dirties_ok (dirties (setStateObject obj (journal_append e s))) (entries s @ [e])"
    using assms(1) by (simp add: wf_state_def dirties_ok_append)
  show "undo_entry E e (world_of E (setStateObject obj (journal_append e s))) = Some (world_of E s)"
    using assms(4) by (simp add: world_of_setStateObject)
qed simp_all

section \<open>Snapshot and RevertToSnapshot\<close>

lemma Snapshot_refines:
  assumes "wf_state E s" "Snapshot s = (rid, s')"
  shows "wf_state E s'" "world_of E s' = world_of E s" "snaps E s' = snaps E s @ [(rid, world_of E s)]"
    "rid = nextRevisionId s"
proof -
  from assms(2) have s': "s' = s\<lparr>nextRevisionId := nextRevisionId s + 1,
      validRevisions := validRevisions s @ [(nextRevisionId s, length (entries s))]\<rparr>"
    and rid: "rid = nextRevisionId s" by (auto simp: Snapshot_def)
  show w: "world_of E s' = world_of E s"
    by (rule world_of_eqI) (simp_all add: s' fun_eq_iff view_def split: option.split)
  have "entry_ok s' e = entry_ok s e" for e by (rule entry_ok_cong) (simp add: s')
  moreover have "revisions_ok s'" using assms(1)
    by (auto simp: s' wf_state_def revisions_ok_def sorted_append sorted_wrt_append intro: less_SucI)
  moreover have "wf_objs s'" using assms(1) by (simp add: wf_state_def wf_objs_def s')
  ultimately show "wf_state E s'" using assms(1) w by (simp add: wf_state_def) (simp add: s')
  show "snaps E s' = snaps E s @ [(rid, world_of E s)]" using w by (simp add: snaps_def) (simp add: s' rid)
  show "rid = nextRevisionId s" by (rule rid)
qed

lemma search_revision:
  fixes rs :: "(nat \<times> 'a) list"
  assumes sorted: "sorted_wrt (<) (map fst rs)" and i: "i < length rs"
  shows "sort_Search (length rs) (\<lambda>i'. fst (rs ! i') \<ge> fst (rs ! i)) = i"
proof -
  let ?f = "\<lambda>i'. fst (rs ! i') \<ge> fst (rs ! i)"
  have less: "fst (rs ! p) < fst (rs ! q)" if "p < q" "q < length rs" for p q
    using sorted that by (auto simp: sorted_wrt_iff_nth_less)
  have "search_loop ?f 0 (length rs) \<le> length rs \<and> (\<forall>k < search_loop ?f 0 (length rs). \<not> ?f k) \<and>
      (\<forall>k. search_loop ?f 0 (length rs) \<le> k \<longrightarrow> k < length rs \<longrightarrow> ?f k)"
  proof (rule search_loop_least)
    show "?f l" if "k \<le> l" "l < length rs" "?f k" for k l
      using that less [of k l] by (cases "k = l") auto
  qed auto
  then have low: "search_loop ?f 0 (length rs) \<le> i" and
      up: "search_loop ?f 0 (length rs) < length rs \<Longrightarrow> ?f (search_loop ?f 0 (length rs))"
    using linorder_not_less by blast+
  have "\<not> search_loop ?f 0 (length rs) < i"
    using less [of "search_loop ?f 0 (length rs)" i] up low i by force
  with low show ?thesis by (simp add: sort_Search_def)
qed

lemma search_loop_le: "i \<le> j \<Longrightarrow> search_loop f i j \<le> j"
proof (induction f i j rule: search_loop.induct)
  case (1 f i j)
  have "search_loop f i ((i + j) div 2) \<le> (i + j) div 2" if "i < j" "f ((i + j) div 2)"
    using 1 that by simp
  moreover have "search_loop f (Suc ((i + j) div 2)) j \<le> j" if "i < j" "\<not> f ((i + j) div 2)"
    using 1 that by simp
  ultimately show ?case using 1(3)
    by (subst search_loop.simps) (auto simp: Let_def intro: order_trans)
qed

lemma search_revision_missing:
  assumes "k \<notin> fst ` set rs"
  shows "sort_Search (length rs) f = length rs \<or> fst (rs ! sort_Search (length rs) f) \<noteq> k"
proof (cases "sort_Search (length rs) f = length rs")
  case False
  then have "sort_Search (length rs) f < length rs"
    using search_loop_le [of 0 "length rs" f] by (simp add: sort_Search_def)
  with assms show ?thesis by (metis image_eqI nth_mem)
qed simp

lemma undo_split:
  assumes "j \<le> i" "i \<le> length es" "undo E (rev (drop i es)) w = Some w'"
  shows "undo E (rev (drop j es)) w = undo E (rev (drop j (take i es))) w'"
proof -
  have "drop j es = drop j (take i es) @ drop i es"
    by (metis append_take_drop_id assms(1) drop_append drop_eq_Nil2 drop_drop
        drop_take le_add_diff_inverse2 length_take min.absorb2 assms(2) append_Nil2 diff_is_0_eq drop_0)
  then show ?thesis using assms(3) by (simp add: undo_append)
qed

lemma journal_revert_refines:
  assumes "wf_state E s" "i \<le> length (entries s)"
  shows "\<exists>s' w. journal_revert E i s = Some s' \<and> undo E (rev (drop i (entries s))) (world_of E s) = Some w \<and>
           world_of E s' = w \<and> wf_objs s' \<and> entries s' = take i (entries s) \<and>
           dirties_ok (dirties s') (take i (entries s)) \<and> db_trie s' = db_trie s \<and>
           validRevisions s' = validRevisions s \<and> nextRevisionId s' = nextRevisionId s"
proof -
  let ?es = "rev (drop i (entries s))"
  have *: "rev (entries s) = ?es @ rev (take i (entries s))"
    by (metis append_take_drop_id rev_append)
  from assms(1) have "undo E (rev (entries s)) (world_of E s) \<noteq> None" by (simp add: wf_state_def)
  then have "undo E ?es (world_of E s) \<noteq> None" unfolding * by (rule undo_prefix)
  then obtain w where w: "undo E ?es (world_of E s) = Some w" by blast
  have "\<exists>s'. revert_loop E ?es s = Some s' \<and> world_of E s' = w \<and> wf_objs s' \<and> rframe s s' \<and>
           dirties_ok (dirties s') (take i (entries s))"
    by (rule revert_loop_refines [OF _ _ _ w])
      (use assms(1) in \<open>auto simp: wf_state_def dest: in_set_dropD\<close>)
  then obtain s' where s': "revert_loop E ?es s = Some s'" "world_of E s' = w" "wf_objs s'" "rframe s s'"
      "dirties_ok (dirties s') (take i (entries s))" by blast
  let ?t = "s'\<lparr>entries := take i (entries s')\<rparr>"
  have "world_of E ?t = w" unfolding s'(2) [symmetric]
    by (rule world_of_eqI) (simp_all add: fun_eq_iff view_def split: option.split)
  moreover have "journal_revert E i s = Some ?t" using s'(1) by (simp add: journal_revert_def)
  moreover have "wf_objs ?t" using s'(3) by (simp add: wf_objs_def)
  ultimately show ?thesis using w s'(4,5) by (simp add: rframe_def)
qed

lemma wf_reverted:
  assumes "wf_state E s" "j \<le> length (entries s)" "\<forall>r \<in> set (take i (validRevisions s)). snd r \<le> j"
    and "undo E (rev (drop j (entries s))) (world_of E s) = Some (world_of E t)" "wf_objs t"
    and "dirties_ok (dirties t) (take j (entries s))" "entries t = take j (entries s)"
    and "db_trie t = db_trie s" "validRevisions t = take i (validRevisions s)"
    and "nextRevisionId t = nextRevisionId s"
  shows "wf_state E t"
proof -
  have "entry_ok t e = entry_ok s e" for e by (rule entry_ok_cong) (rule assms(8))
  then have "\<forall>e \<in> set (entries t). entry_ok t e"
    using assms(1,7) by (auto simp: wf_state_def dest: in_set_takeD)
  moreover have "revisions_ok t"
    using assms(1-3,7,9,10) unfolding wf_state_def revisions_ok_def
    by (auto simp: take_map [symmetric] sorted_wrt_take dest: in_set_takeD)
  moreover have "undo E (rev (entries t)) (world_of E t) \<noteq> None"
    using assms(1,7) undo_split [OF _ assms(2,4), of 0] by (simp add: wf_state_def)
  ultimately show ?thesis using assms(5-7) by (simp add: wf_state_def)
qed

lemma RevertToSnapshot_refines:
  assumes "wf_state E s" and i: "i < length (snaps E s)" and snap: "snaps E s ! i = (rid, w)"
  shows "\<exists>s'. RevertToSnapshot E rid s = Some s' \<and> wf_state E s' \<and> world_of E s' = w \<and>
           snaps E s' = take i (snaps E s) \<and> nextRevisionId s' = nextRevisionId s"
proof -
  let ?rs = "validRevisions s" and ?es = "entries s"
  from assms(1) have ok: "revisions_ok s" by (simp add: wf_state_def)
  from i have i': "i < length ?rs" by (simp add: snaps_def)
  obtain j where r: "?rs ! i = (rid, j)"
    using snap i' by (cases "?rs ! i") (simp add: snaps_def)
  with ok i' have j: "j \<le> length ?es" unfolding revisions_ok_def by (metis nth_mem snd_conv)
  from journal_revert_refines [OF assms(1) j] obtain s1 w1 where
    s1: "journal_revert E j s = Some s1" "undo E (rev (drop j ?es)) (world_of E s) = Some w1"
      "world_of E s1 = w1" "wf_objs s1" "entries s1 = take j ?es" "dirties_ok (dirties s1) (take j ?es)"
      "db_trie s1 = db_trie s" "validRevisions s1 = ?rs" "nextRevisionId s1 = nextRevisionId s"
    by blast
  from snap i' r s1(2) have w1: "w1 = w" by (simp add: snaps_def)
  let ?t = "s1\<lparr>validRevisions := take i ?rs\<rparr>"
  have Some: "RevertToSnapshot E rid s = Some ?t"
    using search_revision [of ?rs i] ok i' r s1(1,8) by (simp add: RevertToSnapshot_def revisions_ok_def)
  have wt: "world_of E ?t = w" unfolding w1 [symmetric] s1(3) [symmetric]
    by (rule world_of_eqI) (simp_all add: fun_eq_iff view_def split: option.split)
  have low: "snd r \<le> j" if "r \<in> set (take i ?rs)" for r
    using ok that r i' unfolding revisions_ok_def
    by (auto simp: in_set_conv_nth sorted_iff_nth_mono) (metis less_imp_le_nat snd_conv)
  have "snaps E ?t = take i (snaps E s)"
    using low undo_split [OF _ j s1(2)] by (auto simp: snaps_def take_map wt w1 s1(5))
  moreover have "wf_state E ?t"
    by (rule wf_reverted [OF assms(1) j])
      (use low s1 wt w1 in \<open>simp_all add: wf_objs_def\<close>)
  ultimately show ?thesis using Some wt s1(9) by simp
qed

lemma RevertToSnapshot_missing:
  assumes "rid \<notin> fst ` set (snaps E s)"
  shows "RevertToSnapshot E rid s = None"
proof -
  have "rid \<notin> fst ` set (validRevisions s)"
    using assms by (force simp: snaps_def)
  then show ?thesis
    using search_revision_missing [of rid "validRevisions s" "\<lambda>i. fst (validRevisions s ! i) \<ge> rid"]
    by (auto simp: RevertToSnapshot_def Let_def)
qed

end
