(* ===== verification/StateDB_Ops.thy ===== *)
theory StateDB_Ops
  imports StateDB_Refine "HOL-Library.Sublist"
begin

text \<open>
  Every operation of \<^verbatim>\<open>StateDB\<close> against the observable world: what it changes there, and
  that it journals enough to be undone (a \<open>step\<close> keeps all saved copies). The contract the
  clients of the state rely on is the locale \<open>snapshotting\<close>, interpreted on \<^verbatim>\<open>StateDB\<close> at the
  end, where arbitrary sequences of operations with nested snapshots and reverts are
  shown to refine the machine of worlds and saved worlds.
\<close>

section \<open>The abstract operations\<close>

definition blank :: "env \<Rightarrow> account_view" where
  "blank E = obj_view E (newObject E 0 0 None 0 None)"

text \<open>The account at an address; a deleted one counts as absent.\<close>

definition acct :: "world \<Rightarrow> address \<Rightarrow> account_view option" where
  "acct w a = (case w_accounts w a of
                 None \<Rightarrow> None
               | Some v \<Rightarrow> if v_deleted v then None else Some v)"

definition acct_or_blank :: "env \<Rightarrow> world \<Rightarrow> address \<Rightarrow> account_view" where
  "acct_or_blank E w a = (case acct w a of None \<Rightarrow> blank E | Some v \<Rightarrow> v)"

definition on_account :: "env \<Rightarrow> address \<Rightarrow> (account_view \<Rightarrow> account_view) \<Rightarrow> world \<Rightarrow> world" where
  "on_account E a f w = w\<lparr>w_accounts := (w_accounts w)(a \<mapsto> f (acct_or_blank E w a))\<rparr>"

definition balance_of :: "world \<Rightarrow> address \<Rightarrow> int" where
  "balance_of w a = (case acct w a of None \<Rightarrow> 0 | Some v \<Rightarrow> v_balance v)"

definition nonce_of :: "world \<Rightarrow> address \<Rightarrow> u64" where
  "nonce_of w a = (case acct w a of None \<Rightarrow> 0 | Some v \<Rightarrow> v_nonce v)"

lemma obj_view_new: "obj_view E (newObject E a 0 None 0 None) = blank E"
proof -
  let ?o = "newObject E a 0 None 0 None" and ?o' = "newObject E 0 0 None 0 None"
  have c: "committed_view E ?o = committed_view E ?o'"
    by (rule committed_view_cong) (simp_all add: newObject_def trie_view_def)
  moreover have "storage_view E ?o = storage_view E ?o'"
    by (rule storage_view_cong) (simp_all add: c, simp_all add: newObject_def)
  moreover have "code_view E ?o = code_view E ?o'" by (rule code_view_cong) (simp_all add: newObject_def)
  ultimately show ?thesis unfolding blank_def by (simp add: obj_view_def) (simp add: newObject_def)
qed

lemma blank_fields [simp]:
  "v_nonce (blank E) = 0" "v_balance (blank E) = 0" "v_codehash (blank E) = emptyCodeHash E"
  "v_code (blank E) = []" "v_suicided (blank E) = False" "v_deleted (blank E) = False"
  by (simp_all add: blank_def obj_view_def code_view_def) (simp_all add: newObject_def)

lemma v_fields_obj_view [simp]:
  "v_nonce (obj_view E obj) = Nonce (so_data obj)" "v_balance (obj_view E obj) = Balance (so_data obj)"
  "v_codehash (obj_view E obj) = CodeHash (so_data obj)" "v_code (obj_view E obj) = code_view E obj"
  "v_storage (obj_view E obj) = storage_view E obj" "v_committed (obj_view E obj) = committed_view E obj"
  "v_suicided (obj_view E obj) = suicided obj"
  by (simp_all add: obj_view_def)

section \<open>Reads\<close>

lemma getStateObject_reads:
  assumes "wf_state E s" "getStateObject E a s = (r, s')"
  shows "step E s s'" "world_of E s' = world_of E s"
    "map_option (obj_view E) r = acct (world_of E s) a"
    "r = Some obj \<Longrightarrow> stateObjects s' a = Some obj \<and> so_address obj = a \<and> fakeStorage obj = None \<and> \<not> deleted obj"
proof -
  note w = wf_objs_wf [OF assms(1)]
  from w have *: "cached E s s' \<and> map_option (obj_view E) r = acct (world_of E s) a \<and>
      (r = Some obj \<longrightarrow> stateObjects s' a = Some obj \<and> so_address obj = a \<and> fakeStorage obj = None \<and> \<not> deleted obj)"
  proof (cases rule: getStateObject_cases [of s E a])
    case (absent s'')
    with assms(2) show ?thesis by (auto simp: acct_def absent_view_def split: option.splits)
  next
    case (found obj' s'')
    then have "r = Some obj'" "s'' = s'" using assms(2) by simp_all
    with found show ?thesis by (auto simp: acct_def)
  qed
  then show "step E s s'" "world_of E s' = world_of E s" "map_option (obj_view E) r = acct (world_of E s) a"
    using assms(1) by (simp_all add: cached_step cached_world)
  show "stateObjects s' a = Some obj \<and> so_address obj = a \<and> fakeStorage obj = None \<and> \<not> deleted obj"
    if "r = Some obj" using * that by simp
qed

lemma reads_of:
  assumes "wf_state E s"
  shows "fst (GetBalance E a s) = balance_of (world_of E s) a"
    "fst (GetNonce E a s) = nonce_of (world_of E s) a"
    "fst (Exist E a s) = (acct (world_of E s) a \<noteq> None)"
    "fst (HasSuicided E a s) = (case acct (world_of E s) a of None \<Rightarrow> False | Some v \<Rightarrow> v_suicided v)"
    "fst (GetCodeHash E a s) = (case acct (world_of E s) a of None \<Rightarrow> 0 | Some v \<Rightarrow> v_codehash v)"
    "fst (Empty E a s) = (case acct (world_of E s) a of None \<Rightarrow> True
       | Some v \<Rightarrow> v_nonce v = 0 \<and> v_balance v = 0 \<and> v_codehash v = emptyCodeHash E)"
  using getStateObject_reads(3) [OF assms, of a "fst (getStateObject E a s)" "snd (getStateObject E a s)", symmetric]
  by (auto simp: GetBalance_def GetNonce_def Exist_def HasSuicided_def GetCodeHash_def Empty_def so_empty_def
      balance_of_def nonce_of_def case_prod_beta split: option.splits)

lemma read_steps:
  assumes "wf_state E s"
  shows "step E s (snd (GetBalance E a s))" "world_of E (snd (GetBalance E a s)) = world_of E s"
    "step E s (snd (GetNonce E a s))" "world_of E (snd (GetNonce E a s)) = world_of E s"
    "step E s (snd (Exist E a s))" "world_of E (snd (Exist E a s)) = world_of E s"
    "step E s (snd (Empty E a s))" "world_of E (snd (Empty E a s)) = world_of E s"
    "step E s (snd (GetCodeHash E a s))" "world_of E (snd (GetCodeHash E a s)) = world_of E s"
    "step E s (snd (HasSuicided E a s))" "world_of E (snd (HasSuicided E a s)) = world_of E s"
  using getStateObject_reads(1,2) [OF assms, of a "fst (getStateObject E a s)" "snd (getStateObject E a s)"]
  by (simp_all add: GetBalance_def GetNonce_def Exist_def Empty_def GetCodeHash_def HasSuicided_def case_prod_beta)

text \<open>Storing an object with the same view back into the live map is unobservable.\<close>

lemma refresh_step:
  assumes "wf_state E s" "stateObjects s a = Some obj" "obj_view E obj' = obj_view E obj"
    "so_address obj' = a" "fakeStorage obj' = None"
  shows "step E s (setStateObject obj' s)" "world_of E (setStateObject obj' s) = world_of E s"
proof -
  have "view E s a = Some (obj_view E obj)" using assms(2) by (simp add: view_def)
  then show w: "world_of E (setStateObject obj' s) = world_of E s"
    by (intro world_of_eqI) (simp_all add: assms(3,4) fun_upd_idem)
  with assms(1,5) show "step E s (setStateObject obj' s)"
    by (intro cached_step) (simp_all add: cached_def wf_objs_setStateObject wf_objs_wf)
qed

lemma GetState_refines:
  assumes "wf_state E s"
  shows "fst (GetState E a k s) = (case acct (world_of E s) a of None \<Rightarrow> 0 | Some v \<Rightarrow> v_storage v k)"
    "step E s (snd (GetState E a k s))" "world_of E (snd (GetState E a k s)) = world_of E s"
proof -
  obtain r s' where r: "getStateObject E a s = (r, s')" by fastforce
  note rd = getStateObject_reads [OF assms r]
  have *: "step E s' (snd (GetState E a k s)) \<and> world_of E (snd (GetState E a k s)) = world_of E s' \<and>
      fst (GetState E a k s) = (case acct (world_of E s) a of None \<Rightarrow> 0 | Some v \<Rightarrow> v_storage v k)"
  proof (cases r)
    case None
    with rd(3) show ?thesis by (auto simp: GetState_def r step_refl [OF step_wf [OF rd(1)]])
  next
    case (Some obj)
    with rd(4) have o: "stateObjects s' a = Some obj" "so_address obj = a" "fakeStorage obj = None" by auto
    let ?o = "snd (so_GetState E k obj)"
    have "step E s' (setStateObject ?o s')" "world_of E (setStateObject ?o s') = world_of E s'"
      by (rule refresh_step [OF step_wf [OF rd(1)] o(1)]; simp add: obs_simps o)+
    with Some rd(3) show ?thesis by (auto simp: GetState_def r case_prod_beta obs_simps dest: sym)
  qed
  with rd(1,2) show "fst (GetState E a k s) = (case acct (world_of E s) a of None \<Rightarrow> 0 | Some v \<Rightarrow> v_storage v k)"
    "step E s (snd (GetState E a k s))" "world_of E (snd (GetState E a k s)) = world_of E s"
    by (auto intro: step_trans)
qed

lemma GetCode_refines:
  assumes "wf_state E s"
  shows "fst (GetCode E a s) = (case acct (world_of E s) a of None \<Rightarrow> [] | Some v \<Rightarrow> v_code v)"
    "step E s (snd (GetCode E a s))" "world_of E (snd (GetCode E a s)) = world_of E s"
proof -
  obtain r s' where r: "getStateObject E a s = (r, s')" by fastforce
  note rd = getStateObject_reads [OF assms r]
  have *: "step E s' (snd (GetCode E a s)) \<and> world_of E (snd (GetCode E a s)) = world_of E s' \<and>
      fst (GetCode E a s) = (case acct (world_of E s) a of None \<Rightarrow> [] | Some v \<Rightarrow> v_code v)"
  proof (cases r)
    case None
    with rd(3) show ?thesis by (auto simp: GetCode_def r step_refl [OF step_wf [OF rd(1)]])
  next
    case (Some obj)
    with rd(4) have o: "stateObjects s' a = Some obj" "so_address obj = a" "fakeStorage obj = None" by auto
    let ?o = "snd (Code E obj)"
    have "step E s' (setStateObject ?o s')" "world_of E (setStateObject ?o s') = world_of E s'"
      by (rule refresh_step [OF step_wf [OF rd(1)] o(1)]; simp add: obs_simps o)+
    with Some rd(3) show ?thesis by (auto simp: GetCode_def r case_prod_beta obs_simps dest: sym)
  qed
  with rd(1,2) show "fst (GetCode E a s) = (case acct (world_of E s) a of None \<Rightarrow> [] | Some v \<Rightarrow> v_code v)"
    "step E s (snd (GetCode E a s))" "world_of E (snd (GetCode E a s)) = world_of E s"
    by (auto intro: step_trans)
qed

section \<open>Creating accounts\<close>

definition create_entry :: "address \<Rightarrow> stateObject option \<Rightarrow> journalEntry" where
  "create_entry a prev = (case prev of None \<Rightarrow> createObjectChange a | Some p \<Rightarrow> resetObjectChange p)"

lemma createObject_eq:
  "createObject E a s =
     (let (prev, s1) = getDeletedStateObject E a s;
          newobj = setNonce 0 (newObject E a 0 None 0 None)
      in (newobj, prev, setStateObject newobj (journal_append (create_entry a prev) s1)))"
  by (simp add: createObject_def create_entry_def Let_def)

lemma getDeletedStateObject_reads:
  assumes "wf_state E s" "getDeletedStateObject E a s = (prev, s1)"
  shows "step E s s1" "world_of E s1 = world_of E s" "view E s1 = view E s"
    "map_option (obj_view E) prev = view E s a" "entry_ok s1 (create_entry a prev)"
    "\<And>p. prev = Some p \<Longrightarrow> so_address p = a"
proof -
  have *: "cached E s s1 \<and> map_option (obj_view E) prev = view E s a \<and> entry_ok s1 (create_entry a prev) \<and>
      (\<forall>p. prev = Some p \<longrightarrow> so_address p = a)"
    using wf_objs_wf [OF assms(1)]
  proof (cases rule: getDeletedStateObject_cases [of s E a])
    case absent
    with assms show ?thesis by (auto simp: cached_def wf_state_def create_entry_def)
  next
    case (found obj s2)
    with assms(2) have "prev = Some obj" "s1 = s2" by simp_all
    with found show ?thesis by (simp add: create_entry_def)
  qed
  then show "step E s s1" "world_of E s1 = world_of E s" "view E s1 = view E s"
    using assms(1) cached_world world_of_cong_view by (blast intro: cached_step)+
  show "map_option (obj_view E) prev = view E s a" "entry_ok s1 (create_entry a prev)"
    "\<And>p. prev = Some p \<Longrightarrow> so_address p = a" using * by auto
qed

text \<open>
  The creation entry restores the whole account, so any object may be put in its place
  without a further entry.
\<close>

lemma create_step:
  assumes "wf_state E s" "getDeletedStateObject E a s = (prev, s1)" "so_address n = a" "fakeStorage n = None"
  shows "step E s (setStateObject n (journal_append (create_entry a prev) s1))"
    "world_of E (setStateObject n (journal_append (create_entry a prev) s1)) =
       (world_of E s)\<lparr>w_accounts := (view E s)(a \<mapsto> obj_view E n)\<rparr>"
proof -
  note rd = getDeletedStateObject_reads [OF assms(1,2)]
  have wn: "world_of E (setStateObject n s1) = (world_of E s)\<lparr>w_accounts := (view E s)(a \<mapsto> obj_view E n)\<rparr>"
    by (simp add: world_of_setStateObject rd(2,3) assms(3))
  have "undo_entry E (create_entry a prev) (world_of E (setStateObject n s1)) = Some (world_of E s1)"
    unfolding wn rd(2) using rd(4,6) by (auto simp: fun_upd_idem create_entry_def split: option.splits)
  with step_wf [OF rd(1)] rd(5) assms(4)
  have "step E s1 (setStateObject n (journal_append (create_entry a prev) s1))"
    by (rule write_step)
  with rd(1) show "step E s (setStateObject n (journal_append (create_entry a prev) s1))"
    by (rule step_trans)
  show "world_of E (setStateObject n (journal_append (create_entry a prev) s1)) =
      (world_of E s)\<lparr>w_accounts := (view E s)(a \<mapsto> obj_view E n)\<rparr>"
    unfolding wn [symmetric] by (simp add: world_of_setStateObject)
qed

lemma createObject_refines:
  assumes "wf_state E s" "createObject E a s = (newobj, prev, s')"
  shows "step E s s'" "world_of E s' = (world_of E s)\<lparr>w_accounts := (view E s)(a \<mapsto> blank E)\<rparr>"
    "stateObjects s' a = Some newobj" "so_address newobj = a" "fakeStorage newobj = None"
    "\<not> deleted newobj" "obj_view E newobj = blank E"
proof -
  obtain s1 where g: "getDeletedStateObject E a s = (prev, s1)"
    and n: "newobj = setNonce 0 (newObject E a 0 None 0 None)"
    and s': "s' = setStateObject newobj (journal_append (create_entry a prev) s1)"
    using assms(2) by (auto simp: createObject_eq Let_def split: prod.splits)
  from n show "so_address newobj = a" "fakeStorage newobj = None" "\<not> deleted newobj"
      and v: "obj_view E newobj = blank E"
    by (simp_all add: obs_simps obj_view_new)
  then show "stateObjects s' a = Some newobj" by (simp add: s')
  show "step E s s'" "world_of E s' = (world_of E s)\<lparr>w_accounts := (view E s)(a \<mapsto> blank E)\<rparr>"
    using create_step [OF assms(1) g, of newobj] n unfolding s' v [symmetric] by simp_all
qed

lemma acct_not_deleted: "acct w a = Some v \<Longrightarrow> w_accounts w a = Some v \<and> \<not> v_deleted v"
  by (auto simp: acct_def split: option.splits if_splits)

lemma acct_or_blank_live [simp]: "\<not> v_deleted (acct_or_blank E w a)"
  by (auto simp: acct_or_blank_def dest: acct_not_deleted split: option.splits)

lemma GetOrNewStateObject_refines:
  assumes "wf_state E s" "GetOrNewStateObject E a s = (obj, s')"
  shows "step E s s' \<and> world_of E s' = on_account E a (\<lambda>v. v) (world_of E s) \<and>
    stateObjects s' a = Some obj \<and> so_address obj = a \<and> fakeStorage obj = None \<and>
    \<not> deleted obj \<and> obj_view E obj = acct_or_blank E (world_of E s) a"
proof -
  obtain r s1 where r: "getStateObject E a s = (r, s1)" by fastforce
  note rd = getStateObject_reads [OF assms(1) r]
  show ?thesis
  proof (cases r)
    case (Some ob)
    then have "obj = ob" "s' = s1" using assms(2) r by (simp_all add: GetOrNewStateObject_def)
    moreover have "acct (world_of E s) a = Some (obj_view E ob)" using rd(3) Some by simp
    ultimately show ?thesis
      using rd(1,2,4) Some acct_not_deleted [of "world_of E s" a]
      by (auto simp: on_account_def acct_or_blank_def fun_upd_idem)
  next
    case None
    obtain p where c: "createObject E a s1 = (obj, p, s')"
      using assms(2) r None by (auto simp: GetOrNewStateObject_def split: prod.splits)
    have "acct (world_of E s) a = None" using rd(3) None by simp
    moreover have "view E s1 = view E s" by (rule world_of_cong_view) (rule rd(2))
    ultimately show ?thesis
      using createObject_refines(1-7) [OF step_wf [OF rd(1)] c] rd(2) step_trans [OF rd(1)]
      by (simp add: on_account_def acct_or_blank_def)
  qed
qed

lemma setStateObject_twice [simp]:
  "so_address o1 = so_address o2 \<Longrightarrow> setStateObject o2 (setStateObject o1 s) = setStateObject o2 s"
  by (simp add: setStateObject_def)

definition created :: "env \<Rightarrow> address \<Rightarrow> world \<Rightarrow> world" where
  "created E a w =
     w\<lparr>w_accounts := (w_accounts w)(a \<mapsto> (blank E)\<lparr>v_balance :=
          (case w_accounts w a of None \<Rightarrow> 0 | Some v \<Rightarrow> v_balance v)\<rparr>)\<rparr>"

lemma blank_same [simp]: "(blank E)\<lparr>v_balance := 0\<rparr> = blank E" "(blank E)\<lparr>v_nonce := 0\<rparr> = blank E"
  by (cases "blank E", use blank_fields [of E] in simp)+

lemma CreateAccount_refines:
  assumes "wf_state E s"
  shows "step E s (CreateAccount E a s)" "world_of E (CreateAccount E a s) = created E a (world_of E s)"
proof -
  obtain prev s1 where g: "getDeletedStateObject E a s = (prev, s1)" by fastforce
  let ?n = "setNonce 0 (newObject E a 0 None 0 None)"
  let ?m = "case prev of None \<Rightarrow> ?n | Some p \<Rightarrow> setBalance (Balance (so_data p)) ?n"
  have eq: "CreateAccount E a s = setStateObject ?m (journal_append (create_entry a prev) s1)"
    by (simp add: CreateAccount_def createObject_eq g Let_def split: option.split)
  have "so_address ?m = a" "fakeStorage ?m = None" by (simp_all split: option.split)
  note st = create_step [OF assms g this]
  then show "step E s (CreateAccount E a s)" by (simp add: eq)
  have "obj_view E ?m = (blank E)\<lparr>v_balance := (case view E s a of None \<Rightarrow> 0 | Some v \<Rightarrow> v_balance v)\<rparr>"
    unfolding getDeletedStateObject_reads(4) [OF assms g, symmetric]
    by (simp add: obs_simps obj_view_new split: option.split)
  then show "world_of E (CreateAccount E a s) = created E a (world_of E s)"
    using st(2) by (simp add: eq created_def)
qed

section \<open>Writing fields\<close>

lemma on_account_twice [simp]:
  "on_account E a f (on_account E a (\<lambda>v. v) w) = on_account E a f w"
  by (simp add: on_account_def acct_or_blank_def [of E "w\<lparr>w_accounts := x\<rparr>" for x] acct_def)

text \<open>
  A write to a live object with an entry that restores the field: the scheme of all the
  setters of \<^verbatim>\<open>state_object.go\<close>.
\<close>

lemma field_step:
  assumes "wf_state E s" "GetOrNewStateObject E a s = (obj, s1)"
    and "so_address obj' = a" "fakeStorage obj' = None" "deleted obj' = deleted obj"
    and "obj_view E obj' = f (obj_view E obj)"
    and "entry_ok s1 e" "\<And>w. undo_entry E e w = undo_account a g w"
    and "g (f (obj_view E obj)) = obj_view E obj"
  shows "step E s (setStateObject obj' (journal_append e s1)) \<and>
         world_of E (setStateObject obj' (journal_append e s1)) = on_account E a f (world_of E s)"
proof -
  from GetOrNewStateObject_refines [OF assms(1,2)] have
    st: "step E s s1" and w1: "world_of E s1 = on_account E a (\<lambda>v. v) (world_of E s)" and
    o: "stateObjects s1 a = Some obj" "\<not> deleted obj" and
    v: "obj_view E obj = acct_or_blank E (world_of E s) a" by simp_all
  have va: "view E s1 a = Some (obj_view E obj)" using o(1) by (simp add: view_def)
  have wn: "world_of E (setStateObject obj' s1) =
      (world_of E s1)\<lparr>w_accounts := (view E s1)(a \<mapsto> f (obj_view E obj))\<rparr>"
    by (simp add: world_of_setStateObject assms(3,6))
  have "\<not> v_deleted (f (obj_view E obj))"
    unfolding assms(6) [symmetric] using o(2) assms(5) by simp
  then have "undo_entry E e (world_of E (setStateObject obj' s1)) = Some (world_of E s1)"
    unfolding wn assms(8) using va assms(9)
    by (simp add: undo_account_def fun_upd_idem)
  with step_wf [OF st] assms(7,4) have "step E s1 (setStateObject obj' (journal_append e s1))"
    by (rule write_step)
  with st have "step E s (setStateObject obj' (journal_append e s1))" by (rule step_trans)
  moreover have "world_of E (setStateObject obj' (journal_append e s1)) = on_account E a f (world_of E s)"
  proof -
    have "world_of E (setStateObject obj' (journal_append e s1)) = world_of E (setStateObject obj' s1)"
      by (simp add: world_of_setStateObject)
    also have "\<dots> = on_account E a f (world_of E s1)"
      unfolding wn using va o(2) by (simp add: on_account_def acct_or_blank_def acct_def)
    finally show ?thesis by (simp add: w1)
  qed
  ultimately show ?thesis ..
qed

lemma obj_view_restore:
  "(obj_view E obj)\<lparr>v_balance := Balance (so_data obj)\<rparr> = obj_view E obj"
  "(obj_view E obj)\<lparr>v_nonce := Nonce (so_data obj)\<rparr> = obj_view E obj"
  "(obj_view E obj)\<lparr>v_storage := storage_view E obj\<rparr> = obj_view E obj"
  "(obj_view E obj)\<lparr>v_codehash := CodeHash (so_data obj), v_code := code_view E obj\<rparr> = obj_view E obj"
  "(obj_view E obj)\<lparr>v_balance := Balance (so_data obj), v_suicided := suicided obj\<rparr> = obj_view E obj"
  by (simp_all add: obj_view_def)

lemma GetOrNewStateObject_live:
  assumes "wf_state E s" "GetOrNewStateObject E a s = (obj, s1)"
  shows "so_address obj = a" "fakeStorage obj = None" "\<not> deleted obj"
  using GetOrNewStateObject_refines [OF assms] by simp_all

lemma so_SetBalance_refines:
  assumes "wf_state E s" "GetOrNewStateObject E a s = (obj, s1)"
  shows "step E s (so_SetBalance b obj s1) \<and>
         world_of E (so_SetBalance b obj s1) = on_account E a (\<lambda>v. v\<lparr>v_balance := b\<rparr>) (world_of E s)"
  unfolding so_SetBalance_def
  by (rule field_step [OF assms, where g = "\<lambda>v. v\<lparr>v_balance := Balance (so_data obj)\<rparr>"])
    (use GetOrNewStateObject_live [OF assms] in \<open>simp_all add: obs_simps obj_view_restore\<close>)

lemma SetBalance_refines:
  assumes "wf_state E s"
  shows "step E s (SetBalance E a b s)"
    "world_of E (SetBalance E a b s) = on_account E a (\<lambda>v. v\<lparr>v_balance := b\<rparr>) (world_of E s)"
  using so_SetBalance_refines [OF assms, of a "fst (GetOrNewStateObject E a s)" "snd (GetOrNewStateObject E a s)"]
  by (simp_all add: SetBalance_def case_prod_beta)

lemma on_account_cong: "f (acct_or_blank E w a) = g (acct_or_blank E w a) \<Longrightarrow> on_account E a f w = on_account E a g w"
  by (simp add: on_account_def)

lemma touch_step:
  assumes "wf_state E s"
  shows "step E s (touch obj s)" "world_of E (touch obj s) = world_of E s"
proof -
  have v: "view E (touch obj s) = view E s"
    by (simp add: touch_def journal_dirty_def Let_def fun_eq_iff view_def split: option.split)
  then show w: "world_of E (touch obj s) = world_of E s"
    by (intro world_of_eqI) (simp_all add: touch_def journal_dirty_def Let_def)
  have "dirties_ok (dirties (touch obj s)) (entries s @ [touchChange (so_address obj)])"
    using dirties_ok_append [of s "touchChange (so_address obj)"] assms
    by (auto simp: touch_def journal_dirty_def Let_def wf_state_def dirties_ok_def)
  then show "step E s (touch obj s)"
    by (intro prim_step [OF assms, where e = "touchChange (so_address obj)"])
      (use assms w in \<open>simp_all add: touch_def journal_dirty_def Let_def wf_state_def wf_objs_def\<close>)
qed

lemma AddBalance_refines:
  assumes "wf_state E s"
  shows "step E s (AddBalance E a n s)"
    "world_of E (AddBalance E a n s) =
       on_account E a (\<lambda>v. v\<lparr>v_balance := v_balance v + n\<rparr>) (world_of E s)"
proof -
  obtain obj s1 where g: "GetOrNewStateObject E a s = (obj, s1)" by fastforce
  note gn = GetOrNewStateObject_refines [OF assms g]
  have bal: "Balance (so_data obj) = v_balance (acct_or_blank E (world_of E s) a)"
    using gn by (metis v_fields_obj_view(2))
  let ?f = "\<lambda>v. v\<lparr>v_balance := v_balance v + n\<rparr>"
  have "step E s (AddBalance E a n s) \<and> world_of E (AddBalance E a n s) = on_account E a ?f (world_of E s)"
  proof (cases "n = 0")
    case True
    then have "on_account E a ?f (world_of E s) = world_of E s1"
      using gn by (simp add: on_account_def)
    with True gn touch_step [of E s1 obj] show ?thesis
      by (auto simp: AddBalance_def g intro: step_trans dest: step_wf)
  next
    case False
    have "on_account E a ?f (world_of E s) =
        on_account E a (\<lambda>v. v\<lparr>v_balance := Balance (so_data obj) + n\<rparr>) (world_of E s)"
      by (rule on_account_cong) (simp add: bal)
    with False so_SetBalance_refines [OF assms g] show ?thesis by (simp add: AddBalance_def g)
  qed
  then show "step E s (AddBalance E a n s)" "world_of E (AddBalance E a n s) = on_account E a ?f (world_of E s)"
    by blast+
qed

lemma SubBalance_refines:
  assumes "wf_state E s"
  shows "step E s (SubBalance E a n s)"
    "world_of E (SubBalance E a n s) =
       on_account E a (\<lambda>v. v\<lparr>v_balance := v_balance v - n\<rparr>) (world_of E s)"
proof -
  obtain obj s1 where g: "GetOrNewStateObject E a s = (obj, s1)" by fastforce
  note gn = GetOrNewStateObject_refines [OF assms g]
  have bal: "Balance (so_data obj) = v_balance (acct_or_blank E (world_of E s) a)"
    using gn by (metis v_fields_obj_view(2))
  let ?f = "\<lambda>v. v\<lparr>v_balance := v_balance v - n\<rparr>"
  have "on_account E a ?f (world_of E s) =
        on_account E a (\<lambda>v. v\<lparr>v_balance := Balance (so_data obj) - n\<rparr>) (world_of E s)"
    by (rule on_account_cong) (simp add: bal)
  moreover have "n = 0 \<Longrightarrow> on_account E a ?f (world_of E s) = world_of E s1"
    using gn by (simp add: on_account_def)
  ultimately show "step E s (SubBalance E a n s)"
      "world_of E (SubBalance E a n s) = on_account E a ?f (world_of E s)"
    using gn so_SetBalance_refines [OF assms g] by (auto simp: SubBalance_def g)
qed

lemma SetNonce_refines:
  assumes "wf_state E s"
  shows "step E s (SetNonce E a n s)"
    "world_of E (SetNonce E a n s) = on_account E a (\<lambda>v. v\<lparr>v_nonce := n\<rparr>) (world_of E s)"
proof -
  obtain obj s1 where g: "GetOrNewStateObject E a s = (obj, s1)" by fastforce
  note lv = GetOrNewStateObject_live [OF assms g]
  have "step E s (SetNonce E a n s) \<and>
      world_of E (SetNonce E a n s) = on_account E a (\<lambda>v. v\<lparr>v_nonce := n\<rparr>) (world_of E s)"
    unfolding SetNonce_def g Let_def prod.case
    by (rule field_step [OF assms g, where g = "\<lambda>v. v\<lparr>v_nonce := Nonce (so_data obj)\<rparr>"])
      (use lv in \<open>simp_all add: obs_simps obj_view_restore\<close>)
  then show "step E s (SetNonce E a n s)"
    "world_of E (SetNonce E a n s) = on_account E a (\<lambda>v. v\<lparr>v_nonce := n\<rparr>) (world_of E s)" by blast+
qed

lemma SetCode_refines:
  assumes "wf_state E s"
  shows "step E s (SetCode E a c s)"
    "world_of E (SetCode E a c s) =
       on_account E a (\<lambda>v. v\<lparr>v_codehash := e_keccak E c, v_code := c\<rparr>) (world_of E s)"
proof -
  obtain obj s1 where g: "GetOrNewStateObject E a s = (obj, s1)" by fastforce
  note lv = GetOrNewStateObject_live [OF assms g]
  let ?o = "snd (Code E obj)"
  have c: "code_of E (e_keccak E c) (Some c) = c" by (simp add: code_of_def)
  have "step E s (SetCode E a c s) \<and> world_of E (SetCode E a c s) =
       on_account E a (\<lambda>v. v\<lparr>v_codehash := e_keccak E c, v_code := c\<rparr>) (world_of E s)"
    unfolding SetCode_def g Let_def prod.case case_prod_beta fst_conv snd_conv
    by (rule field_step [OF assms g, where g = "\<lambda>v. v\<lparr>v_codehash := CodeHash (so_data obj),
            v_code := code_of E (CodeHash (so_data obj)) (fst (Code E obj))\<rparr>"])
      (use lv in \<open>simp_all add: obs_simps obj_view_restore code_of_Code c\<close>)
  then show "step E s (SetCode E a c s)" "world_of E (SetCode E a c s) =
       on_account E a (\<lambda>v. v\<lparr>v_codehash := e_keccak E c, v_code := c\<rparr>) (world_of E s)" by blast+
qed

lemma SetState_refines:
  assumes "wf_state E s"
  shows "step E s (SetState E a k x s)"
    "world_of E (SetState E a k x s) =
       on_account E a (\<lambda>v. v\<lparr>v_storage := (v_storage v)(k := x)\<rparr>) (world_of E s)"
proof -
  obtain obj s1 where g: "GetOrNewStateObject E a s = (obj, s1)" by fastforce
  note lv = GetOrNewStateObject_live [OF assms g] and gn = GetOrNewStateObject_refines [OF assms g]
  let ?o = "snd (so_GetState E k obj)" and ?f = "\<lambda>v. v\<lparr>v_storage := (v_storage v)(k := x)\<rparr>"
  have "step E s (SetState E a k x s) \<and> world_of E (SetState E a k x s) = on_account E a ?f (world_of E s)"
  proof (cases "storage_view E obj k = x")
    case True
    then have eq: "SetState E a k x s = setStateObject ?o s1"
      by (simp add: SetState_def g lv case_prod_beta obs_simps)
    from gn have s1: "wf_state E s1" "stateObjects s1 a = Some obj" by (auto dest: step_wf)
    have "step E s1 (setStateObject ?o s1)" "world_of E (setStateObject ?o s1) = world_of E s1"
      by (rule refresh_step [OF s1]; simp add: obj_view_GetState lv)+
    moreover have "on_account E a ?f (world_of E s) = on_account E a (\<lambda>v. v) (world_of E s)"
      using gn True by (intro on_account_cong) (metis fun_upd_triv obj_view_restore(3) v_fields_obj_view(5))
    ultimately show ?thesis using gn eq by (metis step_trans)
  next
    case False
    have eq: "SetState E a k x s = setStateObject (setState k x ?o)
        (journal_append (storageChange (so_address ?o) k (storage_view E obj k)) s1)"
      using False by (simp add: SetState_def g lv case_prod_beta obs_simps)
    show ?thesis unfolding eq
      by (rule field_step [OF assms g, where g = "\<lambda>v. v\<lparr>v_storage := (v_storage v)(k := storage_view E obj k)\<rparr>"])
        (use lv in \<open>simp_all add: obs_simps obj_view_restore\<close>)
  qed
  then show "step E s (SetState E a k x s)"
    "world_of E (SetState E a k x s) = on_account E a ?f (world_of E s)" by blast+
qed

definition killed :: "address \<Rightarrow> world \<Rightarrow> world" where
  "killed a w =
     (case acct w a of
        None \<Rightarrow> w
      | Some v \<Rightarrow> w\<lparr>w_accounts := (w_accounts w)(a \<mapsto> v\<lparr>v_suicided := True, v_balance := 0\<rparr>)\<rparr>)"

lemma markSuicided_frame [simp]:
  "so_address (markSuicided obj) = so_address obj" "fakeStorage (markSuicided obj) = fakeStorage obj"
  "deleted (markSuicided obj) = deleted obj"
  by (simp_all add: markSuicided_def)

lemma Suicide_refines:
  assumes "wf_state E s"
  shows "step E s (snd (Suicide E a s))" "world_of E (snd (Suicide E a s)) = killed a (world_of E s)"
    "fst (Suicide E a s) = (acct (world_of E s) a \<noteq> None)"
proof -
  obtain r s1 where r: "getStateObject E a s = (r, s1)" by fastforce
  note rd = getStateObject_reads [OF assms r]
  have "step E s (snd (Suicide E a s)) \<and> world_of E (snd (Suicide E a s)) = killed a (world_of E s) \<and>
      fst (Suicide E a s) = (acct (world_of E s) a \<noteq> None)"
  proof (cases r)
    case None
    with rd show ?thesis by (auto simp: Suicide_def r killed_def split: option.splits)
  next
    case (Some obj)
    let ?o = "setBalance 0 (markSuicided obj)" and ?e = "suicideChange a (suicided obj) (Balance (so_data obj))"
    from rd(4) [OF Some] have o: "stateObjects s1 a = Some obj" "so_address obj = a" "fakeStorage obj = None"
      "\<not> deleted obj" by simp_all
    have m: "so_address ?o = a" "fakeStorage ?o = None" "\<not> deleted ?o"
      "obj_view E ?o = (obj_view E obj)\<lparr>v_suicided := True, v_balance := 0\<rparr>"
      using o by (simp_all add: markSuicided_def obs_simps)
    have v1: "view E s1 a = Some (obj_view E obj)" using o(1) by (simp add: view_def)
    have wn: "world_of E (setStateObject ?o s1) =
        (world_of E s1)\<lparr>w_accounts := (view E s1)(a \<mapsto> obj_view E ?o)\<rparr>"
      by (simp add: world_of_setStateObject o(2))
    have "undo_entry E ?e (world_of E (setStateObject ?o s1)) = Some (world_of E s1)"
      unfolding wn m(4) using v1 o(4) by (simp add: undo_account_def obj_view_restore fun_upd_idem)
    with step_wf [OF rd(1)] _ m(2) have "step E s1 (setStateObject ?o (journal_append ?e s1))"
      by (rule write_step) simp
    moreover have "acct (world_of E s) a = Some (obj_view E obj)" using rd(3) Some by simp
    moreover have "world_of E (setStateObject ?o (journal_append ?e s1)) = killed a (world_of E s)"
      using calculation(2) world_of_cong_view [OF rd(2)]
      by (simp add: world_of_setStateObject m o(2) rd(2) killed_def)
    ultimately show ?thesis using rd(1) Some by (auto simp: Suicide_def r intro: step_trans)
  qed
  then show "step E s (snd (Suicide E a s))" "world_of E (snd (Suicide E a s)) = killed a (world_of E s)"
    "fst (Suicide E a s) = (acct (world_of E s) a \<noteq> None)" by blast+
qed

section \<open>Logs, preimages and the refund counter\<close>

lemma view_other [simp]:
  "view E (s\<lparr>refund := r\<rparr>) = view E s" "view E (s\<lparr>preimages := p\<rparr>) = view E s"
  "view E (s\<lparr>logs := l, logSize := n\<rparr>) = view E s"
  by (simp_all add: fun_eq_iff view_def split: option.split)

text \<open>A step that journals an entry and writes a counter, the logs or the preimages.\<close>

lemma append_step:
  assumes "wf_state E s" "entry_ok s e" "stateObjects s' = stateObjects s" "db_trie s' = db_trie s"
    "entries s' = entries s @ [e]" "dirties s' = dirties (journal_append e s)"
    "validRevisions s' = validRevisions s" "nextRevisionId s' = nextRevisionId s"
    "undo_entry E e (world_of E s') = Some (world_of E s)"
  shows "step E s s'"
  by (rule prim_step [OF assms(1) _ assms(2,5,4,7,8) _ assms(9)])
    (use assms(1,3,6) in \<open>simp_all add: wf_state_def wf_objs_def dirties_ok_append\<close>)

lemma AddRefund_refines:
  assumes "wf_state E s"
  shows "step E s (AddRefund g s)"
    "world_of E (AddRefund g s) = (world_of E s)\<lparr>w_refund := w_refund (world_of E s) + g\<rparr>"
proof -
  show w: "world_of E (AddRefund g s) = (world_of E s)\<lparr>w_refund := w_refund (world_of E s) + g\<rparr>"
    by (simp add: world_of_def AddRefund_def GetLogs_def)
  have "undo_entry E (refundChange (refund s)) (world_of E (AddRefund g s)) = Some (world_of E s)"
    unfolding w by (simp add: world_of_def)
  then show "step E s (AddRefund g s)"
    by (intro append_step [OF assms, where e = "refundChange (refund s)"]) (simp_all add: AddRefund_def)
qed

lemma SubRefund_refines:
  assumes "wf_state E s"
  shows "g \<le> refund s \<Longrightarrow> \<exists>s'. SubRefund g s = Some s' \<and> step E s s' \<and>
           world_of E s' = (world_of E s)\<lparr>w_refund := w_refund (world_of E s) - g\<rparr>"
    "refund s < g \<Longrightarrow> SubRefund g s = None"
proof -
  let ?s = "(journal_append (refundChange (refund s)) s)\<lparr>refund := refund s - g\<rparr>"
  have w: "world_of E ?s = (world_of E s)\<lparr>w_refund := w_refund (world_of E s) - g\<rparr>"
    by (simp add: world_of_def GetLogs_def)
  have "undo_entry E (refundChange (refund s)) (world_of E ?s) = Some (world_of E s)"
    unfolding w by (simp add: world_of_def)
  then have "step E s ?s" by (intro append_step [OF assms, where e = "refundChange (refund s)"]) simp_all
  with w show "\<exists>s'. SubRefund g s = Some s' \<and> step E s s' \<and>
      world_of E s' = (world_of E s)\<lparr>w_refund := w_refund (world_of E s) - g\<rparr>" if "g \<le> refund s"
    using that by (intro exI [of _ ?s]) (simp add: SubRefund_def Let_def)
  show "SubRefund g s = None" if "refund s < g" using that by (simp add: SubRefund_def)
qed

lemma AddPreimage_refines:
  assumes "wf_state E s"
  shows "step E s (AddPreimage h p s)"
    "world_of E (AddPreimage h p s) =
       (if w_preimages (world_of E s) h = None
        then (world_of E s)\<lparr>w_preimages := (w_preimages (world_of E s))(h \<mapsto> p)\<rparr> else world_of E s)"
proof -
  show w: "world_of E (AddPreimage h p s) =
       (if w_preimages (world_of E s) h = None
        then (world_of E s)\<lparr>w_preimages := (w_preimages (world_of E s))(h \<mapsto> p)\<rparr> else world_of E s)"
    by (auto simp: world_of_def AddPreimage_def GetLogs_def split: option.split)
  show "step E s (AddPreimage h p s)"
  proof (cases "preimages s h")
    case None
    then have "undo_entry E (addPreimageChange h) (world_of E (AddPreimage h p s)) = Some (world_of E s)"
      unfolding w by (simp add: world_of_def fun_upd_idem)
    then show ?thesis
      by (intro append_step [OF assms, where e = "addPreimageChange h"]) (simp_all add: AddPreimage_def None)
  qed (simp add: AddPreimage_def step_refl [OF assms])
qed

definition logged :: "StateDB \<Rightarrow> Log \<Rightarrow> world \<Rightarrow> world" where
  "logged s l w =
     w\<lparr>w_logs := (w_logs w)(thash s := w_logs w (thash s) @
          [l\<lparr>log_TxHash := thash s, log_BlockHash := bhash s, log_TxIndex := txIndex s, log_Index := w_logSize w\<rparr>]),
       w_logSize := w_logSize w + 1\<rparr>"

lemma AddLog_refines:
  assumes "wf_state E s"
  shows "step E s (AddLog l s)" "world_of E (AddLog l s) = logged s l (world_of E s)"
proof -
  show w: "world_of E (AddLog l s) = logged s l (world_of E s)"
    by (auto simp: world_of_def AddLog_def logged_def GetLogs_def Let_def fun_eq_iff)
  have "undo_entry E (addLogChange (thash s)) (world_of E (AddLog l s)) = Some (world_of E s)"
    unfolding w by (simp add: logged_def)
  then show "step E s (AddLog l s)"
    by (intro append_step [OF assms, where e = "addLogChange (thash s)"]) (simp_all add: AddLog_def Let_def)
qed

section \<open>The contract of a state with snapshots\<close>

text \<open>
  What a client of the state relies on: \<open>snapshot\<close> saves the current world under a fresh
  identifier, \<open>revert\<close> returns to a saved world and forgets the later ones, and panics on an
  identifier that is not saved. \<open>extends s s'\<close> says that \<open>s'\<close> still holds all copies saved in \<open>s\<close>.
\<close>

locale snapshotting =
  fixes valid :: "'s \<Rightarrow> bool"
    and world :: "'s \<Rightarrow> 'w"
    and saved :: "'s \<Rightarrow> (nat \<times> 'w) list"
    and snapshot :: "'s \<Rightarrow> nat \<times> 's"
    and revert :: "nat \<Rightarrow> 's \<Rightarrow> 's option"
  assumes ids_sorted: "valid s \<Longrightarrow> sorted_wrt (<) (map fst (saved s))"
    and snapshot_law: "valid s \<Longrightarrow> snapshot s = (rid, s') \<Longrightarrow>
          valid s' \<and> world s' = world s \<and> saved s' = saved s @ [(rid, world s)]"
    and revert_law: "valid s \<Longrightarrow> i < length (saved s) \<Longrightarrow> saved s ! i = (rid, w) \<Longrightarrow>
          \<exists>s'. revert rid s = Some s' \<and> valid s' \<and> world s' = w \<and> saved s' = take i (saved s)"
    and revert_missing: "rid \<notin> fst ` set (saved s) \<Longrightarrow> revert rid s = None"
begin

definition extends :: "'s \<Rightarrow> 's \<Rightarrow> bool" where
  "extends s s' \<longleftrightarrow> valid s' \<and> prefix (saved s) (saved s')"

lemma extends_refl: "valid s \<Longrightarrow> extends s s"
  by (simp add: extends_def)

lemma extends_trans: "extends s1 s2 \<Longrightarrow> extends s2 s3 \<Longrightarrow> extends s1 s3"
  unfolding extends_def using prefix_order.trans by blast

lemma extends_valid: "extends s s' \<Longrightarrow> valid s'"
  by (simp add: extends_def)

lemma extends_same: "valid s' \<Longrightarrow> saved s' = saved s \<Longrightarrow> extends s s'"
  by (simp add: extends_def)

lemma extends_snapshot: "valid s \<Longrightarrow> snapshot s = (rid, s') \<Longrightarrow> extends s s'"
  using snapshot_law [of s rid s'] by (simp add: extends_def)

text \<open>Whatever happened since the snapshot, reverting to it restores the world.\<close>

lemma revert_restores:
  assumes "valid s" "snapshot s = (rid, s1)" "extends s1 s2"
  shows "\<exists>s3. revert rid s2 = Some s3 \<and> valid s3 \<and> world s3 = world s \<and> saved s3 = saved s"
proof -
  from snapshot_law [OF assms(1,2)] have "saved s1 = saved s @ [(rid, world s)]" by simp
  with assms(3) obtain t where t: "saved s2 = saved s @ (rid, world s) # t"
    by (auto simp: extends_def prefix_def)
  with revert_law [of s2 "length (saved s)" rid "world s"] assms(3) show ?thesis
    by (auto simp: extends_def)
qed

text \<open>Reverting to a later snapshot keeps the earlier copies.\<close>

lemma inner_revert:
  assumes "extends s1 s2" "\<forall>r \<in> fst ` set (saved s1). r < rid" "revert rid s2 = Some s3"
  shows "extends s1 s3"
proof -
  from assms(3) have "rid \<in> fst ` set (saved s2)" using revert_missing by force
  then obtain i w where i: "i < length (saved s2)" "saved s2 ! i = (rid, w)"
    by (auto simp: in_set_conv_nth)
  with revert_law [of s2 i rid w] assms(1,3) have s3: "valid s3" "saved s3 = take i (saved s2)"
    by (auto simp: extends_def)
  obtain t where t: "saved s2 = saved s1 @ t" using assms(1) by (auto simp: extends_def prefix_def)
  have "length (saved s1) \<le> i"
  proof (rule ccontr)
    assume "\<not> length (saved s1) \<le> i"
    then have "(rid, w) \<in> set (saved s1)" using i t by (metis not_less nth_append nth_mem)
    then show False using assms(2) by force
  qed
  then show ?thesis using s3 t by (auto simp: extends_def)
qed

end

lemma map_fst_snaps [simp]: "map fst (snaps E s) = map fst (validRevisions s)"
  by (auto simp: snaps_def)

interpretation db: snapshotting "wf_state E" "world_of E" "snaps E" Snapshot "RevertToSnapshot E" for E
proof
  show "sorted_wrt (<) (map fst (snaps E s))" if "wf_state E s" for s
    using that by (simp add: wf_state_def revisions_ok_def)
  show "wf_state E s' \<and> world_of E s' = world_of E s \<and> snaps E s' = snaps E s @ [(rid, world_of E s)]"
    if "wf_state E s" "Snapshot s = (rid, s')" for s rid s'
    using Snapshot_refines [OF that] by simp
  show "\<exists>s'. RevertToSnapshot E rid s = Some s' \<and> wf_state E s' \<and> world_of E s' = w \<and> snaps E s' = take i (snaps E s)"
    if "wf_state E s" "i < length (snaps E s)" "snaps E s ! i = (rid, w)" for s i rid w
    using RevertToSnapshot_refines [OF that] by blast
  show "RevertToSnapshot E rid s = None" if "rid \<notin> fst ` set (snaps E s)" for rid s
    using that by (rule RevertToSnapshot_missing)
qed

lemma step_extends: "wf_state E s \<Longrightarrow> step E s s' \<Longrightarrow> db.extends E s s'"
  by (simp add: db.extends_def step_wf step_snaps)

section \<open>Sequences of operations\<close>

text \<open>The exported methods of \<^verbatim>\<open>StateDB\<close> the EVM calls, as operations of a machine.\<close>

datatype op =
    Op_CreateAccount address
  | Op_AddBalance address int
  | Op_SubBalance address int
  | Op_SetBalance address int
  | Op_SetNonce address u64
  | Op_SetCode address bytes
  | Op_SetState address hash hash
  | Op_Suicide address
  | Op_AddLog Log
  | Op_AddPreimage hash bytes
  | Op_AddRefund u64
  | Op_SubRefund u64
  | Op_GetBalance address
  | Op_GetNonce address
  | Op_GetCode address
  | Op_GetState address hash
  | Op_Exist address
  | Op_Empty address
  | Op_Snapshot
  | Op_RevertToSnapshot nat

fun exec :: "env \<Rightarrow> op \<Rightarrow> StateDB \<Rightarrow> StateDB option" where
  "exec E (Op_CreateAccount a) s = Some (CreateAccount E a s)"
| "exec E (Op_AddBalance a n) s = Some (AddBalance E a n s)"
| "exec E (Op_SubBalance a n) s = Some (SubBalance E a n s)"
| "exec E (Op_SetBalance a n) s = Some (SetBalance E a n s)"
| "exec E (Op_SetNonce a n) s = Some (SetNonce E a n s)"
| "exec E (Op_SetCode a c) s = Some (SetCode E a c s)"
| "exec E (Op_SetState a k v) s = Some (SetState E a k v s)"
| "exec E (Op_Suicide a) s = Some (snd (Suicide E a s))"
| "exec E (Op_AddLog l) s = Some (AddLog l s)"
| "exec E (Op_AddPreimage h p) s = Some (AddPreimage h p s)"
| "exec E (Op_AddRefund g) s = Some (AddRefund g s)"
| "exec E (Op_SubRefund g) s = SubRefund g s"
| "exec E (Op_GetBalance a) s = Some (snd (GetBalance E a s))"
| "exec E (Op_GetNonce a) s = Some (snd (GetNonce E a s))"
| "exec E (Op_GetCode a) s = Some (snd (GetCode E a s))"
| "exec E (Op_GetState a k) s = Some (snd (GetState E a k s))"
| "exec E (Op_Exist a) s = Some (snd (Exist E a s))"
| "exec E (Op_Empty a) s = Some (snd (Empty E a s))"
| "exec E Op_Snapshot s = Some (snd (Snapshot s))"
| "exec E (Op_RevertToSnapshot r) s = RevertToSnapshot E r s"

fun execs :: "env \<Rightarrow> op list \<Rightarrow> StateDB \<Rightarrow> StateDB option" where
  "execs E [] s = Some s"
| "execs E (x # xs) s = (case exec E x s of None \<Rightarrow> None | Some s' \<Rightarrow> execs E xs s')"

lemmas op_steps =
  CreateAccount_refines(1) AddBalance_refines(1) SubBalance_refines(1) SetBalance_refines(1)
  SetNonce_refines(1) SetCode_refines(1) SetState_refines(1) Suicide_refines(1) AddLog_refines(1)
  AddPreimage_refines(1) AddRefund_refines(1) read_steps(1,3,5,7) GetCode_refines(2) GetState_refines(2)

text \<open>Every operation but a revert keeps the saved copies; a revert drops the later ones.\<close>

lemma exec_step:
  assumes "wf_state E s" "exec E x s = Some s'" "x \<noteq> Op_Snapshot" "\<And>r. x \<noteq> Op_RevertToSnapshot r"
  shows "step E s s'"
proof (cases x)
  case (Op_SubRefund g)
  with assms(2) SubRefund_refines [OF assms(1), of g] show ?thesis by (cases "refund s < g") auto
qed (use assms in \<open>auto intro: op_steps\<close>)

lemma exec_extends:
  assumes "db.extends E s0 s" "exec E x s = Some s'"
    and "\<And>r. x = Op_RevertToSnapshot r \<Longrightarrow> \<forall>q \<in> fst ` set (snaps E s0). q < r"
  shows "db.extends E s0 s'"
proof -
  from assms(1) have v: "wf_state E s" by (rule db.extends_valid)
  consider (snap) "x = Op_Snapshot" | (rev) r where "x = Op_RevertToSnapshot r"
    | (other) "x \<noteq> Op_Snapshot" "\<And>r. x \<noteq> Op_RevertToSnapshot r" by blast
  then show ?thesis
  proof cases
    case snap
    have "db.extends E s (snd (Snapshot s))"
      by (rule db.extends_snapshot [OF v, of "fst (Snapshot s)"]) simp
    with snap assms(1,2) show ?thesis by (auto intro: db.extends_trans)
  next
    case rev
    with assms show ?thesis by (auto intro: db.inner_revert)
  next
    case other
    with v assms(2) have "step E s s'" by (intro exec_step)
    with v have "db.extends E s s'" by (rule step_extends)
    with assms(1) show ?thesis by (rule db.extends_trans)
  qed
qed

lemma execs_extends:
  assumes "db.extends E s0 s" "execs E xs s = Some s'"
    and "\<forall>r. Op_RevertToSnapshot r \<in> set xs \<longrightarrow> (\<forall>q \<in> fst ` set (snaps E s0). q < r)"
  shows "db.extends E s0 s'"
  using assms
proof (induction xs arbitrary: s)
  case (Cons x xs)
  from Cons.prems(2) obtain s1 where s1: "exec E x s = Some s1" "execs E xs s1 = Some s'"
    by (auto split: option.splits)
  have "\<forall>q \<in> fst ` set (snaps E s0). q < r" if "x = Op_RevertToSnapshot r" for r
    using Cons.prems(3) that by (metis list.set_intros(1))
  with Cons.prems(1) s1(1) have "db.extends E s0 s1" by (rule exec_extends)
  moreover have "\<forall>r. Op_RevertToSnapshot r \<in> set xs \<longrightarrow> (\<forall>q \<in> fst ` set (snaps E s0). q < r)"
    using Cons.prems(3) by (metis list.set_intros(2))
  ultimately show ?case using s1(2) by (intro Cons.IH)
qed simp

lemma wf_state_New [simp]: "wf_state E (state_New tr)"
  by (simp add: wf_state_def wf_objs_def dirties_ok_def revisions_ok_def state_New_def)

lemma exec_wf:
  assumes "wf_state E s" "exec E x s = Some s'"
  shows "wf_state E s'"
proof -
  consider (snap) "x = Op_Snapshot" | (rev) r where "x = Op_RevertToSnapshot r"
    | (other) "x \<noteq> Op_Snapshot" "\<And>r. x \<noteq> Op_RevertToSnapshot r" by blast
  then show ?thesis
  proof cases
    case snap
    with assms show ?thesis using Snapshot_refines(1) [OF assms(1), of "fst (Snapshot s)" s'] by auto
  next
    case (rev r)
    with assms(2) have "r \<in> fst ` set (snaps E s)" using db.revert_missing by force
    then obtain i w where "i < length (snaps E s)" "snaps E s ! i = (r, w)" by (auto simp: in_set_conv_nth)
    with db.revert_law [OF assms(1)] rev assms(2) show ?thesis by fastforce
  next
    case other
    with assms have "step E s s'" by (intro exec_step)
    then show ?thesis by (rule step_wf)
  qed
qed

lemma execs_wf: "wf_state E s \<Longrightarrow> execs E xs s = Some s' \<Longrightarrow> wf_state E s'"
  by (induction xs arbitrary: s) (auto split: option.splits dest: exec_wf)

section \<open>Finalising a transaction\<close>

definition finalised :: "env \<Rightarrow> bool \<Rightarrow> account_view \<Rightarrow> account_view" where
  "finalised E d v =
     (if v_suicided v \<or> (d \<and> v_nonce v = 0 \<and> v_balance v = 0 \<and> v_codehash v = emptyCodeHash E)
      then v\<lparr>v_deleted := True\<rparr> else v\<lparr>v_committed := v_storage v\<rparr>)"

lemma obj_view_deleted: "obj_view E (obj\<lparr>deleted := b\<rparr>) = (obj_view E obj)\<lparr>v_deleted := b\<rparr>"
proof -
  let ?o = "obj\<lparr>deleted := b\<rparr>"
  have t: "trie_view E ?o = trie_view E obj" by (rule trie_view_cong) simp_all
  have c: "committed_view E ?o = committed_view E obj" by (rule committed_view_cong) (simp_all add: t)
  have "storage_view E ?o = storage_view E obj" by (rule storage_view_cong) (simp_all add: c)
  moreover have "code_view E ?o = code_view E obj" by (rule code_view_cong) simp_all
  ultimately show ?thesis by (simp add: obj_view_def c)
qed

lemma finalise_frame [simp]:
  "so_address (so_finalise obj) = so_address obj" "fakeStorage (so_finalise obj) = fakeStorage obj"
  "deleted (so_finalise obj) = deleted obj" "suicided (so_finalise obj) = suicided obj"
  "so_data (so_finalise obj) = so_data obj"
  by (simp_all add: so_finalise_def)

lemma obj_view_finalise:
  assumes "fakeStorage obj = None"
  shows "obj_view E (finalise_object E d obj) = finalised E d (obj_view E obj)"
proof -
  have "code_view E (so_finalise obj) = code_view E obj"
    by (rule code_view_cong) (simp_all add: so_finalise_def)
  then show ?thesis
    using assms by (simp add: finalise_object_def finalised_def obj_view_deleted so_empty_def obj_view_def)
qed

lemma finalise_object_frame [simp]:
  "so_address (finalise_object E d obj) = so_address obj"
  "fakeStorage (finalise_object E d obj) = fakeStorage obj"
  by (simp_all add: finalise_object_def)

lemma clearJournal_frame [simp]:
  "stateObjects (clearJournalAndRefund s) = stateObjects s" "db_trie (clearJournalAndRefund s) = db_trie s"
  "entries (clearJournalAndRefund s) = []" "validRevisions (clearJournalAndRefund s) = []"
  "nextRevisionId (clearJournalAndRefund s) = nextRevisionId s"
  "stateObjectsPending (clearJournalAndRefund s) = stateObjectsPending s"
  "logs (clearJournalAndRefund s) = logs s" "logSize (clearJournalAndRefund s) = logSize s"
  "preimages (clearJournalAndRefund s) = preimages s"
  by (simp_all add: clearJournalAndRefund_def)

text \<open>
  The dirty map is emptied with the journal; were the journal empty, the counters would
  already be (up to the RIPEMD address).
\<close>

lemma dirties_ok_clear:
  "dirties_ok (dirties s) (entries s) \<Longrightarrow> dirties_ok (dirties (clearJournalAndRefund s)) []"
  by (simp add: clearJournalAndRefund_def dirties_ok_def)

lemma Finalise_wf:
  assumes "wf_state E s"
  shows "wf_state E (Finalise E d s)"
proof -
  let ?s = "Finalise E d s"
  have "wf_objs ?s" using wf_objs_wf [OF assms]
    by (auto simp: wf_objs_def Finalise_def Let_def split: if_splits)
  moreover have "dirties_ok (dirties ?s) (entries ?s)"
  proof -
    have "dirties_ok (dirties s) (entries s)" using assms by (simp add: wf_state_def)
    then show ?thesis unfolding Finalise_def Let_def by (simp, intro dirties_ok_clear) simp
  qed
  ultimately show ?thesis by (simp add: wf_state_def revisions_ok_def Finalise_def Let_def)
qed

lemma Finalise_view:
  assumes "wf_state E s"
  shows "view E (Finalise E d s) a =
           (case stateObjects s a of
              Some obj \<Rightarrow> Some (if a \<in> dom (dirties s) then finalised E d (obj_view E obj) else obj_view E obj)
            | None \<Rightarrow> view E s a)"
proof -
  have "fakeStorage obj = None" if "stateObjects s a = Some obj" for obj
    using wf_objs_wf [OF assms] that by (simp add: wf_objs_def)
  then show ?thesis
    by (auto simp: view_def Finalise_def Let_def obj_view_finalise split: option.splits)
qed

lemma updateRoot_data [simp]:
  "Nonce (so_data (updateRoot E obj)) = Nonce (so_data obj)"
  "Balance (so_data (updateRoot E obj)) = Balance (so_data obj)"
  "CodeHash (so_data (updateRoot E obj)) = CodeHash (so_data obj)"
  by (simp_all add: updateRoot_def updateTrie_def Let_def case_prod_beta)

end
