(* ===== verification/StateDB_Props.thy ===== *)
theory StateDB_Props
  imports StateDB_Ops
begin

text \<open>
  The properties of the state, its journal and its snapshots, each with a witness on a
  concrete state.
\<close>

section \<open>Snapshots and the journal\<close>

text \<open>
  C5. Snapshots: after any sequence of state operations that does not itself revert to the
  snapshot or to an older one (nested snapshots and reverts are allowed), \<^verbatim>\<open>RevertToSnapshot\<close>
  does not panic and the state shows again exactly the accounts, storage, code, refund
  counter, logs and preimages of the moment of the \<^verbatim>\<open>Snapshot\<close>, with the same older
  snapshots still valid.
\<close>

theorem RevertToSnapshot_restores:
  assumes "wf_state E s" and "Snapshot s = (rid, s1)" and "execs E ops s1 = Some s2"
    and "\<forall>r. Op_RevertToSnapshot r \<in> set ops \<longrightarrow> rid < r"
  shows "\<exists>s3. RevertToSnapshot E rid s2 = Some s3 \<and> wf_state E s3 \<and>
    world_of E s3 = world_of E s \<and> snaps E s3 = snaps E s"
proof (rule db.revert_restores [OF assms(1,2)])
  note sn = Snapshot_refines [OF assms(1,2)]
  have "sorted_wrt (<) (map fst (snaps E s1))" by (rule db.ids_sorted [OF sn(1)])
  then have "\<forall>q \<in> fst ` set (snaps E s1). q \<le> rid"
    unfolding sn(3) by (auto simp: sorted_wrt_append less_imp_le simp del: map_fst_snaps)
  then have "\<forall>r. Op_RevertToSnapshot r \<in> set ops \<longrightarrow> (\<forall>q \<in> fst ` set (snaps E s1). q < r)"
    using assms(4) by (meson le_less_trans)
  with db.extends_refl [OF sn(1)] assms(3) show "db.extends E s1 s2" by (rule execs_extends)
qed

theorem RevertToSnapshot_restores_witness:
  "\<exists>s2 s3. execs env0 [Op_AddBalance 7 5, Op_Snapshot, Op_SetState 7 1 2, Op_RevertToSnapshot 1, Op_SetNonce 9 3]
        (snd (Snapshot (state_New Map.empty))) = Some s2 \<and>
     RevertToSnapshot env0 0 s2 = Some s3 \<and> world_of env0 s3 = world_of env0 (state_New Map.empty)"
proof -
  let ?ops = "[Op_AddBalance 7 5, Op_Snapshot, Op_SetState 7 1 2, Op_RevertToSnapshot 1, Op_SetNonce 9 3]"
  let ?s = "state_New Map.empty"
  have "execs env0 ?ops (snd (Snapshot ?s)) \<noteq> None" by code_simp
  then obtain s2 where s2: "execs env0 ?ops (snd (Snapshot ?s)) = Some s2" by blast
  have "Snapshot ?s = (0, snd (Snapshot ?s))" by (simp add: Snapshot_def state_New_def)
  from RevertToSnapshot_restores [OF wf_state_New this s2] s2 show ?thesis by auto
qed

text \<open>
  C6. \<^verbatim>\<open>RevertToSnapshot\<close> panics exactly on identifiers that are not among the valid revisions:
  on a well-formed state undoing the journal never dereferences a missing account or
  shortens an empty log.
\<close>

theorem RevertToSnapshot_defined:
  assumes "wf_state E s"
  shows "RevertToSnapshot E rid s \<noteq> None \<longleftrightarrow> rid \<in> fst ` set (validRevisions s)"
proof -
  have ids: "fst ` set (validRevisions s) = fst ` set (snaps E s)"
    unfolding set_map [symmetric] map_fst_snaps ..
  show ?thesis
  proof
    assume "rid \<in> fst ` set (validRevisions s)"
    then obtain i w where "i < length (snaps E s)" "snaps E s ! i = (rid, w)"
      unfolding ids by (auto simp: in_set_conv_nth)
    with db.revert_law [OF assms] show "RevertToSnapshot E rid s \<noteq> None" by blast
  next
    assume "RevertToSnapshot E rid s \<noteq> None"
    then show "rid \<in> fst ` set (validRevisions s)"
      unfolding ids using db.revert_missing [of rid E s] by (rule contrapos_np)
  qed
qed

theorem RevertToSnapshot_defined_witness:
  "RevertToSnapshot env0 0 (snd (Snapshot (state_New Map.empty))) \<noteq> None \<and>
   RevertToSnapshot env0 5 (snd (Snapshot (state_New Map.empty))) = None"
proof -
  let ?s = "snd (Snapshot (state_New Map.empty))"
  have w: "wf_state env0 ?s"
    by (rule Snapshot_refines(1) [of env0 "state_New Map.empty" "fst (Snapshot (state_New Map.empty))"]) simp_all
  have "validRevisions ?s = [(0, 0)]" by (simp add: Snapshot_def state_New_def)
  with RevertToSnapshot_defined [OF w, of 0] RevertToSnapshot_defined [OF w, of 5] show ?thesis by auto
qed

text \<open>
  C7. The journal's dirty map: in every state reached from a freshly opened one, with any mix
  of operations, snapshots and reverts, an address other than the RIPEMD precompile is in
  the dirty map exactly when a surviving journal entry modifies it, and its count is the
  number of those entries. Hence \<^verbatim>\<open>Finalise\<close> visits exactly the accounts with a surviving change.
\<close>

theorem dirties_count_surviving_entries:
  assumes "execs E ops (state_New tr) = Some s" and "a \<noteq> ripemd"
  shows "dirties s a =
    (let n = length (filter (\<lambda>e. dirtied e = Some a) (entries s)) in if n = 0 then None else Some (int n))"
  using execs_wf [OF wf_state_New assms(1)] assms(2)
  by (simp add: wf_state_def dirties_ok_def dirtied_times_def Let_def)

theorem dirties_count_surviving_entries_witness:
  "map_option (\<lambda>s. dirties s 7) (execs env0 [Op_AddBalance 7 5, Op_Snapshot, Op_SetNonce 7 1, Op_RevertToSnapshot 0]
      (state_New Map.empty)) = Some (Some 2)"
proof -
  let ?ops = "[Op_AddBalance 7 5, Op_Snapshot, Op_SetNonce 7 1, Op_RevertToSnapshot 0]"
  have "map_option (\<lambda>s. length (filter (\<lambda>e. dirtied e = Some 7) (entries s))) (execs env0 ?ops (state_New Map.empty))
      = Some 2" by code_simp
  then obtain s where s: "execs env0 ?ops (state_New Map.empty) = Some s"
      "length (filter (\<lambda>e. dirtied e = Some 7) (entries s)) = 2" by auto
  have "(7::address) \<noteq> ripemd" by (simp add: ripemd_def)
  from dirties_count_surviving_entries [OF s(1) this] s show ?thesis by simp
qed

section \<open>The end of a transaction\<close>

text \<open>
  C8. \<^verbatim>\<open>Finalise\<close>: an account whose object is live and dirty is deleted if it self-destructed or
  (with \<^verbatim>\<open>deleteEmptyObjects\<close>) is empty, otherwise its storage becomes the committed one; all
  other accounts are untouched, the journal and the snapshots are gone, and the state is
  well-formed again.
\<close>

theorem Finalise_accounts:
  assumes "wf_state E s"
  shows "wf_state E (Finalise E d s) \<and> entries (Finalise E d s) = [] \<and> validRevisions (Finalise E d s) = [] \<and>
    (\<forall>a. acct (world_of E (Finalise E d s)) a =
       (case acct (world_of E s) a of
          None \<Rightarrow> None
        | Some v \<Rightarrow>
            if stateObjects s a = None \<or> dirties s a = None then Some v
            else if v_suicided v \<or> d \<and> v_nonce v = 0 \<and> v_balance v = 0 \<and> v_codehash v = emptyCodeHash E
            then None else Some (v\<lparr>v_committed := v_storage v\<rparr>)))"
proof (intro conjI allI)
  show "acct (world_of E (Finalise E d s)) a =
       (case acct (world_of E s) a of
          None \<Rightarrow> None
        | Some v \<Rightarrow>
            if stateObjects s a = None \<or> dirties s a = None then Some v
            else if v_suicided v \<or> d \<and> v_nonce v = 0 \<and> v_balance v = 0 \<and> v_codehash v = emptyCodeHash E
            then None else Some (v\<lparr>v_committed := v_storage v\<rparr>))" for a
  proof (cases "stateObjects s a")
    case None
    then have "view E (Finalise E d s) a = view E s a" by (simp add: Finalise_view [OF assms])
    with None show ?thesis by (simp add: acct_def split: option.split)
  next
    case (Some obj)
    then have v: "view E s a = Some (obj_view E obj)" by (simp add: view_def)
    have f: "view E (Finalise E d s) a =
        Some (if a \<in> dom (dirties s) then finalised E d (obj_view E obj) else obj_view E obj)"
      by (simp add: Finalise_view [OF assms] Some)
    show ?thesis
      by (cases "dirties s a"; cases "deleted obj")
        (simp_all add: acct_def v f Some finalised_def domIff)
  qed
  show "wf_state E (Finalise E d s)" by (rule Finalise_wf [OF assms])
qed (simp_all add: Finalise_def Let_def)

theorem Finalise_accounts_witness:
  "acct (world_of env0 (AddBalance env0 7 0 (state_New Map.empty))) 7 \<noteq> None \<and>
   acct (world_of env0 (Finalise env0 True (AddBalance env0 7 0 (state_New Map.empty)))) 7 = None"
proof -
  let ?s = "AddBalance env0 7 0 (state_New Map.empty)"
  have w: "wf_state env0 ?s" by (rule step_wf [OF AddBalance_refines(1)]) simp
  have so: "stateObjects ?s 7 \<noteq> None" and di: "dirties ?s 7 \<noteq> None" by code_simp+
  have v: "acct (world_of env0 ?s) 7 = Some (blank env0)"
    by (simp add: AddBalance_refines(2)) (simp add: on_account_def acct_or_blank_def acct_def world_of_def view_def state_New_def)
  from Finalise_accounts [OF w, of True] so di v show ?thesis by simp
qed

section \<open>Re-creating a deleted account\<close>

text \<open>
  C99. \<^verbatim>\<open>CreateAccount\<close> takes over the balance of the previous object even when that object was
  deleted: ether an account received after its self-destruct, gone once the transaction is
  finalised, comes back when the account is created again in the same block.
\<close>

theorem CreateAccount_resurrects_deleted_balance:
  assumes "wf_state E s" and "stateObjects s a = Some obj" and "deleted obj"
  shows "fst (GetBalance E a s) = 0 \<and>
    fst (GetBalance E a (CreateAccount E a s)) = Balance (so_data obj)"
proof
  have v: "view E s a = Some (obj_view E obj)" using assms(2) by (simp add: view_def)
  with assms(3) show "fst (GetBalance E a s) = 0"
    by (simp add: reads_of(1) [OF assms(1)] balance_of_def acct_def)
  have w: "wf_state E (CreateAccount E a s)" by (rule step_wf [OF CreateAccount_refines(1) [OF assms(1)]])
  show "fst (GetBalance E a (CreateAccount E a s)) = Balance (so_data obj)"
    by (simp add: reads_of(1) [OF w] CreateAccount_refines(2) [OF assms(1)] created_def v balance_of_def acct_def)
qed

theorem CreateAccount_resurrects_deleted_balance_witness:
  "let s1 = AddBalance env0 7 3 (snd (Suicide env0 7 (AddBalance env0 7 5 (state_New Map.empty))));
       s2 = Finalise env0 True s1
   in fst (GetBalance env0 7 s1) = 3 \<and> fst (GetBalance env0 7 s2) = 0 \<and>
      fst (GetBalance env0 7 (CreateAccount env0 7 s2)) = 3"
proof -
  let ?s0 = "AddBalance env0 7 5 (state_New Map.empty)"
  let ?s1 = "AddBalance env0 7 3 (snd (Suicide env0 7 ?s0))"
  let ?s2 = "Finalise env0 True ?s1"
  have w0: "wf_state env0 ?s0" by (rule step_wf [OF AddBalance_refines(1)]) simp
  have w1: "wf_state env0 ?s1"
    by (rule step_wf [OF AddBalance_refines(1) [OF step_wf [OF Suicide_refines(1) [OF w0]]]])
  have "map_option (\<lambda>obj. (suicided obj, Balance (so_data obj))) (stateObjects ?s1 7) = Some (True, 3)"
    by code_simp
  then obtain ob where ob: "stateObjects ?s1 7 = Some ob" "suicided ob" "Balance (so_data ob) = 3" by auto
  have di: "dirties ?s1 7 \<noteq> None" by code_simp
  define obj where "obj = ob\<lparr>deleted := True\<rparr>"
  have o: "stateObjects ?s2 7 = Some obj" "deleted obj" "Balance (so_data obj) = 3"
    using ob di by (auto simp: Finalise_def Let_def finalise_object_def obj_def)
  have "fst (GetBalance env0 7 ?s1) = 3" by code_simp
  with CreateAccount_resurrects_deleted_balance [OF Finalise_wf [OF w1] o(1,2)] o(3) show ?thesis
    by (simp add: Let_def)
qed

end
