(* ===== verification/Rlp.thy ===== *)
theory Rlp
  imports Prelude
begin

text \<open>
  RLP (\<^verbatim>\<open>src/rlp/encode.go\<close>, \<^verbatim>\<open>src/rlp/raw.go\<close>). The encoder of the package writes all strings to
  one buffer and keeps the list headers aside, since the size of a list is only known at
  its end; \<^verbatim>\<open>toBytes\<close> merges the two. It is shown equal to the recursive reference encoding,
  and \<^verbatim>\<open>Split\<close>, \<^verbatim>\<open>SplitString\<close>, \<^verbatim>\<open>SplitList\<close> and \<^verbatim>\<open>CountValues\<close> are shown to take apart what it
  produces.
\<close>

section \<open>Headers\<close>

text \<open>\<^verbatim>\<open>intsize\<close> shifts until nothing is left; \<^verbatim>\<open>putint\<close> is a case distinction on the size.\<close>

fun intsize :: "nat \<Rightarrow> nat" where
  "intsize i = (if i div 256 = 0 then 1 else 1 + intsize (i div 256))"

declare intsize.simps [simp del]

definition putint :: "nat \<Rightarrow> bytes" where
  "putint i =
     (if i < 2 ^ 8 then be_bytes 1 i
      else if i < 2 ^ 16 then be_bytes 2 i
      else if i < 2 ^ 24 then be_bytes 3 i
      else if i < 2 ^ 32 then be_bytes 4 i
      else if i < 2 ^ 40 then be_bytes 5 i
      else if i < 2 ^ 48 then be_bytes 6 i
      else if i < 2 ^ 56 then be_bytes 7 i
      else be_bytes 8 i)"

definition headsize :: "nat \<Rightarrow> nat" where
  "headsize n = (if n < 56 then 1 else 1 + intsize n)"

definition puthead :: "byte \<Rightarrow> byte \<Rightarrow> nat \<Rightarrow> bytes" where
  "puthead smalltag largetag n =
     (if n < 56 then [smalltag + of_nat n]
      else let s = putint n in (largetag + of_nat (length s)) # s)"

definition ListSize :: "nat \<Rightarrow> nat" where
  "ListSize contentSize = headsize contentSize + contentSize"

section \<open>The encoder\<close>

text \<open>
  The values the encoder writes, one constructor per kind of writer: byte strings (byte
  slices, byte arrays and strings), unsigned integers, booleans, big integers, and lists
  (slices and structs). \<open>big_Bytes\<close> is \<^verbatim>\<open>big.Int.Bytes\<close>: big endian, without leading zeros.
\<close>

datatype item =
    Str (un_Str: bytes) | UInt (un_UInt: u64) | Bool (un_Bool: bool) | BigInt (un_BigInt: int)
  | Lst (un_Lst: "item list")

fun big_Bytes :: "nat \<Rightarrow> bytes" where
  "big_Bytes n = (if n = 0 then [] else big_Bytes (n div 256) @ [of_nat (n mod 256)])"

declare big_Bytes.simps [simp del]

record encbuf =
  eb_str :: bytes
  lheads :: "(nat \<times> nat) list"
  lhsize :: nat

definition encbuf_empty :: encbuf where
  "encbuf_empty = \<lparr>eb_str = [], lheads = [], lhsize = 0\<rparr>"

definition eb_append :: "bytes \<Rightarrow> encbuf \<Rightarrow> encbuf" where
  "eb_append b w = w\<lparr>eb_str := eb_str w @ b\<rparr>"

definition eb_size :: "encbuf \<Rightarrow> nat" where
  "eb_size w = length (eb_str w) + lhsize w"

definition encodeStringHeader :: "nat \<Rightarrow> encbuf \<Rightarrow> encbuf" where
  "encodeStringHeader n w =
     (if n < 56 then eb_append [0x80 + of_nat n] w
      else let s = putint n in eb_append ((0xB7 + of_nat (length s)) # s) w)"

definition encodeString :: "bytes \<Rightarrow> encbuf \<Rightarrow> encbuf" where
  "encodeString b w =
     (if length b = 1 \<and> b ! 0 \<le> 0x7F then eb_append [b ! 0] w
      else eb_append b (encodeStringHeader (length b) w))"

definition writeUint :: "u64 \<Rightarrow> encbuf \<Rightarrow> encbuf" where
  "writeUint v w = (let i = unat v in
      if i = 0 then eb_append [0x80] w
      else if i < 128 then eb_append [of_nat i] w
      else let s = putint i in eb_append ((0x80 + of_nat (length s)) # s) w)"

definition writeBool :: "bool \<Rightarrow> encbuf \<Rightarrow> encbuf" where
  "writeBool b w = eb_append [if b then 0x01 else 0x80] w"

text \<open>A negative big integer is an error, the only one of these writers.\<close>

definition writeBigInt :: "int \<Rightarrow> encbuf \<Rightarrow> encbuf option" where
  "writeBigInt i w =
     (if i < 0 then None
      else if i = 0 then Some (eb_append [0x80] w)
      else Some (encodeString (big_Bytes (nat i)) w))"

text \<open>
  \<^verbatim>\<open>list\<close> appends a header that records where the list starts; \<^verbatim>\<open>listEnd\<close> fills in its size.
  The header is found again by its position in \<open>lheads\<close>.
\<close>

definition eb_list :: "encbuf \<Rightarrow> nat \<times> encbuf" where
  "eb_list w = (length (lheads w), w\<lparr>lheads := lheads w @ [(length (eb_str w), lhsize w)]\<rparr>)"

definition listEnd :: "nat \<Rightarrow> encbuf \<Rightarrow> encbuf" where
  "listEnd lh w =
     (let (offset, n0) = lheads w ! lh;
          n = eb_size w - offset - n0
      in w\<lparr>lheads := (lheads w)[lh := (offset, n)],
           lhsize := lhsize w + (if n < 56 then 1 else 1 + intsize n)\<rparr>)"

fun write_item :: "item \<Rightarrow> encbuf \<Rightarrow> encbuf option"
  and write_items :: "item list \<Rightarrow> encbuf \<Rightarrow> encbuf option" where
  "write_item (Str b) w = Some (encodeString b w)"
| "write_item (UInt i) w = Some (writeUint i w)"
| "write_item (Bool b) w = Some (writeBool b w)"
| "write_item (BigInt i) w = writeBigInt i w"
| "write_item (Lst xs) w =
     (let (lh, w1) = eb_list w
      in case write_items xs w1 of None \<Rightarrow> None | Some w2 \<Rightarrow> Some (listEnd lh w2))"
| "write_items [] w = Some w"
| "write_items (x # xs) w =
     (case write_item x w of None \<Rightarrow> None | Some w1 \<Rightarrow> write_items xs w1)"

fun toBytesLoop :: "bytes \<Rightarrow> nat \<Rightarrow> (nat \<times> nat) list \<Rightarrow> bytes" where
  "toBytesLoop str strpos [] = drop strpos str"
| "toBytesLoop str strpos ((offset, n) # hs) =
     take (offset - strpos) (drop strpos str) @ puthead 0xC0 0xF7 n @ toBytesLoop str offset hs"

text \<open>The size of the result is an \<^verbatim>\<open>int\<close>; a negative one makes the allocation panic.\<close>

definition toBytes :: "encbuf \<Rightarrow> bytes option" where
  "toBytes w = (if eb_size w < 2 ^ 63 then Some (toBytesLoop (eb_str w) 0 (lheads w)) else None)"

definition EncodeToBytes :: "item \<Rightarrow> bytes option" where
  "EncodeToBytes x =
     (case write_item x encbuf_empty of None \<Rightarrow> None | Some w \<Rightarrow> toBytes w)"

section \<open>Taking encodings apart\<close>

datatype rlpError =
    EOF | ErrUnexpectedEOF | EOL
  | ErrExpectedString | ErrExpectedList | ErrCanonInt | ErrCanonSize | ErrElemTooLarge | ErrValueTooLarge
  | ErrMoreThanOneValue | errNotInList | errNotAtEOL | errUintOverflow
  | InputTooLong | InputTooShort | TooFewElements | WrongEmptyKind | InvalidBool

datatype Kind = Byte | String | List

definition readSize :: "bytes \<Rightarrow> nat \<Rightarrow> rlpError + nat" where
  "readSize b slen =
     (if slen > length b then Inl ErrUnexpectedEOF
      else let s = (if 1 \<le> slen \<and> slen \<le> 8 then from_be (take slen b) else 0)
           in if s < 56 \<or> b ! 0 = 0 then Inl ErrCanonSize else Inr s)"

definition readKind :: "bytes \<Rightarrow> rlpError + Kind \<times> nat \<times> nat" where
  "readKind buf =
     (if buf = [] then Inl ErrUnexpectedEOF
      else
        let b = unat (buf ! 0);
            check = (\<lambda>k tagsize contentsize.
               if contentsize > length buf - tagsize then Inl ErrValueTooLarge else Inr (k, tagsize, contentsize))
        in if b < 0x80 then check Byte 0 1
           else if b < 0xB8 then
             (if b - 0x80 = 1 \<and> length buf > 1 \<and> buf ! 1 < 128 then Inl ErrCanonSize
              else check String 1 (b - 0x80))
           else if b < 0xC0 then
             (case readSize (drop 1 buf) (b - 0xB7) of
                Inl e \<Rightarrow> Inl e
              | Inr n \<Rightarrow> check String (b - 0xB7 + 1) n)
           else if b < 0xF8 then check List 1 (b - 0xC0)
           else
             (case readSize (drop 1 buf) (b - 0xF7) of
                Inl e \<Rightarrow> Inl e
              | Inr n \<Rightarrow> check List (b - 0xF7 + 1) n))"

definition Split :: "bytes \<Rightarrow> rlpError + Kind \<times> bytes \<times> bytes" where
  "Split b =
     (case readKind b of
        Inl e \<Rightarrow> Inl e
      | Inr (k, ts, cs) \<Rightarrow> Inr (k, take cs (drop ts b), drop (ts + cs) b))"

definition SplitString :: "bytes \<Rightarrow> rlpError + bytes \<times> bytes" where
  "SplitString b =
     (case Split b of
        Inl e \<Rightarrow> Inl e
      | Inr (k, content, rest) \<Rightarrow> if k = List then Inl ErrExpectedString else Inr (content, rest))"

definition SplitList :: "bytes \<Rightarrow> rlpError + bytes \<times> bytes" where
  "SplitList b =
     (case Split b of
        Inl e \<Rightarrow> Inl e
      | Inr (k, content, rest) \<Rightarrow> if k \<noteq> List then Inl ErrExpectedList else Inr (content, rest))"

text \<open>
  Every value \<^verbatim>\<open>readKind\<close> accepts is at least one byte long, which is why the counting loop
  ends.
\<close>

lemma readSize_length: "readSize b n = Inr s \<Longrightarrow> n \<le> length b"
  by (auto simp: readSize_def split: if_splits)

lemma readKind_progress:
  assumes "readKind b = Inr (k, ts, cs)"
  shows "0 < ts + cs" and "ts + cs \<le> length b"
proof -
  obtain x xs where b: "b = x # xs"
    using assms by (cases b) (auto simp: readKind_def)
  show "0 < ts + cs" and "ts + cs \<le> length b"
    using assms readSize_length [of xs] unfolding readKind_def Let_def b
    by (auto split: if_splits sum.splits dest!: readSize_length)
qed

function CountValues_loop :: "nat \<Rightarrow> bytes \<Rightarrow> rlpError + nat" where
  "CountValues_loop i b =
     (if b = [] then Inr i
      else case readKind b of
             Inl e \<Rightarrow> Inl e
           | Inr (k, tagsize, n) \<Rightarrow> CountValues_loop (i + 1) (drop (tagsize + n) b))"
  by pat_completeness auto
termination
  by (relation "measure (\<lambda>(i, b). length b)") (auto dest: readKind_progress(1))

declare CountValues_loop.simps [simp del]

definition CountValues :: "bytes \<Rightarrow> rlpError + nat" where
  "CountValues b = CountValues_loop 0 b"

section \<open>The reference encoding\<close>

definition str_enc :: "bytes \<Rightarrow> bytes" where
  "str_enc b = (if length b = 1 \<and> b ! 0 \<le> 0x7F then b else puthead 0x80 0xB7 (length b) @ b)"

definition list_enc :: "bytes \<Rightarrow> bytes" where
  "list_enc p = puthead 0xC0 0xF7 (length p) @ p"

fun encodable :: "item \<Rightarrow> bool" where
  "encodable (BigInt i) \<longleftrightarrow> 0 \<le> i"
| "encodable (Lst xs) \<longleftrightarrow> list_all encodable xs"
| "encodable x \<longleftrightarrow> True"

fun enc :: "item \<Rightarrow> bytes" where
  "enc (Str b) = str_enc b"
| "enc (UInt i) = str_enc (big_Bytes (unat i))"
| "enc (Bool b) = str_enc (if b then [1] else [])"
| "enc (BigInt i) = str_enc (big_Bytes (nat i))"
| "enc (Lst xs) = list_enc (concat (map enc xs))"

subsection \<open>Integers without leading zeros\<close>

lemma big_Bytes_0 [simp]: "big_Bytes 0 = []"
  by (simp add: big_Bytes.simps)

lemma big_Bytes_pos: "0 < n \<Longrightarrow> big_Bytes n = big_Bytes (n div 256) @ [of_nat (n mod 256)]"
  by (subst big_Bytes.simps) simp

lemma length_big_Bytes_le: "m < 256 ^ k \<Longrightarrow> length (big_Bytes m) \<le> k"
proof (induction k arbitrary: m)
  case (Suc k)
  show ?case
  proof (cases "m = 0")
    case False
    have "m div 256 < 256 ^ k" using Suc.prems by (simp add: div_less_iff_less_mult mult.commute)
    then show ?thesis using Suc.IH False by (simp add: big_Bytes_pos [of m])
  qed simp
qed simp

lemma be_bytes_big_Bytes: "256 ^ k \<le> i \<Longrightarrow> i < 256 ^ Suc k \<Longrightarrow> be_bytes (Suc k) i = big_Bytes i"
proof (induction k arbitrary: i)
  case 0
  then show ?case by (simp add: big_Bytes_pos)
next
  case (Suc k)
  have "256 ^ k \<le> i div 256" and "i div 256 < 256 ^ Suc k"
    using Suc.prems by (auto simp: less_eq_div_iff_mult_less_eq div_less_iff_less_mult mult.commute)
  from Suc.IH [OF this] have "be_bytes (Suc k) (i div 256) = big_Bytes (i div 256)" .
  moreover have "0 < i" using Suc.prems(1) by (metis gr0I not_le zero_less_numeral zero_less_power)
  ultimately show ?case by (simp add: big_Bytes_pos [of i])
qed

lemma be_bytes_minimal: "0 < k \<Longrightarrow> 256 ^ (k - 1) \<le> i \<Longrightarrow> i < 256 ^ k \<Longrightarrow> be_bytes k i = big_Bytes i"
  by (cases k) (simp_all only: be_bytes_big_Bytes diff_Suc_1 less_numeral_extra(3))

lemma if_eqI: "(c \<Longrightarrow> x = z) \<Longrightarrow> (\<not> c \<Longrightarrow> y = z) \<Longrightarrow> (if c then x else y) = z"
  by simp

lemma putint_big_Bytes: "0 < i \<Longrightarrow> i < 2 ^ 64 \<Longrightarrow> putint i = big_Bytes i"
  unfolding putint_def by (intro if_eqI be_bytes_minimal; simp)

lemma length_putint: "1 \<le> length (putint i) \<and> length (putint i) \<le> 8"
  by (simp add: putint_def)

lemma putint_nonempty [simp]: "putint i \<noteq> []"
  using length_putint [of i] by (cases "putint i") auto

lemma intsize_big_Bytes: "0 < i \<Longrightarrow> intsize i = length (big_Bytes i)"
proof (induction i rule: intsize.induct)
  case (1 i)
  show ?case
  proof (cases "i div 256 = 0")
    case True
    then show ?thesis using 1 by (simp add: intsize.simps [of i] big_Bytes_pos)
  next
    case False
    then show ?thesis using 1 by (simp add: intsize.simps [of i] big_Bytes_pos [of i])
  qed
qed

lemma length_puthead: "n < 2 ^ 64 \<Longrightarrow> length (puthead s l n) = headsize n"
  by (simp add: puthead_def headsize_def Let_def intsize_big_Bytes putint_big_Bytes)

lemma from_be_big_Bytes [simp]: "from_be (big_Bytes n) = n"
proof (induction n rule: big_Bytes.induct)
  case (1 n)
  then show ?case by (cases "n = 0") (simp_all add: big_Bytes_pos)
qed

lemma hd_big_Bytes: "0 < n \<Longrightarrow> big_Bytes n ! 0 \<noteq> 0"
proof (induction n rule: big_Bytes.induct)
  case (1 n)
  show ?case
  proof (cases "n div 256 = 0")
    case True
    then have "n < 256" by simp
    then have "unat (of_nat (n mod 256) :: byte) \<noteq> 0"
      using 1(2) unfolding unat_of_nat_byte by simp
    then show ?thesis using True 1(2) by (auto simp: big_Bytes_pos [of n])
  next
    case False
    then have "big_Bytes (n div 256) ! 0 \<noteq> 0" and "big_Bytes (n div 256) \<noteq> []"
      using 1 by (auto simp: big_Bytes_pos)
    then show ?thesis using 1(2) by (simp add: big_Bytes_pos [of n] nth_append)
  qed
qed

lemma big_Bytes_from_be: "bs = [] \<or> bs ! 0 \<noteq> 0 \<Longrightarrow> big_Bytes (from_be bs) = bs"
proof (induction bs rule: rev_induct)
  case Nil
  then show ?case by simp
next
  case (snoc b bs)
  have b: "unat b < 256" using unsigned_less [of b, where ?'a = nat] by simp
  have bs: "big_Bytes (from_be bs) = bs"
    using snoc by (cases bs) auto
  have pos: "0 < from_be (bs @ [b])"
  proof (cases bs)
    case Nil
    then show ?thesis using snoc.prems by (simp add: from_be_def unat_gt_0)
  next
    case (Cons x xs)
    then have "from_be bs \<noteq> 0" using bs by (metis big_Bytes_0 list.distinct(1))
    then show ?thesis by simp
  qed
  have "(from_be bs * 256 + unat b) div 256 = from_be bs" using b by simp
  moreover have "(of_nat ((from_be bs * 256 + unat b) mod 256) :: byte) = b"
    using b by (simp add: mod_mult_self3 word_unat_eq_iff unat_of_nat)
  ultimately show ?case using pos bs by (simp add: big_Bytes_pos)
qed

subsection \<open>The buffered encoder computes the reference encoding\<close>

text \<open>
  What the encoder puts into the string buffer, the list headers it records when the buffer
  already holds \<open>p\<close> bytes, and the bytes these headers will take.
\<close>

fun strs :: "item \<Rightarrow> bytes" where
  "strs (Lst xs) = concat (map strs xs)"
| "strs x = enc x"

fun heads :: "nat \<Rightarrow> item \<Rightarrow> (nat \<times> nat) list"
  and headss :: "nat \<Rightarrow> item list \<Rightarrow> (nat \<times> nat) list" where
  "heads p (Lst xs) = (p, length (concat (map enc xs))) # headss p xs"
| "heads p (Str b) = []"
| "heads p (UInt i) = []"
| "heads p (Bool b) = []"
| "heads p (BigInt i) = []"
| "headss p [] = []"
| "headss p (x # xs) = heads p x @ headss (p + length (strs x)) xs"

fun headlen :: "item \<Rightarrow> nat" where
  "headlen (Lst xs) = headsize (length (concat (map enc xs))) + sum_list (map headlen xs)"
| "headlen x = 0"

definition grown :: "encbuf \<Rightarrow> bytes \<Rightarrow> (nat \<times> nat) list \<Rightarrow> nat \<Rightarrow> encbuf" where
  "grown w b hs n = w\<lparr>eb_str := eb_str w @ b, lheads := lheads w @ hs, lhsize := lhsize w + n\<rparr>"

lemma grown_sel [simp]:
  "eb_str (grown w b hs n) = eb_str w @ b"
  "lheads (grown w b hs n) = lheads w @ hs"
  "lhsize (grown w b hs n) = lhsize w + n"
  by (simp_all add: grown_def)

lemma grown_grown: "grown (grown w b hs n) b' hs' n' = grown w (b @ b') (hs @ hs') (n + n')"
  by (simp add: grown_def add.assoc)

lemma eb_append_grown: "eb_append b w = grown w b [] 0"
  by (simp add: eb_append_def grown_def)

lemma encodeString_enc: "encodeString b w = grown w (str_enc b) [] 0"
proof (cases "length b = 1 \<and> b ! 0 \<le> 0x7F")
  case True
  then have "[b ! 0] = b" by (cases b) auto
  then show ?thesis using True by (simp add: encodeString_def str_enc_def eb_append_grown)
next
  case False
  then show ?thesis
    by (auto simp: encodeString_def str_enc_def encodeStringHeader_def puthead_def Let_def
        eb_append_grown grown_grown)
qed

lemma small_uint: "0 < i \<Longrightarrow> i < 256 \<Longrightarrow> big_Bytes i = [of_nat i]"
  by (simp add: big_Bytes_pos)

lemma byte_le_iff: "i < 256 \<Longrightarrow> (of_nat i :: byte) \<le> 0x7F \<longleftrightarrow> i < 128"
  by (simp add: word_le_nat_alt unat_of_nat) linarith

lemma length_big_Bytes_u64: "length (big_Bytes (unat (i :: u64))) \<le> 8"
proof (cases "unat i = 0")
  case False
  then have "putint (unat i) = big_Bytes (unat i)"
    using unat_u64_less [of i] by (intro putint_big_Bytes) auto
  then show ?thesis using length_putint [of "unat i"] by simp
qed simp

lemma writeUint_enc: "writeUint i w = grown w (str_enc (big_Bytes (unat i))) [] 0"
proof -
  let ?n = "unat i"
  have n: "?n < 2 ^ 64" using unat_u64_less [of i] by simp
  consider "?n = 0" | "0 < ?n" "?n < 128" | "128 \<le> ?n" by linarith
  then show ?thesis
  proof cases
    case 1
    then show ?thesis by (simp add: writeUint_def str_enc_def puthead_def eb_append_grown)
  next
    case 2
    then show ?thesis
      using byte_le_iff [of ?n] by (simp add: writeUint_def str_enc_def eb_append_grown small_uint)
  next
    case 3
    have "\<not> (length (big_Bytes ?n) = 1 \<and> big_Bytes ?n ! 0 \<le> 0x7F)"
    proof
      assume a: "length (big_Bytes ?n) = 1 \<and> big_Bytes ?n ! 0 \<le> 0x7F"
      then obtain b where b: "big_Bytes ?n = [b]" by (metis One_nat_def length_0_conv length_Suc_conv)
      then have "?n = unat b" by (metis append_Nil from_be_Nil from_be_big_Bytes from_be_snoc mult_0 add_0)
      then show False using a 3 b by (simp add: word_le_nat_alt)
    qed
    then show ?thesis
      using 3 n length_big_Bytes_u64 [of i]
      by (simp add: writeUint_def str_enc_def puthead_def eb_append_grown putint_big_Bytes Let_def)
  qed
qed

lemma length_enc: "length (enc x) < 2 ^ 64 \<Longrightarrow> length (enc x) = length (strs x) + headlen x"
proof (induction x)
  case (Lst xs)
  let ?p = "concat (map enc xs)"
  have p: "length ?p < 2 ^ 64" using Lst.prems by (simp add: list_enc_def)
  have "length (enc x) \<le> length ?p" if "x \<in> set xs" for x
    using member_le_sum_list [of "length (enc x)" "map (length \<circ> enc) xs"] that
    by (auto simp: length_concat comp_def)
  then have "length (enc x) = length (strs x) + headlen x" if "x \<in> set xs" for x
    using Lst.IH that p by (meson le_less_trans)
  then have "(\<Sum>x\<leftarrow>xs. length (enc x)) = (\<Sum>x\<leftarrow>xs. length (strs x) + headlen x)"
    by (auto intro!: arg_cong [where f = sum_list])
  then have "length ?p = length (strs (Lst xs)) + sum_list (map headlen xs)"
    by (simp add: length_concat comp_def sum_list_addf)
  then show ?case using p by (simp add: list_enc_def length_puthead)
qed simp_all

text \<open>Writing a value grows the buffer by exactly those parts, or fails on a negative integer.\<close>

lemma write_grows:
  "length (enc x) < 2 ^ 64 \<Longrightarrow>
     write_item x w =
       (if encodable x then Some (grown w (strs x) (heads (length (eb_str w)) x) (headlen x)) else None)"
  "length (concat (map enc xs)) < 2 ^ 64 \<Longrightarrow>
     write_items xs w =
       (if list_all encodable xs
        then Some (grown w (concat (map strs xs)) (headss (length (eb_str w)) xs) (sum_list (map headlen xs)))
        else None)"
proof (induction x w and xs w rule: write_item_write_items.induct)
  case (1 b w)
  then show ?case by (simp add: encodeString_enc)
next
  case (2 i w)
  then show ?case by (simp add: writeUint_enc)
next
  case (3 b w)
  then show ?case by (simp add: writeBool_def str_enc_def puthead_def eb_append_grown)
next
  case (4 i w)
  then show ?case
    by (auto simp: writeBigInt_def encodeString_enc str_enc_def puthead_def eb_append_grown)
next
  case (5 xs w)
  let ?p = "concat (map enc xs)" and ?n = "length (lheads w)"
  define w1 where "w1 = w\<lparr>lheads := lheads w @ [(length (eb_str w), lhsize w)]\<rparr>"
  have w1: "eb_list w = (?n, w1)"
    and sel: "eb_str w1 = eb_str w" "lheads w1 = lheads w @ [(length (eb_str w), lhsize w)]" "lhsize w1 = lhsize w"
    by (simp_all add: eb_list_def w1_def)
  have p: "length ?p < 2 ^ 64" using 5(2) by (simp add: list_enc_def)
  then have len: "length ?p = length (concat (map strs xs)) + sum_list (map headlen xs)"
    using length_enc [OF 5(2)] by (simp add: list_enc_def length_puthead)
  note IH = 5(1) [OF w1 [symmetric] refl p]
  show ?case
  proof (cases "list_all encodable xs")
    case True
    let ?w2 = "grown w1 (concat (map strs xs)) (headss (length (eb_str w)) xs) (sum_list (map headlen xs))"
    have "write_item (Lst xs) w = Some (listEnd ?n ?w2)"
      using True IH by (simp add: w1 sel)
    moreover have "listEnd ?n ?w2 =
        grown w (strs (Lst xs)) (heads (length (eb_str w)) (Lst xs)) (headlen (Lst xs))"
      using len unfolding listEnd_def
      by (auto simp: sel eb_size_def nth_append headsize_def grown_def w1_def Let_def)
    ultimately show ?thesis using True by simp
  next
    case False
    then show ?thesis using IH by (simp add: w1)
  qed
next
  case (6 w)
  then show ?case by (simp add: grown_def)
next
  case (7 x xs w)
  then show ?case
    by (cases "encodable x") (auto simp: grown_grown)
qed

text \<open>
  Merging: up to position \<open>p\<close> the loop copies string data; the headers of a value then turn its
  strings into its encoding.
\<close>

lemma toBytesLoop_advance:
  assumes "q \<le> p" and "p \<le> length str" and "\<forall>h \<in> set hs. p \<le> fst h"
  shows "toBytesLoop str q hs = take (p - q) (drop q str) @ toBytesLoop str p hs"
proof (cases hs)
  case Nil
  have "drop q str = take (p - q) (drop q str) @ drop (p - q) (drop q str)"
    by (rule append_take_drop_id [symmetric])
  then show ?thesis using Nil assms(1) by (metis drop_drop le_add_diff_inverse2 toBytesLoop.simps(1))
next
  case (Cons h hs')
  obtain off n where h: "h = (off, n)" by force
  then have "p \<le> off" using assms(3) Cons by simp
  then have "off - q = (p - q) + (off - p)" using assms(1) by simp
  then have "take (off - q) (drop q str) = take (p - q) (drop q str) @ take (off - p) (drop p str)"
    using assms(1) by (simp only: take_add drop_drop) simp
  then show ?thesis by (simp add: Cons h)
qed

lemma drop_appendD:
  assumes "drop p str = e @ post" and "p \<le> length str"
  shows "drop (p + length e) str = post" and "p + length e \<le> length str"
proof -
  show "drop (p + length e) str = post"
    using arg_cong [OF assms(1), of "drop (length e)"] by (simp add: add.commute)
  show "p + length e \<le> length str"
    using arg_cong [OF assms(1), of length] assms(2) by simp
qed

lemma toBytesLoop_str:
  assumes "drop p str = e @ post" "p \<le> length str" "q \<le> p" "\<forall>h \<in> set hs. p + length e \<le> fst h"
  shows "toBytesLoop str q hs = take (p - q) (drop q str) @ e @ toBytesLoop str (p + length e) hs"
proof -
  have "toBytesLoop str q hs = take (p - q) (drop q str) @ toBytesLoop str p hs"
    using assms by (intro toBytesLoop_advance) auto
  moreover have "toBytesLoop str p hs = take (length e) (drop p str) @ toBytesLoop str (p + length e) hs"
    using assms drop_appendD [OF assms(1,2)] toBytesLoop_advance [of p "p + length e" str hs] by simp
  ultimately show ?thesis using assms(1) by simp
qed

lemma heads_ge: "h \<in> set (heads p x) \<Longrightarrow> p \<le> fst h" "h \<in> set (headss p xs) \<Longrightarrow> p \<le> fst h"
  by (induction p x and p xs rule: heads_headss.induct) fastforce+

lemma toBytesLoop_heads:
  "\<lbrakk>drop p str = strs x @ post; p \<le> length str; q \<le> p;
    \<forall>h \<in> set hs. p + length (strs x) \<le> fst h\<rbrakk> \<Longrightarrow>
     toBytesLoop str q (heads p x @ hs) =
       take (p - q) (drop q str) @ enc x @ toBytesLoop str (p + length (strs x)) hs"
  "\<lbrakk>drop p str = concat (map strs xs) @ post; p \<le> length str;
    \<forall>h \<in> set hs. p + length (concat (map strs xs)) \<le> fst h\<rbrakk> \<Longrightarrow>
     toBytesLoop str p (headss p xs @ hs) =
       concat (map enc xs) @ toBytesLoop str (p + length (concat (map strs xs))) hs"
proof (induction p x and p xs arbitrary: q hs post and hs post rule: heads_headss.induct)
  case (1 p xs)
  then show ?case by (simp add: list_enc_def)
next
  case (7 p x xs)
  let ?hs = "headss (p + length (strs x)) xs @ hs"
  have hs: "\<forall>h \<in> set ?hs. p + length (strs x) \<le> fst h"
    using 7(5) heads_ge(2) by fastforce
  have str: "drop p str = strs x @ concat (map strs xs) @ post" using 7(3) by simp
  note drop = drop_appendD(1) [OF str 7(4)] and len = drop_appendD(2) [OF str 7(4)]
  have "toBytesLoop str p (heads p x @ ?hs) = enc x @ toBytesLoop str (p + length (strs x)) ?hs"
    using 7(1) [OF str 7(4) le_refl hs] by simp
  moreover have "toBytesLoop str (p + length (strs x)) ?hs =
      concat (map enc xs) @ toBytesLoop str (p + length (strs x) + length (concat (map strs xs))) hs"
    using 7(2) [OF drop len] 7(5) by (simp add: add.assoc)
  ultimately show ?case by (simp add: add.assoc)
qed (simp_all add: toBytesLoop_str)

lemma toBytes_enc:
  "length (strs x) + n < 2 ^ 63 \<Longrightarrow> toBytes (grown encbuf_empty (strs x) (heads 0 x) n) = Some (enc x)"
  using toBytesLoop_heads(1) [of 0 "strs x" x "[]" 0 "[]"]
  by (simp add: toBytes_def encbuf_empty_def eb_size_def)

text \<open>The size of the buffer is never below the length of the encoding.\<close>

lemma intsize_mono: "m \<le> n \<Longrightarrow> intsize m \<le> intsize n"
proof (induction n arbitrary: m rule: intsize.induct)
  case (1 n)
  show ?case
  proof (cases "n div 256 = 0 \<or> m div 256 = 0")
    case False
    moreover have "m div 256 \<le> n div 256" using 1(2) by (rule div_le_mono)
    ultimately show ?thesis using 1(1) by (simp add: intsize.simps [of n] intsize.simps [of m])
  next
    case True
    moreover have "m div 256 \<le> n div 256" using 1(2) by (rule div_le_mono)
    ultimately have "intsize m = 1" by (auto simp: intsize.simps [of m])
    then show ?thesis by (simp add: intsize.simps [of n])
  qed
qed

lemma headsize_mono: "m \<le> n \<Longrightarrow> headsize m \<le> headsize n"
  using intsize_mono [of m n] by (simp add: headsize_def)

lemma length_puthead_le: "length (puthead s l n) \<le> headsize n"
proof (cases "n < 2 ^ 64")
  case False
  have "headsize (2 ^ 64 - 1) \<le> headsize n" using False by (intro headsize_mono) simp
  moreover have "headsize (2 ^ 64 - 1) = 9" by (simp add: headsize_def intsize.simps)
  ultimately show ?thesis using False length_putint [of n] by (simp add: puthead_def Let_def)
qed (simp add: length_puthead)

lemma listEnd_size:
  assumes "lheads w = lheads w0 @ (length (eb_str w0), lhsize w0) # hs" and "eb_size w0 + length p \<le> eb_size w"
  shows "eb_size w0 + length (list_enc p) \<le> eb_size (listEnd (length (lheads w0)) w)"
proof -
  let ?n = "eb_size w - length (eb_str w0) - lhsize w0"
  have "length p \<le> ?n" using assms(2) by (simp add: eb_size_def)
  then have "length (puthead 0xC0 0xF7 (length p)) \<le> headsize ?n"
    using length_puthead_le headsize_mono le_trans by blast
  then show ?thesis using assms
    by (auto simp: listEnd_def list_enc_def Let_def nth_append eb_size_def headsize_def)
qed

lemma write_size:
  "write_item x w = Some w' \<Longrightarrow> (\<exists>hs. lheads w' = lheads w @ hs) \<and> eb_size w + length (enc x) \<le> eb_size w'"
  "write_items xs w = Some w' \<Longrightarrow> (\<exists>hs. lheads w' = lheads w @ hs) \<and> eb_size w + length (concat (map enc xs)) \<le> eb_size w'"
proof (induction x w and xs w arbitrary: w' and w' rule: write_item_write_items.induct)
  case (1 b w)
  then show ?case by (auto simp: encodeString_enc eb_size_def)
next
  case (2 i w)
  then show ?case by (auto simp: writeUint_enc eb_size_def)
next
  case (3 b w)
  then show ?case by (auto simp: writeBool_def str_enc_def puthead_def eb_append_grown eb_size_def)
next
  case (4 i w)
  then show ?case
    by (auto simp: writeBigInt_def encodeString_enc str_enc_def puthead_def eb_append_grown eb_size_def split: if_splits)
next
  case (5 xs w)
  define w1 where "w1 = w\<lparr>lheads := lheads w @ [(length (eb_str w), lhsize w)]\<rparr>"
  have w1: "eb_list w = (length (lheads w), w1)" by (simp add: eb_list_def w1_def)
  obtain w2 where w2: "write_items xs w1 = Some w2" and w': "w' = listEnd (length (lheads w)) w2"
    using 5(2) by (auto simp: w1 split: option.splits)
  have "eb_size w1 = eb_size w" by (simp add: w1_def eb_size_def)
  then obtain hs where h: "lheads w2 = lheads w @ (length (eb_str w), lhsize w) # hs"
    and sz: "eb_size w + length (concat (map enc xs)) \<le> eb_size w2"
    using 5(1) [OF w1 [symmetric] refl w2] by (auto simp: w1_def)
  have "\<exists>hs. lheads w' = lheads w @ hs" using h w' by (auto simp: listEnd_def Let_def split: prod.splits)
  then show ?case using listEnd_size [OF h sz] w' by simp
next
  case (6 w)
  then show ?case by simp
next
  case (7 x xs w)
  then obtain w1 where "write_item x w = Some w1" "write_items xs w1 = Some w'" by (auto split: option.splits)
  then show ?case using 7(1) [of w1] 7(2) [of w1 w'] by auto
qed

lemma EncodeToBytes_enc: "EncodeToBytes x = (if encodable x \<and> length (enc x) < 2 ^ 63 then Some (enc x) else None)"
proof (cases "length (enc x) < 2 ^ 63")
  case True
  then have l: "length (enc x) < 2 ^ 64" by simp
  show ?thesis
    using write_grows(1) [OF l, of encbuf_empty] toBytes_enc [of x "headlen x"] length_enc [OF l] True
    by (simp add: EncodeToBytes_def encbuf_empty_def)
next
  case False
  then show ?thesis
    using write_size(1) [of x encbuf_empty] by (auto simp: EncodeToBytes_def toBytes_def split: option.splits)
qed

section \<open>Reading back\<close>

text \<open>
  Splitting is exactly the inverse of writing a header: \<^verbatim>\<open>Split\<close> accepts a buffer if and only if it
  starts with the canonical encoding of a string or of a list payload, and returns that
  content and the rest.
\<close>

definition kind_enc :: "Kind \<Rightarrow> bytes \<Rightarrow> bytes" where
  "kind_enc k c = (if k = List then list_enc c else str_enc c)"

definition kind_of :: "bytes \<Rightarrow> Kind \<Rightarrow> bool" where
  "kind_of c k \<longleftrightarrow> k = List \<or> (k = Byte \<longleftrightarrow> length c = 1 \<and> c ! 0 \<le> 0x7F)"

lemma unat_add_byte: "unat (t :: byte) + n < 256 \<Longrightarrow> unat (t + of_nat n) = unat t + n"
  by (simp add: unat_word_ariths unat_of_nat)

lemma readSize_putint:
  assumes "56 \<le> n" and "n < 2 ^ 64"
  shows "readSize (putint n @ r) (length (putint n)) = Inr n"
proof -
  have p: "putint n = big_Bytes n" using assms by (intro putint_big_Bytes) auto
  have "0 < length (big_Bytes n)" using length_putint [of n] unfolding p by linarith
  then show ?thesis
    using assms length_putint [of n] hd_big_Bytes [of n]
    by (auto simp: readSize_def p nth_append)
qed

lemma readSize_canonical:
  assumes "readSize b n = Inr s"
  shows "56 \<le> s" and "s < 2 ^ 64" and "putint s = take n b" and "1 \<le> n" and "n \<le> 8" and "n \<le> length b"
proof -
  show *: "56 \<le> s" "n \<le> length b" "1 \<le> n" "n \<le> 8"
    using assms by (auto simp: readSize_def Let_def split: if_splits)
  then have s: "s = from_be (take n b)" and "b ! 0 \<noteq> 0"
    using assms by (auto simp: readSize_def Let_def split: if_splits)
  then have big: "big_Bytes s = take n b"
    using * by (auto intro!: big_Bytes_from_be)
  have "s < 256 ^ length (take n b)" unfolding s by (rule from_be_less)
  also have "\<dots> \<le> 256 ^ 8" using * by (intro power_increasing) auto
  finally show "s < 2 ^ 64" by simp
  then show "putint s = take n b"
    using * big by (simp add: putint_big_Bytes)
qed

lemma Split_list_enc:
  assumes "length c < 2 ^ 64"
  shows "Split (list_enc c @ r) = Inr (List, c, r)"
proof (cases "length c < 56")
  case True
  then have "unat (0xC0 + of_nat (length c) :: byte) = 0xC0 + length c"
    by (subst unat_add_byte) simp_all
  then show ?thesis using True by (simp add: Split_def readKind_def list_enc_def puthead_def)
next
  case False
  let ?p = "putint (length c)"
  have "unat (0xF7 + of_nat (length ?p) :: byte) = 0xF7 + length ?p"
    using length_putint [of "length c"] by (subst unat_add_byte) simp_all
  moreover have "1 \<le> length ?p" using length_putint [of "length c"] by simp
  ultimately show ?thesis
    using False readSize_putint [of "length c" "c @ r"] assms
    by (simp add: Split_def readKind_def list_enc_def puthead_def Let_def)
qed

lemma Split_str_enc:
  assumes "length c < 2 ^ 64"
  shows "Split (str_enc c @ r) = Inr (if length c = 1 \<and> c ! 0 \<le> 0x7F then Byte else String, c, r)"
proof -
  consider "length c = 1 \<and> c ! 0 \<le> 0x7F" | "\<not> (length c = 1 \<and> c ! 0 \<le> 0x7F)" "length c < 56"
    | "56 \<le> length c" by linarith
  then show ?thesis
  proof cases
    case 1
    then obtain b where "c = [b]" by (metis One_nat_def length_0_conv length_Suc_conv)
    then show ?thesis using 1 by (simp add: Split_def readKind_def str_enc_def word_le_nat_alt)
  next
    case 2
    then have "unat (0x80 + of_nat (length c) :: byte) = 0x80 + length c"
      by (subst unat_add_byte) simp_all
    moreover have "\<not> (length c = 1 \<and> (c @ r) ! 0 < 128)"
      using 2 by (cases c) (auto simp: word_le_nat_alt word_less_nat_alt)
    ultimately show ?thesis using 2
      by (auto simp: Split_def readKind_def str_enc_def puthead_def)
  next
    case 3
    let ?p = "putint (length c)"
    have "unat (0xB7 + of_nat (length ?p) :: byte) = 0xB7 + length ?p"
      using length_putint [of "length c"] by (subst unat_add_byte) simp_all
    moreover have "1 \<le> length ?p \<and> length ?p \<le> 8" by (rule length_putint)
    ultimately show ?thesis
      using 3 readSize_putint [of "length c" "c @ r"] assms
      by (simp add: Split_def readKind_def str_enc_def puthead_def Let_def)
  qed
qed

lemma tag_byte: "t \<le> unat (x :: byte) \<Longrightarrow> unat (w :: byte) = t \<Longrightarrow> w + of_nat (unat x - t) = x"
  by (auto simp: of_nat_diff)

text \<open>The five shapes of a header that \<^verbatim>\<open>readKind\<close> accepts.\<close>

lemma readKind_cases:
  assumes "readKind (x # xs) = Inr (k, ts, cs)"
  obtains (byte) "k = Byte" "ts = 0" "cs = 1" "x \<le> 0x7F"
  | (short) "k = String" "ts = 1" "x = 0x80 + of_nat cs" "cs < 56" "cs \<le> length xs"
      "\<not> (cs = 1 \<and> xs ! 0 < 128)"
  | (long) n where "k = String" "ts = n + 1" "x = 0xB7 + of_nat n" "readSize xs n = Inr cs"
      "n + cs \<le> length xs"
  | (short_list) "k = List" "ts = 1" "x = 0xC0 + of_nat cs" "cs < 56" "cs \<le> length xs"
  | (long_list) n where "k = List" "ts = n + 1" "x = 0xF7 + of_nat n" "readSize xs n = Inr cs"
      "n + cs \<le> length xs"
proof -
  let ?b = "unat x"
  note prog = readKind_progress(2) [OF assms]
  have x: "0x80 \<le> ?b \<Longrightarrow> 0x80 + of_nat (?b - 0x80) = x" "0xB7 \<le> ?b \<Longrightarrow> 0xB7 + of_nat (?b - 0xB7) = x"
    "0xC0 \<le> ?b \<Longrightarrow> 0xC0 + of_nat (?b - 0xC0) = x" "0xF7 \<le> ?b \<Longrightarrow> 0xF7 + of_nat (?b - 0xF7) = x"
    by (simp_all add: tag_byte)
  consider "?b < 0x80" | "0x80 \<le> ?b" "?b < 0xB8" | "0xB8 \<le> ?b" "?b < 0xC0" | "0xC0 \<le> ?b" "?b < 0xF8"
    | "0xF8 \<le> ?b" by linarith
  then show thesis
  proof cases
    case 1
    then show ?thesis using assms
      by (intro byte) (auto simp: readKind_def Let_def word_le_nat_alt split: if_splits)
  next
    case 2
    have "cs = ?b - 0x80" using assms 2 by (auto simp: readKind_def Let_def split: if_splits)
    then have "x = 0x80 + of_nat cs" using x(1) [OF 2(1)] by (simp only:)
    then show ?thesis using assms prog 2
      by (intro short) (auto simp: readKind_def Let_def split: if_splits)
  next
    case 3
    then show ?thesis using assms x(2) prog
      by (intro long [of "?b - 0xB7"]) (auto simp: readKind_def Let_def split: if_splits sum.splits)
  next
    case 4
    then show ?thesis using assms x(3) [OF 4(1)] prog
      by (intro short_list) (auto simp: readKind_def Let_def split: if_splits)
  next
    case 5
    then show ?thesis using assms x(4) prog
      by (intro long_list [of "?b - 0xF7"]) (auto simp: readKind_def Let_def split: if_splits sum.splits)
  qed
qed

lemma readKind_canonical:
  assumes "readKind b = Inr (k, ts, cs)"
  shows "b = kind_enc k (take cs (drop ts b)) @ drop (ts + cs) b \<and> kind_of (take cs (drop ts b)) k \<and> cs < 2 ^ 64"
proof -
  obtain x xs where b: "b = x # xs"
    using assms by (cases b) (auto simp: readKind_def)
  from assms [unfolded b] show ?thesis
  proof (cases rule: readKind_cases)
    case byte
    then show ?thesis by (simp add: b kind_enc_def str_enc_def kind_of_def)
  next
    case short
    have "\<not> (length (take cs xs) = 1 \<and> take cs xs ! 0 \<le> 0x7F)"
      using short by (auto simp: word_le_nat_alt word_less_nat_alt min_def)
    then show ?thesis
      using short by (auto simp: b kind_enc_def str_enc_def puthead_def kind_of_def)
  next
    case (long n)
    note c = readSize_canonical [OF long(4)]
    have len: "length (take cs (drop n xs)) = cs" using long by simp
    then have "str_enc (take cs (drop n xs)) = x # take n xs @ take cs (drop n xs)"
      using long c by (auto simp: str_enc_def puthead_def Let_def)
    then show ?thesis
      using long c len by (auto simp: b kind_enc_def kind_of_def take_add [symmetric] simp flip: append_assoc)
  next
    case short_list
    then show ?thesis by (simp add: b kind_enc_def list_enc_def puthead_def kind_of_def)
  next
    case (long_list n)
    note c = readSize_canonical [OF long_list(4)]
    have len: "length (take cs (drop n xs)) = cs" using long_list by simp
    then have "list_enc (take cs (drop n xs)) = x # take n xs @ take cs (drop n xs)"
      using long_list c by (auto simp: list_enc_def puthead_def Let_def)
    then show ?thesis
      using long_list c len by (auto simp: b kind_enc_def kind_of_def take_add [symmetric] simp flip: append_assoc)
  qed
qed

lemma Split_iff:
  assumes "length c < 2 ^ 64"
  shows "Split b = Inr (k, c, r) \<longleftrightarrow> b = kind_enc k c @ r \<and> kind_of c k"
proof
  assume "Split b = Inr (k, c, r)"
  then obtain ts cs where k: "readKind b = Inr (k, ts, cs)"
    and c: "c = take cs (drop ts b)" "r = drop (ts + cs) b"
    by (auto simp: Split_def split: sum.splits)
  show "b = kind_enc k c @ r \<and> kind_of c k" using readKind_canonical [OF k] unfolding c by simp
next
  assume "b = kind_enc k c @ r \<and> kind_of c k"
  then show "Split b = Inr (k, c, r)"
    using assms by (cases k) (auto simp: kind_enc_def kind_of_def Split_list_enc Split_str_enc)
qed

definition content :: "item \<Rightarrow> bytes" where
  "content x = (case x of
     Str b \<Rightarrow> b | UInt i \<Rightarrow> big_Bytes (unat i) | Bool b \<Rightarrow> if b then [1] else []
   | BigInt i \<Rightarrow> big_Bytes (nat i) | Lst xs \<Rightarrow> concat (map enc xs))"

lemma enc_content: "enc x = (if is_Lst x then list_enc (content x) else str_enc (content x))"
  by (cases x) (simp_all add: content_def)

lemma length_content: "length (content x) \<le> length (enc x)"
  by (simp add: enc_content list_enc_def str_enc_def)

lemma Split_enc:
  assumes "length (enc x) < 2 ^ 64"
  shows "Split (enc x @ r) =
    Inr (if is_Lst x then List else if length (content x) = 1 \<and> content x ! 0 \<le> 0x7F then Byte else String,
         content x, r)"
proof -
  have "length (content x) < 2 ^ 64" using length_content [of x] assms by linarith
  then show ?thesis by (simp add: enc_content Split_list_enc Split_str_enc)
qed

lemma CountValues_loop_step:
  "readKind b = Inr (k, ts, cs) \<Longrightarrow> CountValues_loop i b = CountValues_loop (i + 1) (drop (ts + cs) b)"
  using readKind_progress [of b k ts cs] by (cases "b = []") (simp_all add: CountValues_loop.simps [of i])

lemma CountValues_loop_encs:
  "length (concat (map enc xs)) < 2 ^ 64 \<Longrightarrow> CountValues_loop i (concat (map enc xs)) = Inr (i + length xs)"
proof (induction xs arbitrary: i)
  case Nil
  then show ?case by (simp add: CountValues_loop.simps)
next
  case (Cons x xs)
  let ?r = "concat (map enc xs)"
  obtain k c where "Split (enc x @ ?r) = Inr (k, c, ?r)"
    using Split_enc [of x ?r] Cons.prems by auto
  then obtain ts cs where k: "readKind (enc x @ ?r) = Inr (k, ts, cs)" and r: "drop (ts + cs) (enc x @ ?r) = ?r"
    by (auto simp: Split_def split: sum.splits)
  have "CountValues_loop i (enc x @ ?r) = CountValues_loop (i + 1) ?r"
    using CountValues_loop_step [OF k, of i] unfolding r .
  then show ?case using Cons by simp
qed

section \<open>Properties\<close>

text \<open>
  C17. The encoder with its deferred list headers (list, listEnd, toBytes) produces the
  recursive RLP encoding of every value, and fails exactly when the value contains a negative
  big integer or its encoding has more bytes than an int can count.
\<close>

theorem EncodeToBytes_reference:
  "EncodeToBytes x = (if encodable x \<and> length (enc x) < 2 ^ 63 then Some (enc x) else None)"
  by (rule EncodeToBytes_enc)

text \<open>
  C18. Split is the inverse of the header encoding and accepts canonical input only: it
  returns kind k, content c and rest r exactly on the buffers that consist of the canonical
  encoding of c as a value of kind k followed by r.
\<close>

theorem Split_accepts_canonical:
  assumes "length c < 2 ^ 64"
  shows "Split b = Inr (k, c, r) \<longleftrightarrow> b = kind_enc k c @ r \<and> kind_of c k"
  by (rule Split_iff [OF assms])

theorem Split_accepts_canonical_witness:
  "Split [0x82, 0x04, 0x00, 0xFF] = Inr (String, [0x04, 0x00], [0xFF])"
  using Split_accepts_canonical [of "[0x04, 0x00]" "[0x82, 0x04, 0x00, 0xFF]" String "[0xFF]"]
  by (simp add: kind_enc_def kind_of_def str_enc_def puthead_def)

text \<open>
  C19. What EncodeToBytes returns for a list is taken apart by SplitList, whatever follows
  it, and the payload holds as many values as the list, as CountValues reports. And whatever
  two values EncodeToBytes returned an encoding for, strings or lists, neither encoding is a
  proper prefix of the other, so a stream of encodings has one reading.
\<close>

theorem SplitList_CountValues_EncodeToBytes:
  assumes "EncodeToBytes (Lst xs) = Some l" and "EncodeToBytes x = Some b" and "EncodeToBytes y = Some b'"
  shows "(\<exists>payload. SplitList (l @ rest) = Inr (payload, rest) \<and> CountValues payload = Inr (length xs)) \<and>
         (b @ rest = b' @ rest' \<longrightarrow> b = b' \<and> rest = rest')"
proof
  have e: "l = enc (Lst xs)" "b = enc x" "b' = enc y"
    and n: "length (enc (Lst xs)) < 2 ^ 64" "length (enc x) < 2 ^ 64" "length (enc y) < 2 ^ 64"
    using assms by (auto simp: EncodeToBytes_enc split: if_splits)
  have "length (concat (map enc xs)) < 2 ^ 64" using n(1) by (simp add: list_enc_def)
  then show "\<exists>payload. SplitList (l @ rest) = Inr (payload, rest) \<and> CountValues payload = Inr (length xs)"
    by (simp add: SplitList_def CountValues_def CountValues_loop_encs e(1) Split_list_enc)
  have "rest = rest'" if "b @ rest = b' @ rest'"
    using Split_enc [OF n(2), of rest] Split_enc [OF n(3), of rest'] that by (simp add: e)
  then show "b @ rest = b' @ rest' \<longrightarrow> b = b' \<and> rest = rest'" by auto
qed

theorem SplitList_CountValues_EncodeToBytes_witness:
  "(\<exists>payload. SplitList ([0xC2, 0x01, 0x80] @ [0x07]) = Inr (payload, [0x07]) \<and> CountValues payload = Inr 2) \<and>
   (\<nexists>rest'. [0x01] @ [0x07] = [0x80 :: byte] @ rest')"
proof -
  have l: "EncodeToBytes (Lst [Bool True, Str []]) = Some [0xC2, 0x01, 0x80]"
    by (simp add: EncodeToBytes_enc str_enc_def list_enc_def puthead_def)
  have "EncodeToBytes (Bool True) = Some [0x01]" "EncodeToBytes (Str []) = Some [0x80]"
    by (simp_all add: EncodeToBytes_enc str_enc_def puthead_def)
  note f = SplitList_CountValues_EncodeToBytes [OF l this, of "[0x07]"]
  have "\<nexists>rest'. [0x01] @ [0x07] = [0x80 :: byte] @ rest'" using f by simp
  moreover have "\<exists>payload. SplitList ([0xC2, 0x01, 0x80] @ [0x07]) = Inr (payload, [0x07]) \<and> CountValues payload = Inr 2"
    using f by (simp add: numeral_2_eq_2)
  ultimately show ?thesis by blast
qed

end
