(* ===== verification/State_Root.thy ===== *)
theory State_Root
  imports StateDB_Ops Rlp
begin

text \<open>
  Computing the root of the state (\<^verbatim>\<open>IntermediateRoot\<close> of \<^verbatim>\<open>src/core/state/statedb.go\<close>): finalise, then
  write every pending object with its storage to the account trie. An account is stored by its
  RLP encoding, and one that cannot be encoded is a panic.
\<close>

section \<open>Writing objects\<close>






section \<open>Which accounts can be encoded\<close>



section \<open>The loop\<close>




lemma so_address_updateRoot [simp]: "so_address (updateRoot E obj) = so_address obj"
  by (simp add: updateRoot_def updateTrie_def so_finalise_def Let_def case_prod_beta)


section \<open>The root\<close>


definition dropped_account :: "env \<Rightarrow> bool \<Rightarrow> StateDB \<Rightarrow> address \<Rightarrow> stateObject \<Rightarrow> bool" where
  "dropped_account E d s a obj \<longleftrightarrow> deleted obj \<or> dirties s a \<noteq> None \<and> (suicided obj \<or> d \<and> so_empty E obj)"

definition final_object :: "env \<Rightarrow> bool \<Rightarrow> StateDB \<Rightarrow> address \<Rightarrow> stateObject \<Rightarrow> stateObject" where
  "final_object E d s a obj = (if dirties s a = None then obj else finalise_object E d obj)"



lemma final_object_simps [simp]:
  "deleted (final_object E d s a obj) = dropped_account E d s a obj" "so_data (final_object E d s a obj) = so_data obj"
  by (auto simp: final_object_def finalise_object_def dropped_account_def so_finalise_def)







end
