(* ===== verification/Evm.thy ===== *)
theory Evm
  imports StateDB_Ops Rlp
begin

text \<open>
  The call layer of the virtual machine (\<^verbatim>\<open>src/core/vm/evm.go\<close>, \<^verbatim>\<open>src/core/vm/contract.go\<close>) and
  the ledger functions it is configured with (\<^verbatim>\<open>src/core/evm.go\<close>): \<^verbatim>\<open>Call\<close>, \<^verbatim>\<open>CallCode\<close>,
  \<^verbatim>\<open>DelegateCall\<close>, \<^verbatim>\<open>StaticCall\<close>, \<^verbatim>\<open>Create\<close> and \<^verbatim>\<open>Create2\<close> over the state. The byte code
  interpreter and the precompiled contracts are reached through Go interfaces; both
  interfaces are arguments of the model. Tracing hooks are left out.
\<close>

section \<open>Data\<close>

datatype vmError =
    ErrOutOfGas
  | ErrCodeStoreOutOfGas
  | ErrDepth
  | ErrTraceLimitReached
  | ErrInsufficientBalance
  | ErrContractAddressCollision
  | ErrNoCompatibleInterpreter
  | errExecutionReverted
  | errMaxCodeSizeExceeded
  | ErrOther string

record Contract =
  c_CallerAddress :: address
  c_self :: address
  c_Code :: bytes
  c_CodeHash :: hash
  c_CodeAddr :: "address option"
  c_Gas :: u64
  c_value :: int

text \<open>A \<^verbatim>\<open>ContractRef\<close> is an account or the contract that is making a nested call.\<close>

datatype ContractRef = AccountRef address | ContractPtr Contract

fun ref_Address :: "ContractRef \<Rightarrow> address" where
  "ref_Address (AccountRef a) = a"
| "ref_Address (ContractPtr c) = c_self c"

definition NewContract :: "ContractRef \<Rightarrow> address \<Rightarrow> int \<Rightarrow> u64 \<Rightarrow> Contract" where
  "NewContract caller object amount gas =
     \<lparr>c_CallerAddress = ref_Address caller, c_self = object, c_Code = [], c_CodeHash = 0,
      c_CodeAddr = None, c_Gas = gas, c_value = amount\<rparr>"

text \<open>\<^verbatim>\<open>AsDelegate\<close> asserts that the caller is a contract; otherwise it panics.\<close>

fun AsDelegate :: "ContractRef \<Rightarrow> Contract \<Rightarrow> Contract option" where
  "AsDelegate (ContractPtr parent) c =
     Some (c\<lparr>c_CallerAddress := c_CallerAddress parent, c_value := c_value parent\<rparr>)"
| "AsDelegate (AccountRef a) c = None"

definition SetCallCode :: "address \<Rightarrow> hash \<Rightarrow> bytes \<Rightarrow> Contract \<Rightarrow> Contract" where
  "SetCallCode addr h code c = c\<lparr>c_Code := code, c_CodeHash := h, c_CodeAddr := Some addr\<rparr>"

definition UseGas :: "u64 \<Rightarrow> u64 \<Rightarrow> u64 option" where
  "UseGas gas available = (if available < gas then None else Some (available - gas))"

definition GetByte :: "u64 \<Rightarrow> Contract \<Rightarrow> byte" where
  "GetByte n c = (if unat n < length (c_Code c) then c_Code c ! unat n else 0)"

record PrecompiledContract =
  RequiredGas :: "bytes \<Rightarrow> u64"
  pc_Run :: "bytes \<Rightarrow> bytes \<times> vmError option"

text \<open>
  What a run returns: the output, the error if any, the gas left and the state. \<open>None\<close> is a
  panic.
\<close>

type_synonym run_result = "(bytes \<times> vmError option \<times> u64 \<times> StateDB) option"

record Interpreter =
  CanRun :: "bytes \<Rightarrow> bool"
  int_Run :: "Contract \<Rightarrow> bytes \<Rightarrow> bool \<Rightarrow> StateDB \<Rightarrow> run_result"

record EVM =
  evm_env :: env
  evm_depth :: nat
  NoRecursion :: bool
  IsHomestead :: bool
  IsEIP158 :: bool
  IsByzantium :: bool
  IsIstanbul :: bool
  PrecompiledContracts :: "address \<Rightarrow> PrecompiledContract"
  interpreters :: "Interpreter list"

definition CallCreateDepth :: nat where "CallCreateDepth = 1024"
definition MaxCodeSize :: nat where "MaxCodeSize = 24576"
definition CreateDataGas :: u64 where "CreateDataGas = 200"

text \<open>The precompiles of the active rules: four, eight or nine addresses.\<close>

definition precompile_count :: "EVM \<Rightarrow> nat" where
  "precompile_count evm = (if IsIstanbul evm then 9 else if IsByzantium evm then 8 else 4)"

definition precompile :: "EVM \<Rightarrow> address \<Rightarrow> PrecompiledContract option" where
  "precompile evm a =
     (if 1 \<le> unat a \<and> unat a \<le> precompile_count evm then Some (PrecompiledContracts evm a) else None)"

section \<open>The ledger\<close>

definition CanTransfer :: "env \<Rightarrow> address \<Rightarrow> int \<Rightarrow> StateDB \<Rightarrow> bool \<times> StateDB" where
  "CanTransfer E addr amount s =
     (if addr = NullAddress then (True, s)
      else let (b, s') = GetBalance E addr s in (amount \<le> b, s'))"

definition Transfer :: "env \<Rightarrow> address \<Rightarrow> address \<Rightarrow> int \<Rightarrow> StateDB \<Rightarrow> StateDB" where
  "Transfer E sender recipient amount s =
     (let s1 = (if sender \<noteq> NullAddress then SubBalance E sender amount s else s)
      in AddBalance E recipient amount s1)"

section \<open>Running a contract\<close>

definition RunPrecompiledContract :: "PrecompiledContract \<Rightarrow> bytes \<Rightarrow> Contract \<Rightarrow> StateDB \<Rightarrow> run_result" where
  "RunPrecompiledContract p input c s =
     (case UseGas (RequiredGas p input) (c_Gas c) of
        Some g \<Rightarrow> let (ret, err) = pc_Run p input in Some (ret, err, g, s)
      | None \<Rightarrow> Some ([], Some ErrOutOfGas, c_Gas c, s))"

fun run_interpreters :: "Interpreter list \<Rightarrow> Contract \<Rightarrow> bytes \<Rightarrow> bool \<Rightarrow> StateDB \<Rightarrow> run_result" where
  "run_interpreters [] c input readOnly s = Some ([], Some ErrNoCompatibleInterpreter, c_Gas c, s)"
| "run_interpreters (i # is) c input readOnly s =
     (if CanRun i (c_Code c) then int_Run i c input readOnly s
      else run_interpreters is c input readOnly s)"

definition run :: "EVM \<Rightarrow> Contract \<Rightarrow> bytes \<Rightarrow> bool \<Rightarrow> StateDB \<Rightarrow> run_result" where
  "run evm c input readOnly s =
     (case Option.bind (c_CodeAddr c) (precompile evm) of
        Some p \<Rightarrow> RunPrecompiledContract p input c s
      | None \<Rightarrow> run_interpreters (interpreters evm) c input readOnly s)"

text \<open>The common end of the four calls: an error reverts, and burns the gas unless it is a revert.\<close>

type_synonym call_result = "(bytes \<times> u64 \<times> vmError option \<times> StateDB) option"

definition settle :: "EVM \<Rightarrow> nat \<Rightarrow> run_result \<Rightarrow> call_result" where
  "settle evm snapshot r =
     (case r of
        None \<Rightarrow> None
      | Some (ret, None, gas, s) \<Rightarrow> Some (ret, gas, None, s)
      | Some (ret, Some err, gas, s) \<Rightarrow>
          (case RevertToSnapshot (evm_env evm) snapshot s of
             None \<Rightarrow> None
           | Some s' \<Rightarrow> Some (ret, if err = errExecutionReverted then gas else 0, Some err, s')))"

definition load_code :: "env \<Rightarrow> address \<Rightarrow> Contract \<Rightarrow> StateDB \<Rightarrow> Contract \<times> StateDB" where
  "load_code E addr c s =
     (let (h, s1) = GetCodeHash E addr s; (code, s2) = GetCode E addr s1
      in (SetCallCode addr h code c, s2))"

definition Call :: "EVM \<Rightarrow> ContractRef \<Rightarrow> address \<Rightarrow> bytes \<Rightarrow> u64 \<Rightarrow> int \<Rightarrow> StateDB \<Rightarrow> call_result" where
  "Call evm caller addr input gas amount s =
     (let E = evm_env evm in
      if NoRecursion evm \<and> evm_depth evm > 0 then Some ([], gas, None, s)
      else if evm_depth evm > CallCreateDepth then Some ([], gas, Some ErrDepth, s)
      else let (can, s1) = CanTransfer E (ref_Address caller) amount s in
      if \<not> can then Some ([], gas, Some ErrInsufficientBalance, s1)
      else let (snapshot, s2) = Snapshot s1; (ex, s3) = Exist E addr s2 in
      if \<not> ex \<and> precompile evm addr = None \<and> IsEIP158 evm \<and> amount = 0 then Some ([], gas, None, s3)
      else let s4 = (if ex then s3 else CreateAccount E addr s3);
               s5 = Transfer E (ref_Address caller) addr amount s4;
               (c, s6) = load_code E addr (NewContract caller addr amount gas) s5
           in settle evm snapshot (run evm c input False s6))"

definition CallCode :: "EVM \<Rightarrow> ContractRef \<Rightarrow> address \<Rightarrow> bytes \<Rightarrow> u64 \<Rightarrow> int \<Rightarrow> StateDB \<Rightarrow> call_result" where
  "CallCode evm caller addr input gas amount s =
     (let E = evm_env evm in
      if NoRecursion evm \<and> evm_depth evm > 0 then Some ([], gas, None, s)
      else if evm_depth evm > CallCreateDepth then Some ([], gas, Some ErrDepth, s)
      else let (can, s1) = CanTransfer E (ref_Address caller) amount s in
      if \<not> can then Some ([], gas, Some ErrInsufficientBalance, s1)
      else let (snapshot, s2) = Snapshot s1;
               (c, s3) = load_code E addr (NewContract caller (ref_Address caller) amount gas) s2
           in settle evm snapshot (run evm c input False s3))"

text \<open>\<^verbatim>\<open>NewContract\<close> gets a nil value here, which \<^verbatim>\<open>AsDelegate\<close> replaces at once.\<close>

definition DelegateCall :: "EVM \<Rightarrow> ContractRef \<Rightarrow> address \<Rightarrow> bytes \<Rightarrow> u64 \<Rightarrow> StateDB \<Rightarrow> call_result" where
  "DelegateCall evm caller addr input gas s =
     (let E = evm_env evm in
      if NoRecursion evm \<and> evm_depth evm > 0 then Some ([], gas, None, s)
      else if evm_depth evm > CallCreateDepth then Some ([], gas, Some ErrDepth, s)
      else let (snapshot, s1) = Snapshot s in
      case AsDelegate caller (NewContract caller (ref_Address caller) 0 gas) of
        None \<Rightarrow> None
      | Some c0 \<Rightarrow>
          let (c, s2) = load_code E addr c0 s1
          in settle evm snapshot (run evm c input False s2))"

definition StaticCall :: "EVM \<Rightarrow> ContractRef \<Rightarrow> address \<Rightarrow> bytes \<Rightarrow> u64 \<Rightarrow> StateDB \<Rightarrow> call_result" where
  "StaticCall evm caller addr input gas s =
     (let E = evm_env evm in
      if NoRecursion evm \<and> evm_depth evm > 0 then Some ([], gas, None, s)
      else if evm_depth evm > CallCreateDepth then Some ([], gas, Some ErrDepth, s)
      else let (snapshot, s1) = Snapshot s;
               (c, s2) = load_code E addr (NewContract caller addr 0 gas) s1;
               s3 = AddBalance E addr 0 s2
           in settle evm snapshot (run evm c input True s3))"

section \<open>Creating a contract\<close>

type_synonym create_result = "(bytes \<times> address \<times> u64 \<times> vmError option \<times> StateDB) option"

text \<open>
  The end of \<^verbatim>\<open>create\<close>: storing the returned code costs gas; a code that is too long, an
  error of the run, or (from Homestead on) missing gas for the code reverts the creation.
\<close>

definition store_code :: "EVM \<Rightarrow> address \<Rightarrow> bytes \<times> vmError option \<times> u64 \<times> StateDB \<Rightarrow>
    bytes \<times> vmError option \<times> u64 \<times> StateDB" where
  "store_code evm addr r =
     (case r of
        (ret, Some err, gas, s) \<Rightarrow> (ret, Some err, gas, s)
      | (ret, None, gas, s) \<Rightarrow>
          if IsEIP158 evm \<and> length ret > MaxCodeSize then (ret, None, gas, s)
          else (case UseGas (of_nat (length ret) * CreateDataGas) gas of
                  Some gas' \<Rightarrow> (ret, None, gas', SetCode (evm_env evm) addr ret s)
                | None \<Rightarrow> (ret, Some ErrCodeStoreOutOfGas, gas, s)))"

definition settle_create :: "EVM \<Rightarrow> nat \<Rightarrow> address \<Rightarrow> run_result \<Rightarrow> create_result" where
  "settle_create evm snapshot addr r =
     (case r of
        None \<Rightarrow> None
      | Some r1 \<Rightarrow>
          let (ret, err, gas, s) = store_code evm addr r1;
              exceeded = (IsEIP158 evm \<and> length ret > MaxCodeSize);
              err' = (if exceeded \<and> err = None then Some errMaxCodeSizeExceeded else err)
          in if exceeded \<or> (err \<noteq> None \<and> (IsHomestead evm \<or> err \<noteq> Some ErrCodeStoreOutOfGas))
             then (case RevertToSnapshot (evm_env evm) snapshot s of
                     None \<Rightarrow> None
                   | Some s' \<Rightarrow> Some (ret, addr, if err = Some errExecutionReverted then gas else 0, err', s'))
             else Some (ret, addr, gas, err', s))"

definition create :: "EVM \<Rightarrow> ContractRef \<Rightarrow> bytes \<Rightarrow> hash \<Rightarrow> u64 \<Rightarrow> int \<Rightarrow> address \<Rightarrow> StateDB \<Rightarrow> create_result" where
  "create evm caller code codeHash gas amount addr s =
     (let E = evm_env evm in
      if evm_depth evm > CallCreateDepth then Some ([], 0, gas, Some ErrDepth, s)
      else let (can, s1) = CanTransfer E (ref_Address caller) amount s in
      if \<not> can then Some ([], 0, gas, Some ErrInsufficientBalance, s1)
      else let (nonce, s2) = GetNonce E (ref_Address caller) s1;
               s3 = SetNonce E (ref_Address caller) (nonce + 1) s2;
               (contractHash, s4) = GetCodeHash E addr s3;
               (n, s5) = GetNonce E addr s4 in
      if n \<noteq> 0 \<or> (contractHash \<noteq> 0 \<and> contractHash \<noteq> emptyCodeHash E)
      then Some ([], 0, 0, Some ErrContractAddressCollision, s5)
      else let (snapshot, s6) = Snapshot s5;
               s7 = CreateAccount E addr s6;
               s8 = (if IsEIP158 evm then SetNonce E addr 1 s7 else s7);
               s9 = Transfer E (ref_Address caller) addr amount s8;
               c = (NewContract caller addr amount gas)
                     \<lparr>c_Code := code, c_CodeHash := codeHash, c_CodeAddr := Some addr\<rparr>
           in if NoRecursion evm \<and> evm_depth evm > 0 then Some ([], addr, gas, None, s9)
              else settle_create evm snapshot addr (run evm c [] False s9))"

text \<open>
  \<^verbatim>\<open>crypto.CreateAddress\<close> hashes the RLP list of the address and the nonce and drops the error
  of the encoder, which these two values cannot cause.
\<close>

definition CreateAddress :: "env \<Rightarrow> address \<Rightarrow> u64 \<Rightarrow> address" where
  "CreateAddress E a nonce =
     (let data = (case EncodeToBytes (Lst [Str (addr_bytes a), UInt nonce]) of Some d \<Rightarrow> d | None \<Rightarrow> [])
      in bytes_to_address (drop 12 (hash_bytes (e_keccak E data))))"

definition CreateAddress2 :: "env \<Rightarrow> address \<Rightarrow> hash \<Rightarrow> hash \<Rightarrow> address" where
  "CreateAddress2 E a salt inithash =
     bytes_to_address (drop 12 (hash_bytes
       (e_keccak E (0xff # addr_bytes a @ hash_bytes salt @ hash_bytes inithash))))"

definition Create :: "EVM \<Rightarrow> ContractRef \<Rightarrow> bytes \<Rightarrow> u64 \<Rightarrow> int \<Rightarrow> StateDB \<Rightarrow> create_result" where
  "Create evm caller code gas amount s =
     (let (nonce, s1) = GetNonce (evm_env evm) (ref_Address caller) s
      in create evm caller code 0 gas amount (CreateAddress (evm_env evm) (ref_Address caller) nonce) s1)"

definition Create2 :: "EVM \<Rightarrow> ContractRef \<Rightarrow> bytes \<Rightarrow> u64 \<Rightarrow> int \<Rightarrow> int \<Rightarrow> StateDB \<Rightarrow> create_result" where
  "Create2 evm caller code gas endowment salt s =
     (let h = e_keccak (evm_env evm) code
      in create evm caller code h gas endowment
           (CreateAddress2 (evm_env evm) (ref_Address caller) (of_nat (nat \<bar>salt\<bar>)) h) s)"

section \<open>Steps of the ledger and of loading code\<close>

lemma CanTransfer_refines:
  assumes "wf_state E s"
  shows "step E s (snd (CanTransfer E a n s))" "world_of E (snd (CanTransfer E a n s)) = world_of E s"
    "fst (CanTransfer E a n s) = (a = NullAddress \<or> n \<le> balance_of (world_of E s) a)"
  using read_steps(1,2) [OF assms, of a] reads_of(1) [OF assms, of a] step_refl [OF assms]
  by (simp_all add: CanTransfer_def case_prod_beta)

definition transferred :: "env \<Rightarrow> address \<Rightarrow> address \<Rightarrow> int \<Rightarrow> world \<Rightarrow> world" where
  "transferred E sender recipient n w =
     on_account E recipient (\<lambda>v. v\<lparr>v_balance := v_balance v + n\<rparr>)
       (if sender \<noteq> NullAddress then on_account E sender (\<lambda>v. v\<lparr>v_balance := v_balance v - n\<rparr>) w else w)"

lemma Transfer_refines:
  assumes "wf_state E s"
  shows "step E s (Transfer E a b n s)" "world_of E (Transfer E a b n s) = transferred E a b n (world_of E s)"
proof -
  let ?s = "if a \<noteq> NullAddress then SubBalance E a n s else s"
  have st: "step E s ?s" using SubBalance_refines(1) [OF assms] step_refl [OF assms] by simp
  note w = step_wf [OF st]
  from step_trans [OF st AddBalance_refines(1) [OF w]] show "step E s (Transfer E a b n s)"
    by (simp add: Transfer_def Let_def)
  show "world_of E (Transfer E a b n s) = transferred E a b n (world_of E s)"
    using AddBalance_refines(2) [OF w] SubBalance_refines(2) [OF assms]
    by (simp add: Transfer_def Let_def transferred_def)
qed

lemma load_code_refines:
  assumes "wf_state E s"
  shows "step E s (snd (load_code E a c s))" "world_of E (snd (load_code E a c s)) = world_of E s"
    "c_Gas (fst (load_code E a c s)) = c_Gas c" "c_self (fst (load_code E a c s)) = c_self c"
    "c_value (fst (load_code E a c s)) = c_value c"
proof -
  note h = read_steps(9,10) [OF assms, of a]
  note g = GetCode_refines(2,3) [OF step_wf [OF h(1)], of a]
  show "step E s (snd (load_code E a c s))" "world_of E (snd (load_code E a c s)) = world_of E s"
    using h g step_trans [OF h(1) g(1)] by (simp_all add: load_code_def case_prod_beta Let_def)
qed (simp_all add: load_code_def case_prod_beta Let_def SetCallCode_def)

section \<open>Runs keep the saved copies\<close>

text \<open>
  What the call layer relies on in an interpreter: a run that returns has not gained gas and has
  changed the state only through operations that keep the snapshots taken before it. A run may
  panic; then the call it belongs to panics.
\<close>

definition interp_ok :: "env \<Rightarrow> Interpreter \<Rightarrow> bool" where
  "interp_ok E i \<longleftrightarrow>
     (\<forall>c input ro s ret err g s'. wf_state E s \<longrightarrow> int_Run i c input ro s = Some (ret, err, g, s') \<longrightarrow>
        db.extends E s s' \<and> g \<le> c_Gas c)"

definition evm_ok :: "EVM \<Rightarrow> bool" where
  "evm_ok evm \<longleftrightarrow> (\<forall>i \<in> set (interpreters evm). interp_ok (evm_env evm) i)"

text \<open>An interpreter panics on a state that was reached from \<open>s\<close>.\<close>

definition panics :: "EVM \<Rightarrow> StateDB \<Rightarrow> bool" where
  "panics evm s \<longleftrightarrow>
     (\<exists>i \<in> set (interpreters evm). \<exists>c input ro s'. db.extends (evm_env evm) s s' \<and> int_Run i c input ro s' = None)"

text \<open>A result that is there unless an interpreter panicked on the way, and satisfies \<open>P\<close>.\<close>

definition unless_panic :: "EVM \<Rightarrow> StateDB \<Rightarrow> 'a option \<Rightarrow> ('a \<Rightarrow> bool) \<Rightarrow> bool" where
  "unless_panic evm s r P \<longleftrightarrow> (case r of None \<Rightarrow> panics evm s | Some x \<Rightarrow> P x)"

lemma unless_panic_simps [simp]:
  "unless_panic evm s None P = panics evm s" "unless_panic evm s (Some x) P = P x"
  by (simp_all add: unless_panic_def)

lemma panics_mono: "db.extends (evm_env evm) s s' \<Longrightarrow> panics evm s' \<Longrightarrow> panics evm s"
  unfolding panics_def by (meson db.extends_trans)

lemma unless_panic_mono:
  "unless_panic evm s' r P \<Longrightarrow> db.extends (evm_env evm) s s' \<Longrightarrow> (\<And>x. r = Some x \<Longrightarrow> P x \<Longrightarrow> Q x) \<Longrightarrow> unless_panic evm s r Q"
  by (cases r) (auto intro: panics_mono)

lemma unless_panic_returns: "unless_panic evm s r P \<Longrightarrow> \<not> panics evm s \<Longrightarrow> r \<noteq> None"
  by (cases r) auto

lemma unless_panic_cases:
  assumes "unless_panic evm s r P"
  obtains (panic) "r = None" "panics evm s" | (returned) x where "r = Some x" "P x"
  using assms by (cases r) auto

lemma UseGas_le: "UseGas g a = Some b \<Longrightarrow> b \<le> a"
  by (auto simp: UseGas_def word_sub_le split: if_splits)

lemma run_interpreters_extends:
  assumes "\<forall>i \<in> set is. interp_ok E i" and "wf_state E s" and "run_interpreters is c input ro s = Some (ret, err, g, s')"
  shows "db.extends E s s' \<and> g \<le> c_Gas c"
  using assms(1,3)
proof (induction "is")
  case Nil
  with db.extends_refl [OF assms(2)] show ?case by simp
next
  case (Cons i "is")
  with assms(2) show ?case by (auto simp: interp_ok_def split: if_splits)
qed

lemma run_interpreters_None:
  "run_interpreters is c input ro s = None \<Longrightarrow> \<exists>i \<in> set is. int_Run i c input ro s = None"
  by (induction "is") (auto split: if_splits)

lemma run_extends:
  assumes "evm_ok evm" "wf_state (evm_env evm) s"
  shows "unless_panic evm s (run evm c input ro s) (\<lambda>(ret, err, g, s'). db.extends (evm_env evm) s s' \<and> g \<le> c_Gas c)"
proof (cases "Option.bind (c_CodeAddr c) (precompile evm)")
  case None
  then have r: "run evm c input ro s = run_interpreters (interpreters evm) c input ro s" by (simp add: run_def)
  show ?thesis
  proof (cases "run evm c input ro s")
    case None
    with run_interpreters_None [of "interpreters evm" c input ro s] r db.extends_refl [OF assms(2)]
    have "panics evm s" unfolding panics_def by metis
    with None show ?thesis by simp
  next
    case (Some x)
    with run_interpreters_extends [OF assms(1) [unfolded evm_ok_def] assms(2)] show ?thesis
      by (cases x) (simp add: r)
  qed
next
  case (Some p)
  with db.extends_refl [OF assms(2)] show ?thesis
    by (auto simp: run_def RunPrecompiledContract_def case_prod_beta dest: UseGas_le split: option.splits)
qed

text \<open>
  A run between a snapshot and its settlement: success keeps what the run did, an error
  restores the world of the snapshot and burns the gas unless it is a revert.
\<close>

lemma settle_run:
  assumes "evm_ok evm" "wf_state (evm_env evm) s0" "Snapshot s0 = (rid, s1)"
    "db.extends (evm_env evm) s1 s"
  shows "unless_panic evm s0 (settle evm rid (run evm c input ro s)) (\<lambda>(ret, gas, err, s').
    db.extends (evm_env evm) s0 s' \<and> gas \<le> c_Gas c \<and>
    (err \<noteq> None \<longrightarrow> world_of (evm_env evm) s' = world_of (evm_env evm) s0) \<and>
    (err \<noteq> None \<and> err \<noteq> Some errExecutionReverted \<longrightarrow> gas = 0))"
proof -
  let ?E = "evm_env evm"
  have x: "db.extends ?E s0 s" by (rule db.extends_trans [OF db.extends_snapshot [OF assms(2,3)] assms(4)])
  from run_extends [OF assms(1) db.extends_valid [OF assms(4)], of c input ro] show ?thesis
  proof (cases rule: unless_panic_cases)
    case panic
    with panics_mono [OF x] show ?thesis by (simp add: settle_def)
  next
    case (returned y)
    then obtain ret err g s2 where
      r: "run evm c input ro s = Some (ret, err, g, s2)" "db.extends ?E s s2" "g \<le> c_Gas c" by (cases y) auto
    have e: "db.extends ?E s1 s2" using assms(4) r(2) by (rule db.extends_trans)
    show ?thesis
    proof (cases err)
      case None
      with r e db.extends_snapshot [OF assms(2,3)] show ?thesis
        by (auto simp: settle_def intro: db.extends_trans)
    next
      case (Some x)
      from db.revert_restores [OF assms(2,3) e] obtain s3 where
        s3: "RevertToSnapshot ?E rid s2 = Some s3" "wf_state ?E s3" "world_of ?E s3 = world_of ?E s0"
          "snaps ?E s3 = snaps ?E s0" by blast
      with r Some show ?thesis by (auto simp: settle_def intro: db.extends_same)
    qed
  qed
qed

text \<open>What every kind of call guarantees.\<close>

definition call_safe :: "EVM \<Rightarrow> StateDB \<Rightarrow> u64 \<Rightarrow> call_result \<Rightarrow> bool" where
  "call_safe evm s gas r \<longleftrightarrow>
     unless_panic evm s r (\<lambda>(ret, left, err, s').
        db.extends (evm_env evm) s s' \<and> left \<le> gas \<and>
        (err \<noteq> None \<longrightarrow> world_of (evm_env evm) s' = world_of (evm_env evm) s) \<and>
        (err \<notin> {None, Some errExecutionReverted, Some ErrDepth, Some ErrInsufficientBalance} \<longrightarrow> left = 0))"

lemma call_core:
  assumes "evm_ok evm" "wf_state (evm_env evm) s" "step (evm_env evm) s s1"
    "world_of (evm_env evm) s1 = world_of (evm_env evm) s" "Snapshot s1 = (rid, s2)"
    "db.extends (evm_env evm) s2 s3" "c_Gas c = gas"
  shows "call_safe evm s gas (settle evm rid (run evm c input ro s3))"
  unfolding call_safe_def
proof (rule unless_panic_mono [OF settle_run [OF assms(1) step_wf [OF assms(3)] assms(5,6)] step_extends [OF assms(2,3)]], goal_cases)
  case (1 x)
  then show ?case using db.extends_trans [OF step_extends [OF assms(2,3)]] assms(4,7) by (cases x) auto
qed

lemma call_safe_now:
  assumes "wf_state (evm_env evm) s" "step (evm_env evm) s s'" "world_of (evm_env evm) s' = world_of (evm_env evm) s"
    "err \<in> {None, Some ErrDepth, Some ErrInsufficientBalance}"
  shows "call_safe evm s gas (Some (ret, gas, err, s'))"
  using assms step_extends [OF assms(1,2)] by (auto simp: call_safe_def)

lemma call_safe_extends:
  "db.extends (evm_env evm) s s' \<Longrightarrow> call_safe evm s gas (Some (ret, gas, None, s'))"
  by (auto simp: call_safe_def)

lemma step_chain:
  "db.extends E s0 s \<Longrightarrow> (wf_state E s \<Longrightarrow> step E s s') \<Longrightarrow> db.extends E s0 s'"
  by (meson db.extends_trans db.extends_valid step_extends)

lemma Call_safe:
  assumes ok: "evm_ok evm" and w: "wf_state (evm_env evm) s"
  shows "call_safe evm s gas (Call evm caller addr input gas amount s)"
proof -
  let ?E = "evm_env evm" and ?who = "ref_Address caller"
  obtain can s1 where ct: "CanTransfer ?E ?who amount s = (can, s1)" by fastforce
  obtain rid s2 where sn: "Snapshot s1 = (rid, s2)" by fastforce
  obtain ex s3 where ex: "Exist ?E addr s2 = (ex, s3)" by fastforce
  let ?s4 = "if ex then s3 else CreateAccount ?E addr s3"
  let ?s5 = "Transfer ?E ?who addr amount ?s4"
  obtain c s6 where lc: "load_code ?E addr (NewContract caller addr amount gas) ?s5 = (c, s6)" by fastforce
  note st = CanTransfer_refines(1,2) [OF w, of ?who amount, unfolded ct snd_conv]
  have x2: "db.extends ?E s2 s2" "db.extends ?E s s2"
    using Snapshot_refines(1) [OF step_wf [OF st(1)] sn] db.extends_refl
      db.extends_trans [OF step_extends [OF w st(1)] db.extends_snapshot [OF step_wf [OF st(1)] sn]] by blast+
  have x3: "db.extends ?E s2 s3"
    using step_chain [OF x2(1)] read_steps(5) [of ?E s2 addr] by (simp add: ex)
  have "db.extends ?E s2 ?s4"
    using step_chain [OF x3] CreateAccount_refines(1) [of ?E s3 addr] x3 by simp
  then have "db.extends ?E s2 ?s5" by (rule step_chain) (rule Transfer_refines(1))
  then have x6: "db.extends ?E s2 s6"
    by (rule step_chain) (use load_code_refines(1) [of ?E ?s5 addr "NewContract caller addr amount gas"] lc in simp)
  have g: "c_Gas c = gas"
    using load_code_refines(3) [of ?E ?s5 addr "NewContract caller addr amount gas"] lc x6
      step_wf by (simp add: load_code_def SetCallCode_def NewContract_def case_prod_beta Let_def) auto
  show ?thesis
    using call_core [OF ok w st sn x6 g] call_safe_now [OF w step_refl [OF w]] call_safe_now [OF w st]
      call_safe_extends [OF db.extends_trans [OF x2(2) x3]]
    unfolding Call_def Let_def ct sn ex lc prod.case by auto
qed

lemma CallCode_safe:
  assumes ok: "evm_ok evm" and w: "wf_state (evm_env evm) s"
  shows "call_safe evm s gas (CallCode evm caller addr input gas amount s)"
proof -
  let ?E = "evm_env evm" and ?who = "ref_Address caller"
  let ?c = "NewContract caller ?who amount gas"
  obtain can s1 where ct: "CanTransfer ?E ?who amount s = (can, s1)" by fastforce
  obtain rid s2 where sn: "Snapshot s1 = (rid, s2)" by fastforce
  obtain c s3 where lc: "load_code ?E addr ?c s2 = (c, s3)" by fastforce
  note st = CanTransfer_refines(1,2) [OF w, of ?who amount, unfolded ct snd_conv]
  have w2: "wf_state ?E s2" by (rule Snapshot_refines(1) [OF step_wf [OF st(1)] sn])
  have x3: "db.extends ?E s2 s3" and g: "c_Gas c = gas"
    using step_extends [OF w2 load_code_refines(1) [OF w2, of addr ?c]] load_code_refines(3) [OF w2, of addr ?c] lc
    by (simp_all add: NewContract_def)
  show ?thesis
    using call_core [OF ok w st sn x3 g] call_safe_now [OF w step_refl [OF w]] call_safe_now [OF w st]
    unfolding CallCode_def Let_def ct sn lc prod.case by auto
qed

lemma StaticCall_safe:
  assumes ok: "evm_ok evm" and w: "wf_state (evm_env evm) s"
  shows "call_safe evm s gas (StaticCall evm caller addr input gas s)"
proof -
  let ?E = "evm_env evm" and ?c = "NewContract caller addr 0 gas"
  obtain rid s1 where sn: "Snapshot s = (rid, s1)" by fastforce
  obtain c s2 where lc: "load_code ?E addr ?c s1 = (c, s2)" by fastforce
  have w1: "wf_state ?E s1" by (rule Snapshot_refines(1) [OF w sn])
  have x2: "db.extends ?E s1 s2" and g: "c_Gas c = gas"
    using step_extends [OF w1 load_code_refines(1) [OF w1, of addr ?c]] load_code_refines(3) [OF w1, of addr ?c] lc
    by (simp_all add: NewContract_def)
  from x2 have x3: "db.extends ?E s1 (AddBalance ?E addr 0 s2)"
    by (rule step_chain) (rule AddBalance_refines(1))
  show ?thesis
    using call_core [OF ok w step_refl [OF w] refl sn x3 g] call_safe_now [OF w step_refl [OF w]]
    unfolding StaticCall_def Let_def sn lc prod.case by auto
qed

text \<open>\<^verbatim>\<open>DelegateCall\<close> is safe from a contract; from a plain account it panics.\<close>

lemma DelegateCall_safe:
  assumes ok: "evm_ok evm" and w: "wf_state (evm_env evm) s"
  shows "call_safe evm s gas (DelegateCall evm (ContractPtr parent) addr input gas s)"
proof -
  let ?E = "evm_env evm"
  let ?c = "(NewContract (ContractPtr parent) (c_self parent) 0 gas)
    \<lparr>c_CallerAddress := c_CallerAddress parent, c_value := c_value parent\<rparr>"
  obtain rid s1 where sn: "Snapshot s = (rid, s1)" by fastforce
  obtain c s2 where lc: "load_code ?E addr ?c s1 = (c, s2)" by fastforce
  have w1: "wf_state ?E s1" by (rule Snapshot_refines(1) [OF w sn])
  have x2: "db.extends ?E s1 s2" and g: "c_Gas c = gas"
    using step_extends [OF w1 load_code_refines(1) [OF w1, of addr ?c]] load_code_refines(3) [OF w1, of addr ?c] lc
    by (simp_all add: NewContract_def)
  show ?thesis
    using call_core [OF ok w step_refl [OF w] refl sn x2 g] call_safe_now [OF w step_refl [OF w]]
    unfolding DelegateCall_def Let_def sn prod.case by (auto simp: lc)
qed

section \<open>Contract creation\<close>

definition code_of_account :: "world \<Rightarrow> address \<Rightarrow> bytes" where
  "code_of_account w a = (case acct w a of None \<Rightarrow> [] | Some v \<Rightarrow> v_code v)"

lemma store_code_safe:
  assumes "wf_state (evm_env evm) s" "db.extends (evm_env evm) s0 s"
    and "store_code evm addr (ret, err, g, s) = (ret', err', g', s')"
  shows "db.extends (evm_env evm) s0 s'" "g' \<le> g" "ret' = ret"
    "err' = None \<and> \<not> (IsEIP158 evm \<and> MaxCodeSize < length ret') \<Longrightarrow>
       code_of_account (world_of (evm_env evm) s') addr = ret'"
proof -
  have x: "db.extends (evm_env evm) s0 (SetCode (evm_env evm) addr ret s)"
    using assms(2) by (rule step_chain) (rule SetCode_refines(1))
  have c: "code_of_account (world_of (evm_env evm) (SetCode (evm_env evm) addr ret s)) addr = ret"
    by (simp add: SetCode_refines(2) [OF assms(1)] code_of_account_def on_account_def acct_def)
  show "db.extends (evm_env evm) s0 s'" "g' \<le> g" "ret' = ret"
    "err' = None \<and> \<not> (IsEIP158 evm \<and> MaxCodeSize < length ret') \<Longrightarrow>
       code_of_account (world_of (evm_env evm) s') addr = ret'"
    using assms(2,3) x c UseGas_le
    by (auto simp: store_code_def split: option.splits if_splits)
qed

lemma settle_create_run:
  assumes "evm_ok evm" "wf_state (evm_env evm) s0" "Snapshot s0 = (rid, s1)"
    "db.extends (evm_env evm) s1 s"
  shows "unless_panic evm s0 (settle_create evm rid addr (run evm c input ro s)) (\<lambda>(ret, a, left, err, s').
    a = addr \<and> db.extends (evm_env evm) s0 s' \<and> left \<le> c_Gas c \<and>
    (err \<noteq> None \<and> (IsHomestead evm \<or> err \<noteq> Some ErrCodeStoreOutOfGas) \<longrightarrow>
       world_of (evm_env evm) s' = world_of (evm_env evm) s0 \<and> (err = Some errExecutionReverted \<or> left = 0)) \<and>
    (err = None \<longrightarrow> code_of_account (world_of (evm_env evm) s') addr = ret))"
proof -
  let ?E = "evm_env evm"
  have x: "db.extends ?E s0 s" by (rule db.extends_trans [OF db.extends_snapshot [OF assms(2,3)] assms(4)])
  from run_extends [OF assms(1) db.extends_valid [OF assms(4)], of c input ro] show ?thesis
  proof (cases rule: unless_panic_cases)
    case panic
    with panics_mono [OF x] show ?thesis by (simp add: settle_create_def)
  next
    case (returned y)
    then obtain ret1 err1 g1 s2 where
      r: "run evm c input ro s = Some (ret1, err1, g1, s2)" "db.extends ?E s s2" "g1 \<le> c_Gas c" by (cases y) auto
    have e: "db.extends ?E s1 s2" using assms(4) r(2) by (rule db.extends_trans)
    obtain ret err g s3 where sc: "store_code evm addr (ret1, err1, g1, s2) = (ret, err, g, s3)"
      by (metis prod_cases4)
    note ss = store_code_safe [OF db.extends_valid [OF e] e sc]
    let ?ex = "IsEIP158 evm \<and> length ret > MaxCodeSize"
    have le: "g \<le> c_Gas c" using ss(2) r(3) by (rule order_trans)
    show ?thesis
    proof (cases "?ex \<or> (err \<noteq> None \<and> (IsHomestead evm \<or> err \<noteq> Some ErrCodeStoreOutOfGas))")
      case True
      from db.revert_restores [OF assms(2,3) ss(1)] obtain s4 where
        s4: "RevertToSnapshot ?E rid s3 = Some s4" "wf_state ?E s4" "world_of ?E s4 = world_of ?E s0"
          "snaps ?E s4 = snaps ?E s0" by blast
      have x: "db.extends ?E s0 s4" by (rule db.extends_same [OF s4(2,4)])
      show ?thesis
        unfolding settle_create_def r(1) option.case sc Let_def prod.case s4(1)
        using True x le s4(3) by auto
    next
      case False
      have x: "db.extends ?E s0 s3"
        by (rule db.extends_trans [OF db.extends_snapshot [OF assms(2,3)] ss(1)])
      show ?thesis
        unfolding settle_create_def r(1) option.case sc Let_def prod.case
        using False x le ss(4) by auto
    qed
  qed
qed

text \<open>The caller's nonce is raised before anything can be reverted.\<close>

definition bumped :: "env \<Rightarrow> address \<Rightarrow> world \<Rightarrow> world" where
  "bumped E a w = on_account E a (\<lambda>v. v\<lparr>v_nonce := nonce_of w a + 1\<rparr>) w"

text \<open>
  What a creation guarantees. It is refused without any effect at the depth limit and without
  the balance for the endowment. Otherwise the nonce of the creator is raised for good, and an
  error leaves nothing else behind (before Homestead, missing gas for the code does). An address
  that is in use is such an error.
\<close>

definition refused :: "EVM \<Rightarrow> ContractRef \<Rightarrow> int \<Rightarrow> world \<Rightarrow> bool" where
  "refused evm caller amount w \<longleftrightarrow>
     CallCreateDepth < evm_depth evm \<or> \<not> (ref_Address caller = NullAddress \<or> amount \<le> balance_of w (ref_Address caller))"

definition occupied :: "env \<Rightarrow> address \<Rightarrow> world \<Rightarrow> bool" where
  "occupied E addr w \<longleftrightarrow>
     nonce_of w addr \<noteq> 0 \<or>
     (case acct w addr of None \<Rightarrow> False | Some v \<Rightarrow> v_codehash v \<noteq> 0 \<and> v_codehash v \<noteq> emptyCodeHash E)"

definition create_safe :: "EVM \<Rightarrow> ContractRef \<Rightarrow> address \<Rightarrow> u64 \<Rightarrow> int \<Rightarrow> StateDB \<Rightarrow> create_result \<Rightarrow> bool" where
  "create_safe evm caller addr gas amount s r \<longleftrightarrow>
     (let E = evm_env evm; w = world_of E s; w1 = bumped E (ref_Address caller) w
      in unless_panic evm s r (\<lambda>(ret, a, left, err, s').
           db.extends E s s' \<and> left \<le> gas \<and>
           (if refused evm caller amount w
            then err = Some (if CallCreateDepth < evm_depth evm then ErrDepth else ErrInsufficientBalance) \<and> left = gas \<and> world_of E s' = w
            else if occupied E addr w1
            then err = Some ErrContractAddressCollision \<and> left = 0 \<and> world_of E s' = w1
            else
              (err \<noteq> None \<and> (IsHomestead evm \<or> err \<noteq> Some ErrCodeStoreOutOfGas) \<longrightarrow>
                 world_of E s' = w1 \<and> (err = Some errExecutionReverted \<or> left = 0)) \<and>
              (err = None \<and> \<not> (NoRecursion evm \<and> evm_depth evm > 0) \<longrightarrow>
                 a = addr \<and> code_of_account (world_of E s') addr = ret))))"

text \<open>Raising the nonce and the collision check.\<close>

lemma create_prefix:
  assumes "wf_state E s" "GetNonce E a s = (nonce, s2)" "GetCodeHash E addr (SetNonce E a (nonce + 1) s2) = (h, s4)"
    "GetNonce E addr s4 = (n, s5)"
  shows "step E s s5" "world_of E s5 = bumped E a (world_of E s)" "n = nonce_of (bumped E a (world_of E s)) addr"
    "h = (case acct (bumped E a (world_of E s)) addr of None \<Rightarrow> 0 | Some v \<Rightarrow> v_codehash v)"
proof -
  note s2 = read_steps(3,4) [OF assms(1), of a, unfolded assms(2) snd_conv]
  have nonce: "nonce = nonce_of (world_of E s) a" using reads_of(2) [OF assms(1), of a] assms(2) by simp
  note s3 = SetNonce_refines [OF step_wf [OF s2(1)], of a "nonce + 1"]
  have w3: "world_of E (SetNonce E a (nonce + 1) s2) = bumped E a (world_of E s)"
    unfolding s3(2) s2(2) by (simp add: bumped_def nonce)
  note s4 = read_steps(9,10) [OF step_wf [OF s3(1)], of addr, unfolded assms(3) snd_conv]
  note s5 = read_steps(3,4) [OF step_wf [OF s4(1)], of addr, unfolded assms(4) snd_conv]
  from step_trans [OF s2(1) step_trans [OF s3(1) step_trans [OF s4(1) s5(1)]]] show "step E s s5" .
  show "world_of E s5 = bumped E a (world_of E s)" by (simp add: s5(2) s4(2) w3)
  show "n = nonce_of (bumped E a (world_of E s)) addr"
    using reads_of(2) [OF step_wf [OF s4(1)], of addr] assms(4) by (simp add: s4(2) w3)
  show "h = (case acct (bumped E a (world_of E s)) addr of None \<Rightarrow> 0 | Some v \<Rightarrow> v_codehash v)"
    using reads_of(5) [OF step_wf [OF s3(1)], of addr] assms(3) by (simp add: w3)
qed

lemma create_refines:
  assumes ok: "evm_ok evm" and w: "wf_state (evm_env evm) s"
  shows "create_safe evm caller addr gas amount s (create evm caller code h gas amount addr s)"
proof -
  let ?E = "evm_env evm" and ?who = "ref_Address caller"
  obtain can s1 where ct: "CanTransfer ?E ?who amount s = (can, s1)" by fastforce
  obtain nonce s2 where gn: "GetNonce ?E ?who s1 = (nonce, s2)" by fastforce
  obtain ch s4 where gc: "GetCodeHash ?E addr (SetNonce ?E ?who (nonce + 1) s2) = (ch, s4)" by fastforce
  obtain n s5 where gn': "GetNonce ?E addr s4 = (n, s5)" by fastforce
  obtain rid s6 where sn: "Snapshot s5 = (rid, s6)" by fastforce
  note st = CanTransfer_refines(1,2) [OF w, of ?who amount, unfolded ct snd_conv]
  note pre = create_prefix [OF step_wf [OF st(1)] gn gc gn', unfolded st(2)]
  have x5: "db.extends ?E s s5" by (rule step_extends [OF w step_trans [OF st(1) pre(1)]])
  have w6: "wf_state ?E s6" by (rule Snapshot_refines(1) [OF step_wf [OF pre(1)] sn])
  let ?s7 = "CreateAccount ?E addr s6"
  let ?s8 = "if IsEIP158 evm then SetNonce ?E addr 1 ?s7 else ?s7"
  let ?s9 = "Transfer ?E ?who addr amount ?s8"
  have "db.extends ?E s6 ?s7" by (rule step_extends [OF w6 CreateAccount_refines(1) [OF w6]])
  then have "db.extends ?E s6 ?s8" using step_chain SetNonce_refines(1) by auto
  then have x9: "db.extends ?E s6 ?s9" by (rule step_chain) (rule Transfer_refines(1))
  have x59: "db.extends ?E s ?s9"
    by (rule db.extends_trans [OF x5 db.extends_trans [OF db.extends_snapshot [OF step_wf [OF pre(1)] sn] x9]])
  let ?c = "(NewContract caller addr amount gas)\<lparr>c_Code := code, c_CodeHash := h, c_CodeAddr := Some addr\<rparr>"
  have c: "can \<longleftrightarrow> ?who = NullAddress \<or> amount \<le> balance_of (world_of ?E s) ?who"
    using CanTransfer_refines(3) [OF w, of ?who amount] ct by simp
  have oc: "n \<noteq> 0 \<or> ch \<noteq> 0 \<and> ch \<noteq> emptyCodeHash ?E \<longleftrightarrow> occupied ?E addr (bumped ?E ?who (world_of ?E s))"
    using pre(3,4) by (auto simp: occupied_def split: option.splits)
  have cr: "create evm caller code h gas amount addr s =
      (if CallCreateDepth < evm_depth evm then Some ([], 0, gas, Some ErrDepth, s)
       else if \<not> can then Some ([], 0, gas, Some ErrInsufficientBalance, s1)
       else if occupied ?E addr (bumped ?E ?who (world_of ?E s)) then Some ([], 0, 0, Some ErrContractAddressCollision, s5)
       else if NoRecursion evm \<and> evm_depth evm > 0 then Some ([], addr, gas, None, ?s9)
       else settle_create evm rid addr (run evm ?c [] False ?s9))"
    unfolding create_def Let_def ct gn gc gn' sn prod.case oc by simp
  show ?thesis
  proof (cases "refused evm caller amount (world_of ?E s)")
    case True
    then have "CallCreateDepth < evm_depth evm \<or> \<not> can" using c by (simp add: refused_def)
    with True show ?thesis
      using db.extends_refl [OF w] step_extends [OF w st(1)] st(2) unfolding cr create_safe_def Let_def by auto
  next
    case False
    then have f: "\<not> CallCreateDepth < evm_depth evm" "can" using c by (auto simp: refused_def)
    show ?thesis
    proof (cases "occupied ?E addr (bumped ?E ?who (world_of ?E s)) \<or> NoRecursion evm \<and> evm_depth evm > 0")
      case True
      then show ?thesis using f False x5 x59 pre(2) unfolding cr create_safe_def Let_def by auto
    next
      case o: False
      have "create_safe evm caller addr gas amount s (settle_create evm rid addr (run evm ?c [] False ?s9))"
        unfolding create_safe_def Let_def
      proof (rule unless_panic_mono [OF settle_create_run [OF ok step_wf [OF pre(1)] sn x9, of addr ?c "[]" False] x5], goal_cases)
        case (1 x)
        then show ?case using False o db.extends_trans [OF x5] pre(2) by (cases x) (auto simp: NewContract_def)
      qed
      moreover have "create evm caller code h gas amount addr s = settle_create evm rid addr (run evm ?c [] False ?s9)"
        unfolding cr using f o by argo
      ultimately show ?thesis by argo
    qed
  qed
qed

lemma create_safe_read:
  assumes "wf_state (evm_env evm) s" "step (evm_env evm) s s1" "world_of (evm_env evm) s1 = world_of (evm_env evm) s"
    "create_safe evm caller addr gas amount s1 r"
  shows "create_safe evm caller addr gas amount s r"
  unfolding create_safe_def Let_def
proof (rule unless_panic_mono [OF assms(4) [unfolded create_safe_def Let_def] step_extends [OF assms(1,2)]], goal_cases)
  case (1 x)
  then show ?case using db.extends_trans [OF step_extends [OF assms(1,2)]] assms(3) by (cases x) auto
qed

lemma Create_refines:
  assumes ok: "evm_ok evm" and w: "wf_state (evm_env evm) s"
  shows "create_safe evm caller
      (CreateAddress (evm_env evm) (ref_Address caller) (nonce_of (world_of (evm_env evm) s) (ref_Address caller)))
      gas amount s (Create evm caller code gas amount s)"
proof -
  let ?E = "evm_env evm" and ?who = "ref_Address caller"
  obtain n s1 where gn: "GetNonce ?E ?who s = (n, s1)" by fastforce
  have st: "step ?E s s1" "world_of ?E s1 = world_of ?E s" "n = nonce_of (world_of ?E s) ?who"
    using read_steps(3,4) [OF w, of ?who] reads_of(2) [OF w, of ?who] gn by simp_all
  show ?thesis
    using create_safe_read [OF w st(1,2) create_refines [OF ok step_wf [OF st(1)]]] gn st(3)
    by (simp add: Create_def)
qed

section \<open>The total supply\<close>

lemma balance_acct_or_blank [simp]: "v_balance (acct_or_blank E w a) = balance_of w a"
  by (simp add: acct_or_blank_def balance_of_def split: option.split)

lemma balance_of_on_account:
  assumes "\<not> v_deleted (f (acct_or_blank E w a))"
  shows "balance_of (on_account E a f w) = (balance_of w)(a := v_balance (f (acct_or_blank E w a)))"
  using assms by (auto simp: on_account_def balance_of_def acct_def)

definition total_supply :: "world \<Rightarrow> int" where
  "total_supply w = total (balance_of w)"

lemma supply_add:
  assumes "fin_support (balance_of w)"
  shows "total_supply (on_account E a (\<lambda>v. v\<lparr>v_balance := v_balance v + n\<rparr>) w) = total_supply w + n"
    "fin_support (balance_of (on_account E a (\<lambda>v. v\<lparr>v_balance := v_balance v + n\<rparr>) w))"
  using assms by (simp_all add: total_supply_def balance_of_on_account total_upd fin_support_upd)

lemma supply_sub:
  assumes "fin_support (balance_of w)"
  shows "total_supply (on_account E a (\<lambda>v. v\<lparr>v_balance := v_balance v - n\<rparr>) w) = total_supply w - n"
    "fin_support (balance_of (on_account E a (\<lambda>v. v\<lparr>v_balance := v_balance v - n\<rparr>) w))"
  using assms by (simp_all add: total_supply_def balance_of_on_account total_upd fin_support_upd)

lemma supply_transferred:
  assumes "fin_support (balance_of w)"
  shows "total_supply (transferred E a b n w) = total_supply w + (if a = NullAddress then n else 0)"
    "fin_support (balance_of (transferred E a b n w))"
proof -
  note sub = supply_sub [OF assms, of E a n]
  show "total_supply (transferred E a b n w) = total_supply w + (if a = NullAddress then n else 0)"
    using supply_add(1) [OF assms, of E b n] supply_add(1) [OF sub(2), of E b n] sub(1)
    by (simp add: transferred_def)
  show "fin_support (balance_of (transferred E a b n w))"
    using supply_add(2) [OF assms, of E b n] supply_add(2) [OF sub(2), of E b n] by (simp add: transferred_def)
qed

section \<open>Properties\<close>

text \<open>
  C10. Message calls (\<^verbatim>\<open>Call\<close>, \<^verbatim>\<open>CallCode\<close>, \<^verbatim>\<open>DelegateCall\<close> from a contract, \<^verbatim>\<open>StaticCall\<close>), on a
  well-formed state and over interpreters whose runs, when they return, have not gained gas and
  keep the snapshots taken before them. A call panics only if an interpreter does. When it
  returns, it has not gained gas and keeps all earlier snapshots. A call that fails leaves the
  observable world exactly as it was, and it returns no gas unless it failed with a revert, at
  the depth limit or for lack of balance.
\<close>

theorem calls_restore_on_error:
  assumes "evm_ok evm" and "wf_state (evm_env evm) s"
  shows "call_safe evm s gas (Call evm caller addr input gas amount s) \<and>
    call_safe evm s gas (CallCode evm caller addr input gas amount s) \<and>
    call_safe evm s gas (DelegateCall evm (ContractPtr parent) addr input gas s) \<and>
    call_safe evm s gas (StaticCall evm caller addr input gas s)"
  using Call_safe [OF assms] CallCode_safe [OF assms] DelegateCall_safe [OF assms] StaticCall_safe [OF assms]
  by blast

text \<open>
  A concrete interpreter that writes a storage slot of the running contract, and reverts
  when the input is empty; and a machine around it.
\<close>

definition int0 :: Interpreter where
  "int0 = \<lparr>CanRun = (\<lambda>code. True),
     int_Run = (\<lambda>c input ro s.
       Some ([1], if input = [] then Some errExecutionReverted else None, c_Gas c,
             SetState env0 (c_self c) 1 42 s))\<rparr>"

definition evm0 :: EVM where
  "evm0 = \<lparr>evm_env = env0, evm_depth = 0, NoRecursion = False, IsHomestead = True, IsEIP158 = True,
     IsByzantium = True, IsIstanbul = True,
     PrecompiledContracts = (\<lambda>a. \<lparr>RequiredGas = (\<lambda>i. 15), pc_Run = (\<lambda>i. (i, None))\<rparr>),
     interpreters = [int0]\<rparr>"

lemma evm0_ok: "evm_ok evm0"
  using step_extends [OF _ SetState_refines(1)] by (auto simp: evm_ok_def interp_ok_def evm0_def int0_def)

definition state0 :: StateDB where
  "state0 = AddBalance env0 7 100 (state_New Map.empty)"

lemma wf_state0: "wf_state env0 state0"
  unfolding state0_def by (rule step_wf [OF AddBalance_refines(1)]) simp

lemma evm0_no_panic: "\<not> panics evm0 s"
  by (simp add: panics_def evm0_def int0_def)

theorem calls_restore_on_error_witness:
  "call_safe evm0 state0 1000 (Call evm0 (AccountRef 7) 20 [] 1000 5 state0) \<and>
   Call evm0 (AccountRef 7) 20 [] 1000 5 state0 \<noteq> None \<and>
   call_safe evm0 state0 1000 (StaticCall evm0 (AccountRef 7) 4 [9] 1000 state0) \<and>
   StaticCall evm0 (AccountRef 7) 4 [9] 1000 state0 \<noteq> None"
proof -
  have "wf_state (evm_env evm0) state0" using wf_state0 by (simp add: evm0_def)
  note safe = calls_restore_on_error [OF evm0_ok this]
  have "r \<noteq> None" if "call_safe evm0 state0 1000 r" for r
    using unless_panic_returns [OF _ evm0_no_panic] that unfolding call_safe_def by blast
  with safe [of 1000 "AccountRef 7" 20 "[]" 5] safe [of 1000 "AccountRef 7" 4 "[9]" 5] show ?thesis by blast
qed

text \<open>
  C11. Contract creation (\<^verbatim>\<open>Create\<close>, \<^verbatim>\<open>Create2\<close> and their common part \<^verbatim>\<open>create\<close>), under the
  hypotheses of the message calls. A creation panics only if an interpreter does, never gains gas
  and keeps all earlier snapshots. Beyond the depth limit, or when the creator is not the null
  address and has not the endowment, it is refused with that error, all its gas and the world
  unchanged. Otherwise the nonce of the creator is raised by one; an address whose nonce is not 0
  or that has code is refused with a collision, no gas and no other change; every error of the
  init code (before Homestead, except missing gas for storing the code) leaves no other change
  either, and no gas unless it is a revert; and a success (unless a nested creation is skipped
  because recursion is switched off) has installed the returned code at the new address, which
  for \<^verbatim>\<open>Create\<close> comes from the creator's nonce before and for \<^verbatim>\<open>Create2\<close> from the salt and the code.
\<close>

theorem create_restores_on_error:
  assumes "evm_ok evm" and "wf_state (evm_env evm) s"
  shows "create_safe evm caller addr gas amount s (create evm caller code h gas amount addr s) \<and>
    create_safe evm caller
      (CreateAddress (evm_env evm) (ref_Address caller) (nonce_of (world_of (evm_env evm) s) (ref_Address caller)))
      gas amount s (Create evm caller code gas amount s) \<and>
    create_safe evm caller
      (CreateAddress2 (evm_env evm) (ref_Address caller) (of_nat (nat \<bar>salt\<bar>)) (e_keccak (evm_env evm) code))
      gas amount s (Create2 evm caller code gas amount salt s)"
  using create_refines [OF assms] Create_refines [OF assms] by (simp add: Create2_def Let_def)

theorem create_restores_on_error_witness:
  "create_safe evm0 (AccountRef 7) 21 1000 5 state0 (create evm0 (AccountRef 7) [] 0 1000 5 21 state0) \<and>
   create evm0 (AccountRef 7) [] 0 1000 5 21 state0 \<noteq> None"
proof -
  have "wf_state (evm_env evm0) state0" using wf_state0 by (simp add: evm0_def)
  from create_restores_on_error [OF evm0_ok this]
  have "create_safe evm0 (AccountRef 7) 21 1000 5 state0 (create evm0 (AccountRef 7) [] 0 1000 5 21 state0)" by blast
  then show ?thesis using unless_panic_returns [OF _ evm0_no_panic] unfolding create_safe_def Let_def by blast
qed

text \<open>
  C12. Value transfer: \<^verbatim>\<open>Transfer\<close> keeps the total supply for every sender but the null address,
  also when sender and recipient coincide; a transfer from the null address mints exactly
  the amount.
\<close>

theorem Transfer_total_supply:
  assumes "wf_state E s" and "fin_support (balance_of (world_of E s))"
  shows "total_supply (world_of E (Transfer E sender recipient amount s)) =
    total_supply (world_of E s) + (if sender = NullAddress then amount else 0)"
  using supply_transferred(1) [OF assms(2)] by (simp add: Transfer_refines(2) [OF assms(1)])

theorem Transfer_total_supply_witness:
  "total_supply (world_of env0 (Transfer env0 7 9 30 (state_New Map.empty))) = 0 \<and>
   total_supply (world_of env0 (Transfer env0 0 9 30 (state_New Map.empty))) = 30"
proof -
  let ?w = "world_of env0 (state_New Map.empty)"
  have b: "balance_of ?w = (\<lambda>a. 0)"
    by (simp add: fun_eq_iff balance_of_def acct_def view_def state_New_def)
  then have "fin_support (balance_of ?w)" "total_supply ?w = 0"
    by (simp_all add: fin_support_def total_supply_def total_def)
  with Transfer_total_supply [OF wf_state_New this(1), of 7 9 30]
    Transfer_total_supply [OF wf_state_New this(1), of 0 9 30]
  show ?thesis by (simp add: NullAddress_def)
qed

end
