(* ===== verification/State_Transition.thy ===== *)
theory State_Transition
  imports Evm
begin

text \<open>
  Applying a message to the state: \<^verbatim>\<open>src/core/state_transition.go\<close> with the gas pool
  (\<^verbatim>\<open>src/core/gaspool.go\<close>) and the stamina contract calls (\<^verbatim>\<open>src/core/stamina.go\<close>). A sender
  whose delegatee has enough stamina spends stamina instead of ether; the null address
  pays nothing.
\<close>

section \<open>Gas pool\<close>

text \<open>Pushing the pool above 64 bits is a panic.\<close>

definition AddGas :: "u64 \<Rightarrow> u64 \<Rightarrow> u64 option" where
  "AddGas amount gp = (if gp > - 1 - amount then None else Some (gp + amount))"

datatype coreError =
    ErrNonceTooHigh
  | ErrNonceTooLow
  | errInsufficientBalanceForGas
  | ErrGasLimitReached
  | errUpdateStamina
  | VmErr vmError

definition SubGas :: "u64 \<Rightarrow> u64 \<Rightarrow> coreError + u64" where
  "SubGas amount gp = (if gp < amount then Inl ErrGasLimitReached else Inr (gp - amount))"

section \<open>Intrinsic gas\<close>

definition TxGas :: u64 where "TxGas = 21000"
definition TxGasContractCreation :: u64 where "TxGasContractCreation = 53000"
definition TxDataZeroGas :: u64 where "TxDataZeroGas = 4"
definition TxDataNonZeroGasFrontier :: u64 where "TxDataNonZeroGasFrontier = 68"
definition TxDataNonZeroGasEIP2028 :: u64 where "TxDataNonZeroGasEIP2028 = 16"

fun count_nonzero :: "bytes \<Rightarrow> u64 \<Rightarrow> u64" where
  "count_nonzero [] nz = nz"
| "count_nonzero (b # bs) nz = count_nonzero bs (if b \<noteq> 0 then nz + 1 else nz)"

definition IntrinsicGas :: "bytes \<Rightarrow> bool \<Rightarrow> bool \<Rightarrow> bool \<Rightarrow> vmError + u64" where
  "IntrinsicGas data contractCreation isHomestead isEIP2028 =
     (let gas = (if contractCreation \<and> isHomestead then TxGasContractCreation else TxGas) in
      if length data = 0 then Inr gas
      else
        let nz = count_nonzero data 0;
            nonZeroGas = (if isEIP2028 then TxDataNonZeroGasEIP2028 else TxDataNonZeroGasFrontier)
        in if (- 1 - gas) div nonZeroGas < nz then Inl ErrOutOfGas
           else
             let gas1 = gas + nz * nonZeroGas; z = of_nat (length data) - nz
             in if (- 1 - gas1) div TxDataZeroGas < z then Inl ErrOutOfGas
                else Inr (gas1 + z * TxDataZeroGas))"

section \<open>Stamina\<close>

definition StaminaAddress :: address where "StaminaAddress = 0xdead"

definition stamina_gas :: u64 where "stamina_gas = 1000000"

text \<open>
  \<^verbatim>\<open>StaminaABI.Pack\<close>: the selector of the method followed by its arguments, each padded to
  32 bytes. Addresses and integers always pack, so the error branches after \<^verbatim>\<open>Pack\<close> cannot
  be taken.
\<close>

definition Pack :: "env \<Rightarrow> string \<Rightarrow> nat list \<Rightarrow> bytes" where
  "Pack E signature args =
     take 4 (hash_bytes (e_keccak E (str_bytes signature))) @
     concat (map (\<lambda>x. be_bytes 32 (x mod 2 ^ 256)) args)"

definition GetDelegatee :: "EVM \<Rightarrow> address \<Rightarrow> StateDB \<Rightarrow> (address \<times> vmError option \<times> StateDB) option" where
  "GetDelegatee evm a s =
     (case StaticCall evm (AccountRef NullAddress) StaminaAddress
             (Pack (evm_env evm) ''getDelegatee(address)'' [unat a]) stamina_gas s of
        None \<Rightarrow> None
      | Some (ret, left, err, s') \<Rightarrow>
          Some (if err = None then bytes_to_address ret else 0, err, s'))"

definition GetStamina :: "EVM \<Rightarrow> address \<Rightarrow> StateDB \<Rightarrow> (int \<times> vmError option \<times> StateDB) option" where
  "GetStamina evm delegatee s =
     (case StaticCall evm (AccountRef NullAddress) StaminaAddress
             (Pack (evm_env evm) ''getStamina(address)'' [unat delegatee]) stamina_gas s of
        None \<Rightarrow> None
      | Some (ret, left, err, s') \<Rightarrow>
          Some (if err = None then int (from_be ret) else 0, err, s'))"

text \<open>
  \<^verbatim>\<open>AddStamina\<close> and \<^verbatim>\<open>SubtractStamina\<close> report an update that did not return 1. Packing an
  integer takes its value modulo \<open>2 ^ 256\<close>.
\<close>

definition update_stamina ::
    "string \<Rightarrow> EVM \<Rightarrow> address \<Rightarrow> int \<Rightarrow> StateDB \<Rightarrow> (coreError option \<times> StateDB) option" where
  "update_stamina signature evm delegatee gas s =
     (case Call evm (AccountRef NullAddress) StaminaAddress
             (Pack (evm_env evm) signature [unat delegatee, nat (gas mod 2 ^ 256)]) stamina_gas 0 s of
        None \<Rightarrow> None
      | Some (res, left, err, s') \<Rightarrow>
          Some (if from_be res \<noteq> 1 then Some errUpdateStamina else map_option VmErr err, s'))"

definition AddStamina :: "EVM \<Rightarrow> address \<Rightarrow> int \<Rightarrow> StateDB \<Rightarrow> (coreError option \<times> StateDB) option" where
  "AddStamina = update_stamina ''addStamina(address,uint256)''"

definition SubtractStamina :: "EVM \<Rightarrow> address \<Rightarrow> int \<Rightarrow> StateDB \<Rightarrow> (coreError option \<times> StateDB) option" where
  "SubtractStamina = update_stamina ''subtractStamina(address,uint256)''"

section \<open>The transition\<close>

record Message =
  msg_From :: address
  msg_To :: "address option"
  msg_GasPrice :: int
  msg_Gas :: u64
  msg_Value :: int
  msg_Nonce :: u64
  CheckNonce :: bool
  msg_Data :: bytes

record StateTransition =
  st_gp :: u64
  st_gas :: u64
  initialGas :: u64
  st_state :: StateDB

definition NewStateTransition :: "u64 \<Rightarrow> StateDB \<Rightarrow> StateTransition" where
  "NewStateTransition gp s = \<lparr>st_gp = gp, st_gas = 0, initialGas = 0, st_state = s\<rparr>"

definition gasUsed :: "StateTransition \<Rightarrow> u64" where
  "gasUsed st = initialGas st - st_gas st"

definition useGas :: "u64 \<Rightarrow> StateTransition \<Rightarrow> coreError option \<times> StateTransition" where
  "useGas amount st =
     (if st_gas st < amount then (Some (VmErr ErrOutOfGas), st)
      else (None, st\<lparr>st_gas := st_gas st - amount\<rparr>))"

definition buyGas :: "env \<Rightarrow> Message \<Rightarrow> StateTransition \<Rightarrow> coreError option \<times> StateTransition" where
  "buyGas E msg st =
     (if msg_From msg = NullAddress
      then (None, st\<lparr>st_gas := st_gas st + msg_Gas msg, initialGas := msg_Gas msg\<rparr>)
      else
        let mgval = uint (msg_Gas msg) * msg_GasPrice msg;
            (b, s1) = GetBalance E (msg_From msg) (st_state st);
            st1 = st\<lparr>st_state := s1\<rparr>
        in if b < mgval then (Some errInsufficientBalanceForGas, st1)
           else (case SubGas (msg_Gas msg) (st_gp st1) of
                   Inl e \<Rightarrow> (Some e, st1)
                 | Inr gp \<Rightarrow>
                     (None, st1\<lparr>st_gp := gp, st_gas := st_gas st1 + msg_Gas msg, initialGas := msg_Gas msg,
                                st_state := SubBalance E (msg_From msg) mgval s1\<rparr>)))"

text \<open>The error of \<^verbatim>\<open>SubtractStamina\<close> is dropped.\<close>

definition buyDelegateeGas ::
    "EVM \<Rightarrow> Message \<Rightarrow> address \<Rightarrow> StateTransition \<Rightarrow> (coreError option \<times> StateTransition) option" where
  "buyDelegateeGas evm msg delegatee st =
     (let mgval = uint (msg_Gas msg) * msg_GasPrice msg in
      case GetStamina evm delegatee (st_state st) of
        None \<Rightarrow> None
      | Some (balance, err, s1) \<Rightarrow>
          let st1 = st\<lparr>st_state := s1\<rparr> in
          case err of
            Some e \<Rightarrow> Some (Some (VmErr e), st1)
          | None \<Rightarrow>
              if balance < mgval then Some (Some errInsufficientBalanceForGas, st1)
              else (case SubGas (msg_Gas msg) (st_gp st1) of
                      Inl e \<Rightarrow> Some (Some e, st1)
                    | Inr gp \<Rightarrow>
                        (case SubtractStamina evm delegatee mgval s1 of
                           None \<Rightarrow> None
                         | Some (e, s2) \<Rightarrow>
                             Some (None, st1\<lparr>st_gp := gp, st_gas := st_gas st1 + msg_Gas msg,
                                             initialGas := msg_Gas msg, st_state := s2\<rparr>))))"

definition checkNonce :: "env \<Rightarrow> Message \<Rightarrow> StateTransition \<Rightarrow> coreError option \<times> StateTransition" where
  "checkNonce E msg st =
     (if CheckNonce msg
      then let (nonce, s1) = GetNonce E (msg_From msg) (st_state st); st1 = st\<lparr>st_state := s1\<rparr>
           in if nonce < msg_Nonce msg then (Some ErrNonceTooHigh, st1)
              else if nonce > msg_Nonce msg then (Some ErrNonceTooLow, st1)
              else (None, st1)
      else (None, st))"

definition preCheck :: "env \<Rightarrow> Message \<Rightarrow> StateTransition \<Rightarrow> coreError option \<times> StateTransition" where
  "preCheck E msg st =
     (case checkNonce E msg st of
        (Some e, st1) \<Rightarrow> (Some e, st1)
      | (None, st1) \<Rightarrow> buyGas E msg st1)"

definition preDelegateeCheck ::
    "EVM \<Rightarrow> Message \<Rightarrow> address \<Rightarrow> StateTransition \<Rightarrow> (coreError option \<times> StateTransition) option" where
  "preDelegateeCheck evm msg delegatee st =
     (case checkNonce (evm_env evm) msg st of
        (Some e, st1) \<Rightarrow> Some (Some e, st1)
      | (None, st1) \<Rightarrow> buyDelegateeGas evm msg delegatee st1)"

text \<open>A message without recipient creates a contract; otherwise the nonce is raised and the recipient called.\<close>

definition invoke :: "EVM \<Rightarrow> Message \<Rightarrow> u64 \<Rightarrow> StateDB \<Rightarrow> call_result" where
  "invoke evm msg gas s =
     (case msg_To msg of
        None \<Rightarrow>
          map_option (\<lambda>(ret, a, left, err, s'). (ret, left, err, s'))
            (Create evm (AccountRef (msg_From msg)) (msg_Data msg) gas (msg_Value msg) s)
      | Some addr \<Rightarrow>
          let (nonce, s1) = GetNonce (evm_env evm) (msg_From msg) s;
              s2 = SetNonce (evm_env evm) (msg_From msg) (nonce + 1) s1
          in Call evm (AccountRef (msg_From msg)) addr (msg_Data msg) gas (msg_Value msg) s2)"

text \<open>
  The part both paths of \<^verbatim>\<open>TransitionDb\<close> have in common: intrinsic gas, then creation or call.
  The result is the output and the error of the virtual machine, or a consensus error.
\<close>

definition execute ::
    "EVM \<Rightarrow> Message \<Rightarrow> StateTransition \<Rightarrow> ((coreError + bytes \<times> vmError option) \<times> StateTransition) option" where
  "execute evm msg st =
     (case IntrinsicGas (msg_Data msg) (msg_To msg = None) (IsHomestead evm) (IsIstanbul evm) of
        Inl e \<Rightarrow> Some (Inl (VmErr e), st)
      | Inr gas \<Rightarrow>
        (case useGas gas st of
           (Some e, st1) \<Rightarrow> Some (Inl e, st1)
         | (None, st1) \<Rightarrow>
           (case invoke evm msg (st_gas st1) (st_state st1) of
              None \<Rightarrow> None
            | Some (ret, left, vmerr, s) \<Rightarrow>
                let st2 = st1\<lparr>st_gas := left, st_state := s\<rparr>
                in Some (if vmerr = Some ErrInsufficientBalance then Inl (VmErr ErrInsufficientBalance)
                         else Inr (ret, vmerr), st2))))"

definition GetRefund :: "StateDB \<Rightarrow> u64" where
  "GetRefund s = refund s"

definition apply_refund :: "StateTransition \<Rightarrow> StateTransition" where
  "apply_refund st =
     (let r = gasUsed st div 2; r' = (if r > GetRefund (st_state st) then GetRefund (st_state st) else r)
      in st\<lparr>st_gas := st_gas st + r'\<rparr>)"

definition refundGas :: "env \<Rightarrow> Message \<Rightarrow> StateTransition \<Rightarrow> StateTransition option" where
  "refundGas E msg st =
     (let st1 = apply_refund st;
          remaining = uint (st_gas st1) * msg_GasPrice msg;
          st2 = st1\<lparr>st_state := AddBalance E (msg_From msg) remaining (st_state st1)\<rparr>
      in map_option (\<lambda>gp. st2\<lparr>st_gp := gp\<rparr>) (AddGas (st_gas st2) (st_gp st2)))"

definition refundDelegateeGas :: "EVM \<Rightarrow> Message \<Rightarrow> address \<Rightarrow> StateTransition \<Rightarrow> StateTransition option" where
  "refundDelegateeGas evm msg delegatee st =
     (let st1 = apply_refund st;
          remaining = uint (st_gas st1) * msg_GasPrice msg
      in case AddStamina evm delegatee remaining (st_state st1) of
           None \<Rightarrow> None
         | Some (e, s) \<Rightarrow>
             map_option (\<lambda>gp. st1\<lparr>st_state := s, st_gp := gp\<rparr>) (AddGas (st_gas st1) (st_gp st1)))"

text \<open>The fee goes to the coinbase.\<close>

definition payCoinbase :: "env \<Rightarrow> address \<Rightarrow> Message \<Rightarrow> StateTransition \<Rightarrow> StateTransition" where
  "payCoinbase E coinbase msg st =
     st\<lparr>st_state := AddBalance E coinbase (uint (gasUsed st) * msg_GasPrice msg) (st_state st)\<rparr>"

type_synonym transition_result = "((coreError + bytes \<times> u64 \<times> bool) \<times> StateTransition) option"

definition delegateeTransition ::
    "EVM \<Rightarrow> address \<Rightarrow> Message \<Rightarrow> address \<Rightarrow> StateTransition \<Rightarrow> transition_result" where
  "delegateeTransition evm coinbase msg delegatee st =
     (case preDelegateeCheck evm msg delegatee st of
        None \<Rightarrow> None
      | Some (Some e, st1) \<Rightarrow> Some (Inl e, st1)
      | Some (None, st1) \<Rightarrow>
        (case execute evm msg st1 of
           None \<Rightarrow> None
         | Some (Inl e, st2) \<Rightarrow> Some (Inl e, st2)
         | Some (Inr (ret, vmerr), st2) \<Rightarrow>
           (case refundDelegateeGas evm msg delegatee st2 of
              None \<Rightarrow> None
            | Some st3 \<Rightarrow>
                let st4 = payCoinbase (evm_env evm) coinbase msg st3
                in Some (Inr (ret, gasUsed st4, vmerr \<noteq> None), st4))))"

definition senderTransition ::
    "EVM \<Rightarrow> address \<Rightarrow> Message \<Rightarrow> StateTransition \<Rightarrow> transition_result" where
  "senderTransition evm coinbase msg st =
     (case preCheck (evm_env evm) msg st of
        (Some e, st1) \<Rightarrow> Some (Inl e, st1)
      | (None, st1) \<Rightarrow>
        (case execute evm msg st1 of
           None \<Rightarrow> None
         | Some (Inl e, st2) \<Rightarrow> Some (Inl e, st2)
         | Some (Inr (ret, vmerr), st2) \<Rightarrow>
           (case (if msg_From msg \<noteq> NullAddress then refundGas (evm_env evm) msg st2 else Some st2) of
              None \<Rightarrow> None
            | Some st3 \<Rightarrow>
                let st4 = payCoinbase (evm_env evm) coinbase msg st3
                in Some (Inr (ret, gasUsed st4, vmerr \<noteq> None), st4))))"

text \<open>
  The up-front cost that is compared with the stamina takes the gas limit through a signed
  64-bit integer.
\<close>

definition TransitionDb :: "EVM \<Rightarrow> address \<Rightarrow> Message \<Rightarrow> StateTransition \<Rightarrow> transition_result" where
  "TransitionDb evm coinbase msg st =
     (case GetDelegatee evm (msg_From msg) (st_state st) of
        None \<Rightarrow> None
      | Some (delegatee, e1, s1) \<Rightarrow>
        (case GetStamina evm delegatee s1 of
           None \<Rightarrow> None
         | Some (availableStamina, e2, s2) \<Rightarrow>
             let upfrontGasCost = msg_GasPrice msg * sint (msg_Gas msg);
                 st1 = st\<lparr>st_state := s2\<rparr>
             in if availableStamina \<ge> upfrontGasCost
                then delegateeTransition evm coinbase msg delegatee st1
                else senderTransition evm coinbase msg st1))"

definition ApplyMessage :: "EVM \<Rightarrow> address \<Rightarrow> Message \<Rightarrow> u64 \<Rightarrow> StateDB \<Rightarrow> transition_result" where
  "ApplyMessage evm coinbase msg gp s = TransitionDb evm coinbase msg (NewStateTransition gp s)"

section \<open>Intrinsic gas is exact\<close>

lemma unat_max_minus: "unat (- 1 - g :: u64) = 2 ^ 64 - 1 - unat g"
proof -
  have "g \<le> - 1" by simp
  then have "unat (- 1 - g) = unat (- 1 :: u64) - unat g" by (rule unat_sub)
  then show ?thesis by (simp add: unsigned_minus_1_eq_mask mask_eq_exp_minus_1)
qed

text \<open>The guard of \<^verbatim>\<open>IntrinsicGas\<close> holds exactly when the addition would exceed 64 bits.\<close>

lemma gas_guard:
  fixes g n c :: u64
  assumes "0 < unat n"
  shows "(- 1 - g) div n < c \<longleftrightarrow> 2 ^ 64 \<le> unat g + unat c * unat n"
proof -
  have "(- 1 - g) div n < c \<longleftrightarrow> (2 ^ 64 - 1 - unat g) div unat n < unat c"
    by (simp add: word_less_nat_alt unat_div unat_max_minus)
  also have "\<dots> \<longleftrightarrow> 2 ^ 64 - 1 - unat g < unat c * unat n"
    by (rule div_less_iff_less_mult [OF assms])
  also have "\<dots> \<longleftrightarrow> 2 ^ 64 \<le> unat g + unat c * unat n"
    using unsigned_less [of g, where ?'a = nat] by auto
  finally show ?thesis .
qed

lemma gas_add:
  fixes g n c :: u64
  assumes "unat g + unat c * unat n < 2 ^ 64"
  shows "unat (g + c * n) = unat g + unat c * unat n"
proof -
  have "unat (c * n) = unat c * unat n" using assms by (simp add: unat_mult_lem [symmetric])
  moreover have "unat (g + c * n) = unat g + unat (c * n)"
    by (rule unat_add_lem [THEN iffD1]) (use assms calculation in simp)
  ultimately show ?thesis by simp
qed

lemma count_nonzero_eq: "count_nonzero bs nz = nz + of_nat (length (filter (\<lambda>b. b \<noteq> 0) bs))"
  by (induction bs arbitrary: nz) (simp_all add: algebra_simps)

definition intrinsic_nat :: "bytes \<Rightarrow> bool \<Rightarrow> bool \<Rightarrow> bool \<Rightarrow> nat" where
  "intrinsic_nat data creation homestead eip2028 =
     (if creation \<and> homestead then 53000 else 21000) +
     length (filter (\<lambda>b. b \<noteq> 0) data) * (if eip2028 then 16 else 68) +
     length (filter (\<lambda>b. b = 0) data) * 4"

lemma IntrinsicGas_spec:
  assumes "length data < 2 ^ 64"
  shows "IntrinsicGas data creation homestead eip2028 =
    (if intrinsic_nat data creation homestead eip2028 < 2 ^ 64
     then Inr (of_nat (intrinsic_nat data creation homestead eip2028)) else Inl ErrOutOfGas)"
proof -
  let ?nzs = "length (filter (\<lambda>b. b \<noteq> 0) data)" and ?zs = "length (filter (\<lambda>b. b = 0) data)"
  define g where "g = (if creation \<and> homestead then TxGasContractCreation else TxGas)"
  define n where "n = (if eip2028 then TxDataNonZeroGasEIP2028 else TxDataNonZeroGasFrontier)"
  define nz where "nz = count_nonzero data 0"
  define z where "z = of_nat (length data) - nz"
  have len: "length data = ?nzs + ?zs"
    using sum_length_filter_compl [of "\<lambda>b. b \<noteq> 0" data] by simp
  have nz: "unat nz = ?nzs" using assms len by (simp add: nz_def count_nonzero_eq unat_of_nat)
  have "z = of_nat ?zs" by (simp add: z_def nz_def count_nonzero_eq len)
  then have z: "unat z = ?zs" using assms len by (simp add: unat_of_nat)
  have g: "unat g = (if creation \<and> homestead then 53000 else 21000)"
    by (simp add: g_def TxGasContractCreation_def TxGas_def)
  have n: "unat n = (if eip2028 then 16 else 68)"
    by (simp add: n_def TxDataNonZeroGasEIP2028_def TxDataNonZeroGasFrontier_def)
  have t: "intrinsic_nat data creation homestead eip2028 = unat g + unat nz * unat n + unat z * unat TxDataZeroGas"
    by (simp add: intrinsic_nat_def nz z g n TxDataZeroGas_def)
  have pos: "0 < unat n" "0 < unat TxDataZeroGas" by (simp_all add: n TxDataZeroGas_def)
  show ?thesis
  proof (cases "length data = 0")
    case True
    then show ?thesis
      by (simp add: IntrinsicGas_def intrinsic_nat_def Let_def TxGasContractCreation_def TxGas_def)
  next
    case False
    then have eq: "IntrinsicGas data creation homestead eip2028 =
       (if (- 1 - g) div n < nz then Inl ErrOutOfGas
        else if (- 1 - (g + nz * n)) div TxDataZeroGas < z then Inl ErrOutOfGas
        else Inr (g + nz * n + z * TxDataZeroGas))"
      by (simp add: IntrinsicGas_def Let_def g_def n_def nz_def z_def)
    show ?thesis
    proof (cases "unat g + unat nz * unat n < 2 ^ 64")
      case True
      note a = gas_add [OF True]
      have "Inr (g + nz * n + z * TxDataZeroGas) = Inr (of_nat (intrinsic_nat data creation homestead eip2028))"
        by (simp add: t)
      with True a pos show ?thesis by (simp add: eq gas_guard t)
    qed (use pos in \<open>simp add: eq gas_guard t\<close>)
  qed
qed

section \<open>Where the gas goes\<close>

text \<open>Following a chain of fallible operations: a panic anywhere is a panic of an interpreter.\<close>

lemma unless_panic_chain:
  assumes "unless_panic evm s r P" "\<And>x. P x \<Longrightarrow> unless_panic evm s (f x) Q"
  shows "unless_panic evm s (case r of None \<Rightarrow> None | Some x \<Rightarrow> f x) Q"
  using assms(1) by (cases r) (simp_all add: assms(2))

lemma checkNonce_frame:
  assumes "wf_state E (st_state st)" "checkNonce E msg st = (e, st1)"
  shows "step E (st_state st) (st_state st1)" "st_gp st1 = st_gp st" "st_gas st1 = st_gas st"
    "initialGas st1 = initialGas st" "world_of E (st_state st1) = world_of E (st_state st)"
  using assms read_steps(3,4) [OF assms(1), of "msg_From msg"] step_refl [OF assms(1)]
  by (auto simp: checkNonce_def case_prod_beta Let_def split: if_splits)

text \<open>
  \<open>gas_ok\<close> relates the transition after the gas was bought to the pool before: either the
  limit has left the pool, or (null sender) the pool is untouched.
\<close>

definition bought :: "Message \<Rightarrow> u64 \<Rightarrow> StateTransition \<Rightarrow> bool" where
  "bought msg gp st \<longleftrightarrow>
     initialGas st = msg_Gas msg \<and> st_gas st = msg_Gas msg \<and> msg_Gas msg \<le> gp \<and> st_gp st = gp - msg_Gas msg"

lemma SubGas_cases: "SubGas g gp = Inr gp' \<Longrightarrow> g \<le> gp \<and> gp' = gp - g"
  by (auto simp: SubGas_def split: if_splits)

lemma buyGas_frame:
  assumes w: "wf_state E (st_state st)" and g0: "st_gas st = 0" and b: "buyGas E msg st = (e, st1)"
  shows "step E (st_state st) (st_state st1)" "e \<noteq> None \<Longrightarrow> st_gp st1 = st_gp st"
    "e = None \<Longrightarrow> msg_From msg \<noteq> NullAddress \<Longrightarrow> bought msg (st_gp st) st1"
    "e = None \<Longrightarrow> msg_From msg = NullAddress \<Longrightarrow>
       st_gp st1 = st_gp st \<and> st_gas st1 = msg_Gas msg \<and> initialGas st1 = msg_Gas msg"
proof -
  note r = read_steps(1) [OF w, of "msg_From msg"]
  note sb = step_trans [OF r SubBalance_refines(1) [OF step_wf [OF r]]]
  show "step E (st_state st) (st_state st1)"
    using b r sb step_refl [OF w] by (auto simp: buyGas_def Let_def case_prod_beta split: if_splits sum.splits)
  show "e \<noteq> None \<Longrightarrow> st_gp st1 = st_gp st"
    using b by (auto simp: buyGas_def Let_def case_prod_beta split: if_splits sum.splits)
  show "e = None \<Longrightarrow> msg_From msg \<noteq> NullAddress \<Longrightarrow> bought msg (st_gp st) st1"
    using b g0 by (auto simp: buyGas_def bought_def Let_def case_prod_beta dest!: SubGas_cases split: if_splits sum.splits)
  show "e = None \<Longrightarrow> msg_From msg = NullAddress \<Longrightarrow>
       st_gp st1 = st_gp st \<and> st_gas st1 = msg_Gas msg \<and> initialGas st1 = msg_Gas msg"
    using b g0 by (auto simp: buyGas_def)
qed

text \<open>The stamina calls.\<close>

lemma call_safe_from:
  assumes "call_safe evm s gas r" "db.extends (evm_env evm) s0 s"
  shows "unless_panic evm s0 r (\<lambda>(ret, left, err, s'). db.extends (evm_env evm) s0 s' \<and> left \<le> gas)"
  by (rule unless_panic_mono [OF assms(1) [unfolded call_safe_def] assms(2)])
    (use db.extends_trans [OF assms(2)] in auto)

lemma GetDelegatee_frame:
  assumes "evm_ok evm" "db.extends (evm_env evm) s0 s"
  shows "unless_panic evm s0 (GetDelegatee evm x s) (\<lambda>(a, e, s'). db.extends (evm_env evm) s0 s')"
  unfolding GetDelegatee_def
  by (rule unless_panic_chain [OF call_safe_from [OF StaticCall_safe [OF assms(1) db.extends_valid [OF assms(2)]] assms(2)]])
    auto

lemma GetStamina_frame:
  assumes "evm_ok evm" "db.extends (evm_env evm) s0 s"
  shows "unless_panic evm s0 (GetStamina evm d s) (\<lambda>(b, e, s'). db.extends (evm_env evm) s0 s')"
  unfolding GetStamina_def
  by (rule unless_panic_chain [OF call_safe_from [OF StaticCall_safe [OF assms(1) db.extends_valid [OF assms(2)]] assms(2)]])
    auto

lemma update_stamina_frame:
  assumes "evm_ok evm" "db.extends (evm_env evm) s0 s"
  shows "unless_panic evm s0 (update_stamina sg evm d n s) (\<lambda>(e, s'). db.extends (evm_env evm) s0 s')"
  unfolding update_stamina_def
  by (rule unless_panic_chain [OF call_safe_from [OF Call_safe [OF assms(1) db.extends_valid [OF assms(2)]] assms(2)]])
    auto

definition checked :: "EVM \<Rightarrow> StateDB \<Rightarrow> Message \<Rightarrow> u64 \<Rightarrow> coreError option \<times> StateTransition \<Rightarrow> bool" where
  "checked evm s0 msg gp x \<longleftrightarrow>
     db.extends (evm_env evm) s0 (st_state (snd x)) \<and>
     (case fst x of Some e \<Rightarrow> st_gp (snd x) = gp | None \<Rightarrow> bought msg gp (snd x))"

lemma buyDelegateeGas_frame:
  assumes ok: "evm_ok evm" and w: "db.extends (evm_env evm) s0 (st_state st)" and g0: "st_gas st = 0"
  shows "unless_panic evm s0 (buyDelegateeGas evm msg d st) (checked evm s0 msg (st_gp st))"
  unfolding buyDelegateeGas_def Let_def
proof (rule unless_panic_chain [OF GetStamina_frame [OF ok w]], goal_cases)
  case (1 x)
  obtain b err s1 where x: "x = (b, err, s1)" by (cases x) auto
  with 1 have s1: "db.extends (evm_env evm) s0 s1" by simp
  have "unless_panic evm s0 (case SubtractStamina evm d (uint (msg_Gas msg) * msg_GasPrice msg) s1 of None \<Rightarrow> None
      | Some y \<Rightarrow> (case y of (e, s2) \<Rightarrow> Some (None, st\<lparr>st_state := s1, st_gp := gp,
          st_gas := st_gas st + msg_Gas msg, initialGas := msg_Gas msg, st_state := s2\<rparr>)))
      (checked evm s0 msg (st_gp st))" if "SubGas (msg_Gas msg) (st_gp st) = Inr gp" for gp
    unfolding SubtractStamina_def
    by (rule unless_panic_chain [OF update_stamina_frame [OF ok s1]])
      (use SubGas_cases [OF that] g0 in \<open>auto simp: checked_def bought_def\<close>)
  with s1 show ?case by (auto simp: x checked_def split: option.splits sum.splits)
qed

lemma preDelegateeCheck_frame:
  assumes ok: "evm_ok evm" and w: "db.extends (evm_env evm) s0 (st_state st)" and g0: "st_gas st = 0"
  shows "unless_panic evm s0 (preDelegateeCheck evm msg d st) (checked evm s0 msg (st_gp st))"
proof -
  obtain e st1 where c: "checkNonce (evm_env evm) msg st = (e, st1)" by fastforce
  note f = checkNonce_frame [OF db.extends_valid [OF w] c]
  have x: "db.extends (evm_env evm) s0 (st_state st1)"
    by (rule db.extends_trans [OF w step_extends [OF db.extends_valid [OF w] f(1)]])
  show ?thesis
    using buyDelegateeGas_frame [OF ok x, of msg d] f(2,3) g0 x
    by (cases e) (simp_all add: preDelegateeCheck_def c checked_def)
qed

lemma preCheck_frame:
  assumes w: "wf_state E (st_state st)" and g0: "st_gas st = 0" and p: "preCheck E msg st = (e, st1)"
  shows "step E (st_state st) (st_state st1)" "e \<noteq> None \<Longrightarrow> st_gp st1 = st_gp st"
    "e = None \<Longrightarrow> msg_From msg \<noteq> NullAddress \<Longrightarrow> bought msg (st_gp st) st1"
    "e = None \<Longrightarrow> msg_From msg = NullAddress \<Longrightarrow>
       st_gp st1 = st_gp st \<and> st_gas st1 = msg_Gas msg \<and> initialGas st1 = msg_Gas msg"
proof -
  obtain e0 st0 where c: "checkNonce E msg st = (e0, st0)" by fastforce
  note f = checkNonce_frame [OF w c]
  note b = buyGas_frame [OF step_wf [OF f(1)], of msg e st1]
  show "step E (st_state st) (st_state st1)" "e \<noteq> None \<Longrightarrow> st_gp st1 = st_gp st"
    "e = None \<Longrightarrow> msg_From msg \<noteq> NullAddress \<Longrightarrow> bought msg (st_gp st) st1"
    "e = None \<Longrightarrow> msg_From msg = NullAddress \<Longrightarrow>
       st_gp st1 = st_gp st \<and> st_gas st1 = msg_Gas msg \<and> initialGas st1 = msg_Gas msg"
    using p f g0 b step_trans [OF f(1)] by (cases e0; simp add: preCheck_def c)+
qed

lemma invoke_safe:
  assumes ok: "evm_ok evm" and w: "db.extends (evm_env evm) s0 s"
  shows "unless_panic evm s0 (invoke evm msg gas s)
    (\<lambda>(ret, left, err, s'). db.extends (evm_env evm) s0 s' \<and> left \<le> gas)"
proof (cases "msg_To msg")
  case None
  let ?r = "Create evm (AccountRef (msg_From msg)) (msg_Data msg) gas (msg_Value msg) s"
  have "unless_panic evm s0 ?r (\<lambda>(ret, a, left, err, s'). db.extends (evm_env evm) s0 s' \<and> left \<le> gas)"
    by (rule unless_panic_mono [OF Create_refines [OF ok db.extends_valid [OF w], unfolded create_safe_def Let_def] w])
      (use db.extends_trans [OF w] in auto)
  then show ?thesis by (cases ?r) (auto simp: invoke_def None)
next
  case (Some addr)
  let ?E = "evm_env evm"
  obtain n s1 where n: "GetNonce ?E (msg_From msg) s = (n, s1)" by fastforce
  note st = read_steps(3) [OF db.extends_valid [OF w], of "msg_From msg", unfolded n snd_conv]
  have x: "db.extends ?E s0 (SetNonce ?E (msg_From msg) (n + 1) s1)"
    using db.extends_trans [OF w step_extends [OF db.extends_valid [OF w]
        step_trans [OF st SetNonce_refines(1) [OF step_wf [OF st]]]]] .
  show ?thesis
    using call_safe_from [OF Call_safe [OF ok db.extends_valid [OF x]] x] by (simp add: invoke_def Some n)
qed

text \<open>Execution only spends gas, at least the intrinsic gas when it reaches the machine.\<close>

definition executed :: "EVM \<Rightarrow> StateDB \<Rightarrow> Message \<Rightarrow> StateTransition \<Rightarrow>
    (coreError + bytes \<times> vmError option) \<times> StateTransition \<Rightarrow> bool" where
  "executed evm s0 msg st x \<longleftrightarrow>
     (let st2 = snd x in
      db.extends (evm_env evm) s0 (st_state st2) \<and> st_gp st2 = st_gp st \<and> initialGas st2 = initialGas st \<and>
      st_gas st2 \<le> st_gas st \<and>
      (\<not> isl (fst x) \<longrightarrow>
         (\<exists>g. IntrinsicGas (msg_Data msg) (msg_To msg = None) (IsHomestead evm) (IsIstanbul evm) = Inr g \<and>
              unat g + unat (st_gas st2) \<le> unat (st_gas st))))"

lemma execute_frame:
  assumes ok: "evm_ok evm" and w: "db.extends (evm_env evm) s0 (st_state st)"
  shows "unless_panic evm s0 (execute evm msg st) (executed evm s0 msg st)"
proof (cases "IntrinsicGas (msg_Data msg) (msg_To msg = None) (IsHomestead evm) (IsIstanbul evm)")
  case (Inl e)
  with w show ?thesis by (simp add: execute_def executed_def Let_def)
next
  case (Inr g)
  show ?thesis
  proof (cases "st_gas st < g")
    case True
    with Inr w show ?thesis by (simp add: execute_def useGas_def executed_def Let_def)
  next
    case False
    have le: "unat g + unat (st_gas st - g) = unat (st_gas st)"
      using False by (simp add: unat_sub word_less_nat_alt not_less word_le_nat_alt)
    have ex: "execute evm msg st = (case invoke evm msg (st_gas st - g) (st_state st) of None \<Rightarrow> None
      | Some (ret, left, vmerr, s) \<Rightarrow>
          Some (if vmerr = Some ErrInsufficientBalance then Inl (VmErr ErrInsufficientBalance)
                else Inr (ret, vmerr), st\<lparr>st_gas := left, st_state := s\<rparr>))"
      by (simp add: execute_def Inr useGas_def False Let_def split: option.split)
    show ?thesis
      unfolding ex
    proof (rule unless_panic_chain [OF invoke_safe [OF ok w]], goal_cases)
      case (1 x)
      obtain ret left err s' where x: "x = (ret, left, err, s')" by (cases x) auto
      with 1 have r: "db.extends (evm_env evm) s0 s'" "left \<le> st_gas st - g" by simp_all
      have "left \<le> st_gas st" "unat g + unat left \<le> unat (st_gas st)"
        using r(2) le by (auto simp: word_le_nat_alt)
      with r(1) Inr show ?case by (simp add: x executed_def Let_def)
    qed
  qed
qed

lemma unat_gasUsed: "st_gas st \<le> initialGas st \<Longrightarrow> unat (gasUsed st) = unat (initialGas st) - unat (st_gas st)"
  by (simp add: gasUsed_def unat_sub)

text \<open>The refund is at most half of the gas used.\<close>

lemma apply_refund_bounds:
  assumes "st_gas st \<le> initialGas st"
  shows "st_gas (apply_refund st) \<le> initialGas st" "unat (gasUsed st) \<le> 2 * unat (gasUsed (apply_refund st))"
    "st_gp (apply_refund st) = st_gp st" "initialGas (apply_refund st) = initialGas st"
    "st_state (apply_refund st) = st_state st"
proof -
  define r where "r = min (gasUsed st div 2) (GetRefund (st_state st))"
  have eq: "apply_refund st = st\<lparr>st_gas := st_gas st + r\<rparr>"
    by (simp add: apply_refund_def r_def Let_def min_def)
  have "r \<le> gasUsed st div 2" by (simp add: r_def)
  then have r: "unat r \<le> unat (gasUsed st) div 2" by (simp add: word_le_nat_alt unat_div)
  have u: "unat (gasUsed st) = unat (initialGas st) - unat (st_gas st)" by (rule unat_gasUsed [OF assms])
  have le: "unat (st_gas st) \<le> unat (initialGas st)" using assms by (simp add: word_le_nat_alt)
  have a: "unat (st_gas st + r) = unat (st_gas st) + unat r"
    by (rule unat_add_lem [THEN iffD1]) (use r u le unsigned_less [of "initialGas st", where ?'a = nat] in simp)
  show g: "st_gas (apply_refund st) \<le> initialGas st" using a r u le by (simp add: eq word_le_nat_alt)
  have "unat (gasUsed (apply_refund st)) = unat (initialGas st) - (unat (st_gas st) + unat r)"
    using unat_gasUsed [of "apply_refund st"] g a by (simp add: eq)
  then show "unat (gasUsed st) \<le> 2 * unat (gasUsed (apply_refund st))" using r u by simp
qed (simp_all add: apply_refund_def Let_def)

lemma AddGas_Some:
  assumes "unat gp + unat g < 2 ^ 64"
  shows "AddGas g gp = Some (gp + g)" "unat (gp + g) = unat gp + unat g"
proof -
  show "AddGas g gp = Some (gp + g)"
    using assms by (simp add: AddGas_def word_less_nat_alt unat_max_minus)
  show "unat (gp + g) = unat gp + unat g" by (rule unat_add_lem [THEN iffD1]) (use assms in simp)
qed

text \<open>
  Returning the gas: from a transition whose limit has left the pool \<open>gp\<close>, the pool gets back
  everything but the gas used.
\<close>

lemma pool_refill:
  assumes "msg_Gas msg \<le> gp" "st_gp st = gp - msg_Gas msg" "initialGas st = msg_Gas msg" "st_gas st \<le> msg_Gas msg"
  shows "\<exists>gp'. AddGas (st_gas st) (st_gp st) = Some gp' \<and> unat gp' + unat (gasUsed st) = unat gp"
proof -
  have le: "unat (msg_Gas msg) \<le> unat gp" "unat (st_gas st) \<le> unat (msg_Gas msg)"
    using assms by (simp_all add: word_le_nat_alt)
  have s: "unat (st_gp st) = unat gp - unat (msg_Gas msg)" using assms by (simp add: unat_sub)
  have u: "unat (gasUsed st) = unat (msg_Gas msg) - unat (st_gas st)"
    using unat_gasUsed [of st] assms by simp
  have "unat (st_gp st) + unat (st_gas st) < 2 ^ 64"
    using le s unsigned_less [of gp, where ?'a = nat] by simp
  from AddGas_Some [OF this] show ?thesis using le s u by simp
qed

definition gas_accounted :: "EVM \<Rightarrow> Message \<Rightarrow> u64 \<Rightarrow> coreError + bytes \<times> u64 \<times> bool \<Rightarrow> StateTransition \<Rightarrow> bool" where
  "gas_accounted evm msg gp r st \<longleftrightarrow>
     (case r of
        Inl e \<Rightarrow> st_gp st = gp \<or> msg_Gas msg \<le> gp \<and> st_gp st = gp - msg_Gas msg
      | Inr (ret, used, failed) \<Rightarrow>
          used \<le> msg_Gas msg \<and>
          (\<exists>g. IntrinsicGas (msg_Data msg) (msg_To msg = None) (IsHomestead evm) (IsIstanbul evm) = Inr g \<and>
               unat g \<le> 2 * unat used) \<and>
          (unat (st_gp st) + unat used = unat gp \<or> msg_From msg = NullAddress \<and> st_gp st = gp))"

lemma payCoinbase_frame:
  assumes "wf_state E (st_state st)"
  shows "step E (st_state st) (st_state (payCoinbase E cb msg st))" "st_gp (payCoinbase E cb msg st) = st_gp st"
    "gasUsed (payCoinbase E cb msg st) = gasUsed st"
  using AddBalance_refines(1) [OF assms] by (simp_all add: payCoinbase_def gasUsed_def)

lemma used_bounds:
  assumes "initialGas st = msg_Gas msg" "st_gas st \<le> msg_Gas msg"
    "unat g + unat (st_gas st) \<le> unat (msg_Gas msg)"
  shows "gasUsed (apply_refund st) \<le> msg_Gas msg" "unat g \<le> 2 * unat (gasUsed (apply_refund st))"
    "gasUsed st \<le> msg_Gas msg" "unat g \<le> 2 * unat (gasUsed st)"
  using apply_refund_bounds [of st] unat_gasUsed [of st] unat_gasUsed [of "apply_refund st"] assms
  by (simp_all add: word_le_nat_alt)

definition refunded :: "env \<Rightarrow> StateDB \<Rightarrow> u64 \<Rightarrow> StateTransition \<Rightarrow> StateTransition \<Rightarrow> bool" where
  "refunded E s0 gp st st3 \<longleftrightarrow>
     db.extends E s0 (st_state st3) \<and> gasUsed st3 = gasUsed (apply_refund st) \<and>
     unat (st_gp st3) + unat (gasUsed st3) = unat gp"

lemma refill_refund:
  assumes i: "initialGas st = msg_Gas msg" "st_gas st \<le> msg_Gas msg"
    and gp: "msg_Gas msg \<le> gp" "st_gp st = gp - msg_Gas msg"
  obtains gp' where "AddGas (st_gas (apply_refund st)) (st_gp (apply_refund st)) = Some gp'"
    "unat gp' + unat (gasUsed (apply_refund st)) = unat gp" "st_state (apply_refund st) = st_state st"
proof -
  have "st_gas st \<le> initialGas st" using i by simp
  note ar = apply_refund_bounds [OF this]
  from pool_refill [of msg gp "apply_refund st"] gp i ar that show thesis by auto
qed

lemma refundGas_refunded:
  assumes w: "db.extends E s0 (st_state st)" and i: "initialGas st = msg_Gas msg" "st_gas st \<le> msg_Gas msg"
    and gp: "msg_Gas msg \<le> gp" "st_gp st = gp - msg_Gas msg"
  shows "\<exists>st3. refundGas E msg st = Some st3 \<and> refunded E s0 gp st st3"
proof -
  obtain gp' where "AddGas (st_gas (apply_refund st)) (st_gp (apply_refund st)) = Some gp'"
    "unat gp' + unat (gasUsed (apply_refund st)) = unat gp" "st_state (apply_refund st) = st_state st"
    by (rule refill_refund [OF i gp])
  then show ?thesis
    using step_chain [OF w AddBalance_refines(1)]
    by (simp add: refundGas_def refunded_def Let_def gasUsed_def)
qed

lemma refundDelegateeGas_refunded:
  assumes ok: "evm_ok evm" and w: "db.extends (evm_env evm) s0 (st_state st)"
    and i: "initialGas st = msg_Gas msg" "st_gas st \<le> msg_Gas msg"
    and gp: "msg_Gas msg \<le> gp" "st_gp st = gp - msg_Gas msg"
  shows "unless_panic evm s0 (refundDelegateeGas evm msg d st) (refunded (evm_env evm) s0 gp st)"
proof -
  obtain gp' where "AddGas (st_gas (apply_refund st)) (st_gp (apply_refund st)) = Some gp'"
    "unat gp' + unat (gasUsed (apply_refund st)) = unat gp" "st_state (apply_refund st) = st_state st"
    by (rule refill_refund [OF i gp])
  note r = this
  show ?thesis
    unfolding refundDelegateeGas_def Let_def AddStamina_def r(3)
    by (rule unless_panic_chain [OF update_stamina_frame [OF ok w]])
      (use r(1,2) in \<open>auto simp: refunded_def gasUsed_def\<close>)
qed

definition settled :: "EVM \<Rightarrow> StateDB \<Rightarrow> Message \<Rightarrow> u64 \<Rightarrow>
    (coreError + bytes \<times> u64 \<times> bool) \<times> StateTransition \<Rightarrow> bool" where
  "settled evm s0 msg gp x \<longleftrightarrow>
     db.extends (evm_env evm) s0 (st_state (snd x)) \<and> gas_accounted evm msg gp (fst x) (snd x)"

text \<open>The end of both paths, once the refund is done.\<close>

lemma accounted_success:
  assumes "refunded (evm_env evm) s0 gp st2 st3" "initialGas st2 = msg_Gas msg" "st_gas st2 \<le> msg_Gas msg"
    "IntrinsicGas (msg_Data msg) (msg_To msg = None) (IsHomestead evm) (IsIstanbul evm) = Inr g"
    "unat g + unat (st_gas st2) \<le> unat (msg_Gas msg)"
  shows "settled evm s0 msg gp (Inr (ret, gasUsed (payCoinbase (evm_env evm) cb msg st3), failed),
      payCoinbase (evm_env evm) cb msg st3)"
proof -
  have x: "db.extends (evm_env evm) s0 (st_state st3)" using assms(1) by (simp add: refunded_def)
  note p = payCoinbase_frame [OF db.extends_valid [OF x], of cb msg]
  show ?thesis
    using assms used_bounds [OF assms(2,3,5)] p(2,3) db.extends_trans [OF x step_extends [OF db.extends_valid [OF x] p(1)]]
    by (auto simp: refunded_def gas_accounted_def settled_def)
qed

lemma executedE:
  assumes "executed evm s0 msg st x" "initialGas st = msg_Gas msg" "st_gas st = msg_Gas msg"
  obtains (err) e st2 where "x = (Inl e, st2)" "db.extends (evm_env evm) s0 (st_state st2)" "st_gp st2 = st_gp st"
  | (finished) ret vmerr st2 g where "x = (Inr (ret, vmerr), st2)" "db.extends (evm_env evm) s0 (st_state st2)"
      "st_gp st2 = st_gp st" "initialGas st2 = msg_Gas msg" "st_gas st2 \<le> msg_Gas msg"
      "IntrinsicGas (msg_Data msg) (msg_To msg = None) (IsHomestead evm) (IsIstanbul evm) = Inr g"
      "unat g + unat (st_gas st2) \<le> unat (msg_Gas msg)"
proof (cases x)
  case (Pair r st2)
  show thesis
  proof (cases r)
    case (Inl e)
    with assms Pair show thesis by (intro err [of e st2]) (simp_all add: executed_def Let_def)
  next
    case (Inr y)
    with assms Pair show thesis by (cases y) (auto simp: executed_def Let_def intro: finished)
  qed
qed

lemma delegateeTransition_gas:
  assumes ok: "evm_ok evm" and w: "db.extends (evm_env evm) s0 (st_state st)" and g0: "st_gas st = 0"
  shows "unless_panic evm s0 (delegateeTransition evm cb msg d st) (settled evm s0 msg (st_gp st))"
  unfolding delegateeTransition_def
proof (rule unless_panic_chain [OF preDelegateeCheck_frame [OF ok w g0]], goal_cases)
  case (1 x)
  obtain e st1 where x: "x = (e, st1)" by (cases x)
  show ?case
  proof (cases e)
    case (Some y)
    with 1 x show ?thesis by (simp add: checked_def settled_def gas_accounted_def)
  next
    case None
    with 1 x have x1: "db.extends (evm_env evm) s0 (st_state st1)"
      and b: "initialGas st1 = msg_Gas msg" "st_gas st1 = msg_Gas msg" "msg_Gas msg \<le> st_gp st"
        "st_gp st1 = st_gp st - msg_Gas msg" by (simp_all add: checked_def bought_def)
    show ?thesis
      unfolding x None prod.case option.case
    proof (rule unless_panic_chain [OF execute_frame [OF ok x1]], goal_cases)
      case (1 y)
      from this b(1,2) show ?case
      proof (cases rule: executedE)
        case (err e st2)
        with b show ?thesis by (simp add: settled_def gas_accounted_def)
      next
        case (finished ret vmerr st2 g)
        have gp: "st_gp st2 = st_gp st - msg_Gas msg" using finished(3) b(4) by simp
        show ?thesis
          unfolding finished(1) prod.case sum.case Let_def
          by (rule unless_panic_chain [OF refundDelegateeGas_refunded [OF ok finished(2,4,5) b(3) gp]])
            (simp add: accounted_success [OF _ finished(4-7)])
      qed
    qed
  qed
qed

lemma senderTransition_gas:
  assumes ok: "evm_ok evm" and w: "db.extends (evm_env evm) s0 (st_state st)" and g0: "st_gas st = 0"
  shows "unless_panic evm s0 (senderTransition evm cb msg st) (settled evm s0 msg (st_gp st))"
proof -
  obtain e st1 where p: "preCheck (evm_env evm) msg st = (e, st1)" by fastforce
  note f = preCheck_frame [OF db.extends_valid [OF w] g0 p]
  have x1: "db.extends (evm_env evm) s0 (st_state st1)"
    by (rule db.extends_trans [OF w step_extends [OF db.extends_valid [OF w] f(1)]])
  show ?thesis
  proof (cases e)
    case (Some x)
    with p f x1 show ?thesis by (simp add: senderTransition_def settled_def gas_accounted_def)
  next
    case None
    have b: "initialGas st1 = msg_Gas msg" "st_gas st1 = msg_Gas msg"
        "st_gp st1 = (if msg_From msg = NullAddress then st_gp st else st_gp st - msg_Gas msg)"
        "msg_From msg \<noteq> NullAddress \<Longrightarrow> msg_Gas msg \<le> st_gp st"
      using f(3,4) None by (auto simp: bought_def)
    show ?thesis
      unfolding senderTransition_def p None prod.case option.case
    proof (rule unless_panic_chain [OF execute_frame [OF ok x1]], goal_cases)
      case (1 y)
      from this b(1,2) show ?case
      proof (cases rule: executedE)
        case (err e st2)
        with b(3,4) show ?thesis by (auto simp: settled_def gas_accounted_def)
      next
        case (finished ret vmerr st2 g)
        show ?thesis
        proof (cases "msg_From msg = NullAddress")
          case True
          note pc = payCoinbase_frame [OF db.extends_valid [OF finished(2)], of cb msg]
          from True finished b(3) used_bounds(3,4) [OF finished(4,5,7)] pc(2,3)
            step_extends [OF db.extends_valid [OF finished(2)] pc(1)]
          show ?thesis by (auto simp: settled_def Let_def gas_accounted_def intro: db.extends_trans)
        next
          case False
          with refundGas_refunded [OF finished(2,4,5) b(4)] finished(3) b(3) obtain st3 where
            r: "refundGas (evm_env evm) msg st2 = Some st3" "refunded (evm_env evm) s0 (st_gp st) st2 st3" by auto
          from accounted_success [OF r(2) finished(4-7)] finished(1) r(1) False show ?thesis
            by (simp add: Let_def)
        qed
      qed
    qed
  qed
qed

section \<open>Properties\<close>

text \<open>
  C13. \<^verbatim>\<open>IntrinsicGas\<close> is exact: with data shorter than \<open>2 ^ 64\<close> bytes it returns the base cost plus
  the cost of every zero and non-zero byte, and reports out of gas exactly when that sum
  does not fit into 64 bits; no intermediate computation wraps around.
\<close>

theorem IntrinsicGas_exact:
  assumes "length data < 2 ^ 64"
  shows "IntrinsicGas data creation homestead eip2028 =
    (let n = (if creation \<and> homestead then 53000 else 21000) +
             length (filter (\<lambda>b. b \<noteq> 0) data) * (if eip2028 then 16 else 68) +
             length (filter (\<lambda>b. b = 0) data) * 4
     in if n < 2 ^ 64 then Inr (of_nat n) else Inl ErrOutOfGas)"
  using IntrinsicGas_spec [OF assms] by (simp add: Let_def intrinsic_nat_def)

theorem IntrinsicGas_exact_witness:
  "IntrinsicGas [0, 1, 2, 0] True True True = Inr (of_nat (53000 + 2 * 16 + 2 * 4))"
  using IntrinsicGas_exact [of "[0, 1, 2, 0]" True True True] by simp

text \<open>
  C14. Gas accounting of a message, on a well-formed state and over interpreters whose runs, when
  they return, have not gained gas and keep the snapshots taken before them. \<^verbatim>\<open>ApplyMessage\<close> panics
  only if an interpreter does; in particular the pool never overflows. If it succeeds, the gas
  used is at most the limit and at least half of the intrinsic gas, and the pool has shrunk by
  exactly the gas used (for the null sender, possibly not at all). If it ends with an error, the
  pool is unchanged or, when the gas had been bought already, lacks the whole limit. In every
  case the snapshots taken before can still be reverted to.
\<close>

theorem ApplyMessage_gas:
  assumes "evm_ok evm" and "wf_state (evm_env evm) s"
  shows "unless_panic evm s (ApplyMessage evm coinbase msg gp s) (\<lambda>(r, st).
    db.extends (evm_env evm) s (st_state st) \<and>
    (case r of
       Inl e \<Rightarrow> st_gp st = gp \<or> msg_Gas msg \<le> gp \<and> st_gp st = gp - msg_Gas msg
     | Inr (ret, used, failed) \<Rightarrow>
         used \<le> msg_Gas msg \<and>
         (\<exists>g. IntrinsicGas (msg_Data msg) (msg_To msg = None) (IsHomestead evm) (IsIstanbul evm) = Inr g \<and>
              unat g \<le> 2 * unat used) \<and>
         (unat (st_gp st) + unat used = unat gp \<or> msg_From msg = NullAddress \<and> st_gp st = gp)))"
proof -
  note x = db.extends_refl [OF assms(2)]
  have "unless_panic evm s (ApplyMessage evm coinbase msg gp s) (settled evm s msg gp)"
    unfolding ApplyMessage_def TransitionDb_def NewStateTransition_def StateTransition.simps
  proof (rule unless_panic_chain [OF GetDelegatee_frame [OF assms(1) x]], goal_cases)
    case (1 y)
    obtain d e1 s1 where y: "y = (d, e1, s1)" by (cases y) auto
    with 1 have s1: "db.extends (evm_env evm) s s1" by simp
    show ?case
      unfolding y prod.case
    proof (rule unless_panic_chain [OF GetStamina_frame [OF assms(1) s1]], goal_cases)
      case (1 z)
      obtain b e2 s2 where z: "z = (b, e2, s2)" by (cases z) auto
      let ?st = "\<lparr>st_gp = gp, st_gas = 0, initialGas = 0, st_state = s2\<rparr>"
      from 1 z have "db.extends (evm_env evm) s (st_state ?st)" by simp
      from delegateeTransition_gas [OF assms(1) this, of coinbase msg d] senderTransition_gas [OF assms(1) this, of coinbase msg]
      show ?case by (simp add: z Let_def)
    qed
  qed
  then show ?thesis
    by (rule unless_panic_mono [OF _ x]) (auto simp: settled_def gas_accounted_def split: sum.splits)
qed

definition msg0 :: Message where
  "msg0 = \<lparr>msg_From = 7, msg_To = Some 20, msg_GasPrice = 0, msg_Gas = 30000, msg_Value = 5,
           msg_Nonce = 0, CheckNonce = True, msg_Data = []\<rparr>"

theorem ApplyMessage_gas_witness:
  "\<exists>r st. ApplyMessage evm0 1 msg0 100000 state0 = Some (r, st) \<and>
     db.extends env0 state0 (st_state st) \<and> (case r of Inl e \<Rightarrow> True | Inr (ret, used, failed) \<Rightarrow> used \<le> 30000)"
proof -
  have "wf_state (evm_env evm0) state0" using wf_state0 by (simp add: evm0_def)
  from ApplyMessage_gas [OF evm0_ok this, of 1 msg0 100000] show ?thesis
    by (cases "ApplyMessage evm0 1 msg0 100000 state0")
      (auto simp: evm0_no_panic, auto simp: evm0_def msg0_def split: sum.splits)
qed

end
