(* ===== verification/Transition_Ledger.thy ===== *)
theory Transition_Ledger
  imports State_Transition
begin

text \<open>
  The ledger of a plain transfer: a message to an account without code (or to a precompile) that
  is paid for by its sender (\<^verbatim>\<open>TransitionDb\<close> in \<^verbatim>\<open>src/core/state_transition.go\<close>). What the sender
  prepays is what the refund returns plus what the coinbase earns, and every balance and nonce
  after the message is determined.
\<close>

section \<open>Books\<close>

text \<open>\<open>moves E s d k s'\<close>: the balances have changed by \<open>d\<close> and the nonces by \<open>k\<close>; no gas refund was added.\<close>

definition moves :: "env \<Rightarrow> StateDB \<Rightarrow> (address \<Rightarrow> int) \<Rightarrow> (address \<Rightarrow> u64) \<Rightarrow> StateDB \<Rightarrow> bool" where
  "moves E s d k s' \<longleftrightarrow>
     refund s' = refund s \<and>
     (\<forall>a. balance_of (world_of E s') a = balance_of (world_of E s) a + d a \<and>
          nonce_of (world_of E s') a = nonce_of (world_of E s) a + k a)"

definition just :: "address \<Rightarrow> 'a::zero \<Rightarrow> address \<Rightarrow> 'a" where
  "just a n = (\<lambda>x. if x = a then n else 0)"

lemma refund_world: "refund s = w_refund (world_of E s)"
  by (simp add: world_of_def)

lemma refund_frame [simp]:
  "w_refund (on_account E a f w) = w_refund w" "w_refund (created E a w) = w_refund w"
  "w_refund (transferred E a b n w) = w_refund w"
  by (simp_all add: on_account_def created_def transferred_def)

lemma moves_same: "world_of E s' = world_of E s \<Longrightarrow> moves E s (\<lambda>x. 0) (\<lambda>x. 0) s'"
  by (simp add: moves_def refund_world [of _ E])

lemma moves_trans:
  "moves E s1 d k s2 \<Longrightarrow> moves E s2 d' k' s3 \<Longrightarrow> moves E s1 (\<lambda>x. d x + d' x) (\<lambda>x. k x + k' x) s3"
  by (simp add: moves_def)

lemma nonce_acct_or_blank [simp]: "v_nonce (acct_or_blank E w a) = nonce_of w a"
  by (simp add: acct_or_blank_def nonce_of_def split: option.split)

lemma nonce_of_on_account:
  assumes "\<not> v_deleted (f (acct_or_blank E w a))"
  shows "nonce_of (on_account E a f w) = (nonce_of w)(a := v_nonce (f (acct_or_blank E w a)))"
  using assms by (auto simp: on_account_def nonce_of_def acct_def)

lemmas on_account_books = balance_of_on_account nonce_of_on_account

lemma AddBalance_moves: "wf_state E s \<Longrightarrow> moves E s (just a n) (\<lambda>x. 0) (AddBalance E a n s)"
  by (simp add: moves_def just_def refund_world [of _ E] AddBalance_refines(2) on_account_books)

lemma SubBalance_moves: "wf_state E s \<Longrightarrow> moves E s (just a (- n)) (\<lambda>x. 0) (SubBalance E a n s)"
  by (simp add: moves_def just_def refund_world [of _ E] SubBalance_refines(2) on_account_books)

text \<open>What leaves the account of a sender; the null address pays nothing.\<close>

definition paid_by :: "address \<Rightarrow> int \<Rightarrow> address \<Rightarrow> int" where
  "paid_by a n = (if a = NullAddress then (\<lambda>x. 0) else just a (- n))"

lemma Transfer_moves:
  assumes "wf_state E s"
  shows "moves E s (\<lambda>x. paid_by a n x + just b n x) (\<lambda>x. 0) (Transfer E a b n s)"
  unfolding moves_def refund_world [of _ E] Transfer_refines(2) [OF assms]
  by (simp add: just_def paid_by_def transferred_def on_account_books)

section \<open>Recipients that run no code\<close>

text \<open>
  An interpreter returns at once on empty code, as \<^verbatim>\<open>EVMInterpreter.Run\<close> does.
\<close>

definition idle :: "EVM \<Rightarrow> bool" where
  "idle evm \<longleftrightarrow>
     (\<forall>i \<in> set (interpreters evm). \<forall>c input ro s.
        c_Code c = [] \<longrightarrow> int_Run i c input ro s = Some ([], None, c_Gas c, s))"

text \<open>
  A recipient without code, or a precompile, that is not a deleted account with a balance left
  (which creating the account would bring back).
\<close>

definition plain :: "EVM \<Rightarrow> world \<Rightarrow> address \<Rightarrow> bool" where
  "plain evm w a \<longleftrightarrow>
     (precompile evm a \<noteq> None \<or> code_of_account w a = []) \<and>
     (case w_accounts w a of None \<Rightarrow> True | Some v \<Rightarrow> v_deleted v \<longrightarrow> v_balance v = 0)"

lemma code_of_account_on_account:
  assumes "\<And>v. v_code (f v) = v_code v" "\<And>v. v_deleted (f v) = v_deleted v"
  shows "code_of_account (on_account E a f w) b = code_of_account w b"
  using assms by (simp add: code_of_account_def on_account_def acct_or_blank_def acct_def split: option.split)

lemma plain_on_account:
  assumes "plain evm w b" "\<And>v. v_code (f v) = v_code v" "\<And>v. v_deleted (f v) = v_deleted v"
  shows "plain evm (on_account E a f w) b"
  using assms code_of_account_on_account [of f E a w b] by (auto simp: plain_def on_account_def)

lemma plain_created:
  assumes "plain evm w a" "acct w a = None"
  shows "plain evm (created E a w) a" "balance_of (created E a w) b = balance_of w b"
    "nonce_of (created E a w) b = nonce_of w b"
  using assms
  by (auto simp: plain_def created_def balance_of_def nonce_of_def code_of_account_def acct_def split: option.splits if_splits)

lemma run_plain:
  assumes "idle evm" "c_CodeAddr c = Some a" "precompile evm a \<noteq> None \<or> c_Code c = []"
    and "run evm c input ro s = Some (ret, err, g, s')"
  shows "s' = s"
proof (cases "precompile evm a")
  case None
  have "s' = s" if "\<forall>i \<in> set is. i \<in> set (interpreters evm)" "run_interpreters is c input ro s = Some (ret, err, g, s')" for "is"
    using that assms(1,3) None by (induction "is") (auto simp: idle_def split: if_splits)
  with assms(2,4) None show ?thesis by (auto simp: run_def)
next
  case (Some p)
  with assms(2,4) show ?thesis
    by (auto simp: run_def RunPrecompiledContract_def case_prod_beta split: option.splits)
qed

lemma load_code_code:
  assumes "wf_state E s"
  shows "c_Code (fst (load_code E a c s)) = code_of_account (world_of E s) a"
    "c_CodeAddr (fst (load_code E a c s)) = Some a"
proof -
  note h = read_steps(9,10) [OF assms, of a]
  show "c_Code (fst (load_code E a c s)) = code_of_account (world_of E s) a"
    using GetCode_refines(1) [OF step_wf [OF h(1)], of a] h(2)
    by (simp add: load_code_def case_prod_beta Let_def SetCallCode_def code_of_account_def)
qed (simp add: load_code_def case_prod_beta Let_def SetCallCode_def)

text \<open>A call of a plain recipient up to the run.\<close>

lemma plain_call:
  assumes w: "wf_state (evm_env evm) s" and d: "evm_depth evm = 0" and plain: "plain evm (world_of (evm_env evm) s) addr"
  obtains s1 s3 rid c s6 where
    "Call evm caller addr input gas amount s =
       (if \<not> (ref_Address caller = NullAddress \<or> amount \<le> balance_of (world_of (evm_env evm) s) (ref_Address caller))
        then Some ([], gas, Some ErrInsufficientBalance, s1)
        else if acct (world_of (evm_env evm) s) addr = None \<and> precompile evm addr = None \<and> IsEIP158 evm \<and> amount = 0
        then Some ([], gas, None, s3)
        else settle evm rid (run evm c input False s6))"
    "world_of (evm_env evm) s3 = world_of (evm_env evm) s"
    "moves (evm_env evm) s (\<lambda>x. paid_by (ref_Address caller) amount x + just addr amount x) (\<lambda>x. 0) s6"
    "c_CodeAddr c = Some addr" "precompile evm addr \<noteq> None \<or> c_Code c = []" "c_Gas c = gas"
proof -
  let ?E = "evm_env evm" and ?who = "ref_Address caller"
  obtain can s1 where ct: "CanTransfer ?E ?who amount s = (can, s1)" by fastforce
  obtain rid s2 where sn: "Snapshot s1 = (rid, s2)" by fastforce
  obtain ex s3 where ex: "Exist ?E addr s2 = (ex, s3)" by fastforce
  define s4 where "s4 = (if ex then s3 else CreateAccount ?E addr s3)"
  define s5 where "s5 = Transfer ?E ?who addr amount s4"
  obtain c s6 where lc: "load_code ?E addr (NewContract caller addr amount gas) s5 = (c, s6)" by fastforce
  note st = CanTransfer_refines [OF w, of ?who amount, unfolded ct snd_conv fst_conv]
  note sn' = Snapshot_refines(1,2) [OF step_wf [OF st(1)] sn]
  note st3 = read_steps(5,6) [OF sn'(1), of addr, unfolded ex snd_conv]
  have w3: "wf_state ?E s3" "world_of ?E s3 = world_of ?E s" "ex \<longleftrightarrow> acct (world_of ?E s) addr \<noteq> None"
    using step_wf [OF st3(1)] st3(2) sn'(2) st(2) reads_of(3) [OF sn'(1), of addr] by (simp_all add: ex)
  note cr = CreateAccount_refines [OF w3(1), of addr]
  have w4: "wf_state ?E s4" and m4: "moves ?E s (\<lambda>x. 0) (\<lambda>x. 0) s4" and p4: "plain evm (world_of ?E s4) addr"
    using cr step_wf w3 plain plain_created [OF plain, of ?E] moves_same [of ?E s3 s]
    by (auto simp: s4_def moves_def refund_world [of _ ?E])
  note t = Transfer_refines [OF w4, of ?who addr amount, folded s5_def]
  have p5: "plain evm (world_of ?E s5) addr"
    using p4 by (auto simp: t(2) transferred_def intro!: plain_on_account)
  note c = load_code_code [OF step_wf [OF t(1)], of addr "NewContract caller addr amount gas", unfolded lc fst_conv]
  note l = load_code_refines [OF step_wf [OF t(1)], of addr "NewContract caller addr amount gas", unfolded lc fst_conv snd_conv]
  have m6: "moves ?E s (\<lambda>x. paid_by ?who amount x + just addr amount x) (\<lambda>x. 0) s6"
    using moves_trans [OF moves_trans [OF m4 Transfer_moves [OF w4, of ?who amount addr]] moves_same] l(2)
    by (simp add: s5_def)
  have "Call evm caller addr input gas amount s =
     (if \<not> can then Some ([], gas, Some ErrInsufficientBalance, s1)
      else if \<not> ex \<and> precompile evm addr = None \<and> IsEIP158 evm \<and> amount = 0 then Some ([], gas, None, s3)
      else settle evm rid (run evm c input False s6))"
    unfolding Call_def Let_def ct sn ex prod.case s4_def [symmetric] s5_def [symmetric] lc by (simp add: d)
  from that [OF this [unfolded st(3) w3(3) not_not] w3(2) m6 c(2)] show thesis
    using p5 c(1) l(3) by (simp add: plain_def NewContract_def)
qed

lemma Call_plain:
  assumes ok: "evm_ok evm" "idle evm" and w: "wf_state (evm_env evm) s" and d: "evm_depth evm = 0"
    and plain: "plain evm (world_of (evm_env evm) s) addr"
    and res: "Call evm caller addr input gas amount s = Some (ret, left, err, s')"
  shows "moves (evm_env evm) s
    (\<lambda>x. if err = None then paid_by (ref_Address caller) amount x + just addr amount x else 0) (\<lambda>x. 0) s'"
proof (cases err)
  case (Some e)
  with Call_safe [OF ok(1) w, of gas caller addr input amount] res moves_same [of "evm_env evm" s' s] show ?thesis
    by (simp add: call_safe_def)
next
  case None
  let ?E = "evm_env evm"
  from w d plain show ?thesis
  proof (rule plain_call [where caller = caller and input = input and gas = gas and amount = amount], goal_cases)
    case (1 s1 s3 rid c s6)
    have ran: "s' = s6" if "settle evm rid (run evm c input False s6) = Some (ret, left, err, s')"
      using that None run_plain [OF ok(2) 1(4,5), of input False s6] by (auto simp: settle_def split: option.splits)
    have now: "moves ?E s (\<lambda>x. paid_by (ref_Address caller) 0 x + just addr 0 x) (\<lambda>x. 0) s3"
      using moves_same [OF 1(2)] by (simp add: moves_def paid_by_def just_def)
    show ?case using res [unfolded 1(1)] None ran 1(3) now by (auto split: if_splits)
  qed
qed

lemma Call_plain_succeeds:
  assumes ok: "idle evm" "interpreters evm = i # is" "CanRun i []" and w: "wf_state (evm_env evm) s" and d: "evm_depth evm = 0"
    and plain: "plain evm (world_of (evm_env evm) s) addr" "precompile evm addr = None"
    and can: "ref_Address caller = NullAddress \<or> amount \<le> balance_of (world_of (evm_env evm) s) (ref_Address caller)"
  shows "\<exists>s'. Call evm caller addr input gas amount s = Some ([], gas, None, s')"
  using w d plain(1)
proof (rule plain_call [where caller = caller and input = input and gas = gas and amount = amount], goal_cases)
  case (1 s1 s3 rid c s6)
  have "run evm c input False s6 = Some ([], None, gas, s6)"
    using ok 1(4-6) plain(2) by (simp add: run_def idle_def)
  with can show ?case by (simp add: 1(1) settle_def)
qed

section \<open>The message\<close>

lemma execute_plain:
  assumes ok: "evm_ok evm" "idle evm" and w: "wf_state (evm_env evm) (st_state st)" and d: "evm_depth evm = 0"
    and to: "msg_To msg = Some addr" and plain: "plain evm (world_of (evm_env evm) (st_state st)) addr"
    and res: "execute evm msg st = Some (Inr (ret, vmerr), st2)"
  shows "moves (evm_env evm) (st_state st)
    (\<lambda>x. if vmerr = None then paid_by (msg_From msg) (msg_Value msg) x + just addr (msg_Value msg) x else 0)
    (just (msg_From msg) 1) (st_state st2)"
proof -
  let ?E = "evm_env evm" and ?who = "msg_From msg"
  obtain g left where i: "invoke evm msg (st_gas st - g) (st_state st) = Some (ret, left, vmerr, st_state st2)"
    using res by (auto simp: execute_def useGas_def Let_def split: sum.splits if_splits option.splits)
  obtain n s1 where n: "GetNonce ?E ?who (st_state st) = (n, s1)" by fastforce
  note s1 = read_steps(3,4) [OF w, of ?who, unfolded n snd_conv]
  let ?s2 = "SetNonce ?E ?who (n + 1) s1"
  note s2 = SetNonce_refines [OF step_wf [OF s1(1)], of ?who "n + 1"]
  have p: "plain evm (world_of ?E ?s2) addr" using plain by (simp add: s2(2) s1(2) plain_on_account)
  have "Call evm (AccountRef ?who) addr (msg_Data msg) (st_gas st - g) (msg_Value msg) ?s2 = Some (ret, left, vmerr, st_state st2)"
    using i by (simp add: invoke_def to n Let_def)
  from Call_plain [OF ok step_wf [OF s2(1)] d p this] have c: "moves ?E ?s2 (\<lambda>x. if vmerr = None then paid_by ?who (msg_Value msg) x + just addr (msg_Value msg) x else 0)
      (\<lambda>x. 0) (st_state st2)" unfolding ref_Address.simps .
  have "moves ?E (st_state st) (\<lambda>x. 0) (just ?who 1) ?s2"
    unfolding moves_def refund_world [of _ ?E] s2(2) s1(2) using reads_of(2) [OF w, of ?who]
    by (simp add: just_def on_account_books n)
  from moves_trans [OF this c] show ?thesis by simp
qed

lemma preCheck_moves:
  assumes w: "wf_state E (st_state st)" and p: "preCheck E msg st = (None, st1)"
  shows "moves E (st_state st) (paid_by (msg_From msg) (uint (msg_Gas msg) * msg_GasPrice msg)) (\<lambda>x. 0) (st_state st1)"
    "plain evm (world_of E (st_state st)) a \<Longrightarrow> plain evm (world_of E (st_state st1)) a"
proof -
  obtain e0 st0 where c: "checkNonce E msg st = (e0, st0)" by fastforce
  with p have b: "buyGas E msg st0 = (None, st1)" by (auto simp: preCheck_def split: option.splits)
  note f = checkNonce_frame(1,5) [OF w c]
  note r = read_steps(1,2) [OF step_wf [OF f(1)], of "msg_From msg"]
  let ?n = "uint (msg_Gas msg) * msg_GasPrice msg" and ?s = "snd (GetBalance E (msg_From msg) (st_state st0))"
  have st1: "st_state st1 = (if msg_From msg = NullAddress then st_state st0 else SubBalance E (msg_From msg) ?n ?s)"
    using b by (auto simp: buyGas_def Let_def case_prod_beta split: if_splits sum.splits)
  show "moves E (st_state st) (paid_by (msg_From msg) ?n) (\<lambda>x. 0) (st_state st1)"
    using SubBalance_moves [OF step_wf [OF r(1)], of "msg_From msg" ?n] f(2) r(2)
    by (simp add: st1 paid_by_def moves_def refund_world [of _ E])
  show "plain evm (world_of E (st_state st)) a \<Longrightarrow> plain evm (world_of E (st_state st1)) a"
    using f(2) r(2) by (simp add: st1 SubBalance_refines(2) [OF step_wf [OF r(1)]] plain_on_account)
qed

text \<open>What was prepaid splits into the returned part and the fee.\<close>

lemma fee_split:
  assumes "st_gas st \<le> initialGas st"
  shows "uint (initialGas st) * p = uint (st_gas st) * p + uint (gasUsed st) * p"
proof -
  have "unat (st_gas st) + unat (gasUsed st) = unat (initialGas st)"
    using unat_gasUsed [OF assms] assms by (simp add: word_le_nat_alt)
  then have "uint (st_gas st) + uint (gasUsed st) = uint (initialGas st)"
    by (metis of_nat_add of_nat_unat)
  then show ?thesis by (metis distrib_right)
qed

text \<open>The refund and the fee: together with the prepayment, the sender has paid for the gas used.\<close>

lemma settlement_moves:
  assumes w: "wf_state E (st_state st2)" and i: "initialGas st2 = msg_Gas msg" "st_gas st2 \<le> msg_Gas msg"
    and r: "(if msg_From msg \<noteq> NullAddress then refundGas E msg st2 else Some st2) = Some st3"
    and u: "used = gasUsed (payCoinbase E cb msg st3)"
  shows "moves E (st_state st2)
    (\<lambda>x. paid_by (msg_From msg) (uint used * msg_GasPrice msg) x - paid_by (msg_From msg) (uint (msg_Gas msg) * msg_GasPrice msg) x
        + just cb (uint used * msg_GasPrice msg) x) (\<lambda>x. 0) (st_state (payCoinbase E cb msg st3))"
proof -
  let ?p = "msg_GasPrice msg"
  have u3: "used = gasUsed st3" using u by (simp add: payCoinbase_def gasUsed_def)
  note pay = AddBalance_moves [of E "st_state st3" cb "uint used * ?p"]
  have pc: "st_state (payCoinbase E cb msg st3) = AddBalance E cb (uint used * ?p) (st_state st3)"
    by (simp add: payCoinbase_def u3)
  show ?thesis
  proof (cases "msg_From msg = NullAddress")
    case True
    with r w pay show ?thesis by (simp add: paid_by_def pc)
  next
    case False
    let ?n = "uint (st_gas (apply_refund st2)) * ?p"
    from False r obtain gp where
      st3: "st3 = (apply_refund st2)\<lparr>st_state := AddBalance E (msg_From msg) ?n (st_state st2), st_gp := gp\<rparr>"
      by (auto simp: refundGas_def Let_def apply_refund_def)
    have "st_gas st2 \<le> initialGas st2" using i by simp
    note ar = apply_refund_bounds [OF this]
    have "uint (msg_Gas msg) * ?p = ?n + uint used * ?p"
      using fee_split [of st3 ?p] ar(1,4) i(1) by (simp add: u3 st3)
    moreover have w3: "wf_state E (st_state st3)" using step_wf [OF AddBalance_refines(1) [OF w]] by (simp add: st3)
    have "moves E (st_state st2) (just (msg_From msg) ?n) (\<lambda>x. 0) (st_state st3)"
      using AddBalance_moves [OF w] by (simp add: st3)
    note moves_trans [OF this pay [OF w3], folded pc]
    ultimately show ?thesis using False by (simp add: paid_by_def just_def moves_def)
  qed
qed

section \<open>Plain transfers go through\<close>

lemma preCheck_succeeds:
  assumes w: "wf_state E (st_state st)"
    and n: "CheckNonce msg \<Longrightarrow> nonce_of (world_of E (st_state st)) (msg_From msg) = msg_Nonce msg"
    and b: "msg_From msg \<noteq> NullAddress \<Longrightarrow>
        uint (msg_Gas msg) * msg_GasPrice msg \<le> balance_of (world_of E (st_state st)) (msg_From msg) \<and> msg_Gas msg \<le> st_gp st"
  shows "\<exists>st1. preCheck E msg st = (None, st1)"
proof -
  obtain e st0 where c: "checkNonce E msg st = (e, st0)" by fastforce
  note f = checkNonce_frame [OF w c]
  have "e = None" using c n reads_of(2) [OF w, of "msg_From msg"] by (auto simp: checkNonce_def Let_def case_prod_beta split: if_splits)
  moreover have "fst (buyGas E msg st0) = None"
    using b f(2,5) reads_of(1) [OF step_wf [OF f(1)], of "msg_From msg"]
    by (cases "msg_From msg = NullAddress") (auto simp: buyGas_def SubGas_def Let_def case_prod_beta)
  ultimately show ?thesis by (cases "buyGas E msg st0") (simp add: preCheck_def c)
qed

lemma execute_succeeds:
  assumes ok: "idle evm" "interpreters evm = i # is" "CanRun i []" and w: "wf_state (evm_env evm) (st_state st)"
    and d: "evm_depth evm = 0" and to: "msg_To msg = Some addr" "precompile evm addr = None"
    and plain: "plain evm (world_of (evm_env evm) (st_state st)) addr"
    and can: "msg_From msg = NullAddress \<or> msg_Value msg \<le> balance_of (world_of (evm_env evm) (st_state st)) (msg_From msg)"
    and g: "IntrinsicGas (msg_Data msg) False (IsHomestead evm) (IsIstanbul evm) = Inr g" "g \<le> st_gas st"
  shows "\<exists>st2. execute evm msg st = Some (Inr ([], None), st2) \<and> st_gas st2 = st_gas st - g \<and> initialGas st2 = initialGas st"
proof -
  let ?E = "evm_env evm" and ?who = "msg_From msg"
  obtain n s1 where n: "GetNonce ?E ?who (st_state st) = (n, s1)" by fastforce
  note s1 = read_steps(3,4) [OF w, of ?who, unfolded n snd_conv]
  let ?s2 = "SetNonce ?E ?who (n + 1) s1"
  note s2 = SetNonce_refines [OF step_wf [OF s1(1)], of ?who "n + 1"]
  have p: "plain evm (world_of ?E ?s2) addr" using plain by (simp add: s2(2) s1(2) plain_on_account)
  have "ref_Address (AccountRef ?who) = NullAddress \<or>
      msg_Value msg \<le> balance_of (world_of ?E ?s2) (ref_Address (AccountRef ?who))"
    unfolding s2(2) s1(2) using can by (simp add: balance_of_on_account)
  from Call_plain_succeeds [OF ok step_wf [OF s2(1)] d p to(2) this, of "msg_Data msg" "st_gas st - g"]
  obtain s' where "invoke evm msg (st_gas st - g) (st_state st) = Some ([], st_gas st - g, None, s')"
    by (auto simp: invoke_def to(1) n)
  then show ?thesis using g by (simp add: execute_def to(1) useGas_def not_less Let_def)
qed

lemma sender_succeeds:
  assumes "evm_ok evm" and "idle evm" and "interpreters evm = i # is" and "CanRun i []" and "evm_depth evm = 0"
    and "wf_state (evm_env evm) (st_state st)" and "st_gas st = 0"
    and "msg_To msg = Some addr" and "precompile evm addr = None"
    and "plain evm (world_of (evm_env evm) (st_state st)) addr"
    and "CheckNonce msg \<Longrightarrow> nonce_of (world_of (evm_env evm) (st_state st)) (msg_From msg) = msg_Nonce msg"
    and "0 \<le> msg_Value msg"
    and "msg_From msg \<noteq> NullAddress \<Longrightarrow>
        msg_Value msg + uint (msg_Gas msg) * msg_GasPrice msg
          \<le> balance_of (world_of (evm_env evm) (st_state st)) (msg_From msg) \<and> msg_Gas msg \<le> st_gp st"
    and "IntrinsicGas (msg_Data msg) False (IsHomestead evm) (IsIstanbul evm) = Inr g" and "g \<le> msg_Gas msg"
  shows "\<exists>st'. senderTransition evm cb msg st =
    Some (Inr ([], if msg_From msg = NullAddress then g else g - min (g div 2) (refund (st_state st)), False), st')"
proof -
  let ?E = "evm_env evm" and ?null = "msg_From msg = NullAddress"
  obtain st1 where p: "preCheck ?E msg st = (None, st1)"
    using preCheck_succeeds [OF assms(6,11)] assms(12,13) by fastforce
  note f = preCheck_frame [OF assms(6,7) p] and m1 = preCheck_moves [OF assms(6) p]
  note w1 = step_wf [OF f(1)]
  have b: "initialGas st1 = msg_Gas msg" "st_gas st1 = msg_Gas msg" using f(3,4) by (auto simp: bought_def)
  have can: "?null \<or> msg_Value msg \<le> balance_of (world_of ?E (st_state st1)) (msg_From msg)"
    using m1(1) assms(13) by (auto simp: moves_def paid_by_def just_def)
  from execute_succeeds [OF assms(2-4) w1 assms(5,8,9) m1(2) [OF assms(10)] can assms(14)] assms(15) b
  obtain st2 where x: "execute evm msg st1 = Some (Inr ([], None), st2)" "st_gas st2 = msg_Gas msg - g" "initialGas st2 = msg_Gas msg"
    by auto
  have "executed evm (st_state st1) msg st1 (Inr ([], None), st2)"
    using execute_frame [OF assms(1) db.extends_refl [OF w1], of msg] x by simp
  then have i: "db.extends ?E (st_state st1) (st_state st2)" "st_gas st2 \<le> msg_Gas msg" "st_gp st2 = st_gp st1"
    using b by (auto simp: executed_def Let_def)
  have rf: "refund (st_state st2) = refund (st_state st)"
    using execute_plain [OF assms(1,2) w1 assms(5,8) m1(2) [OF assms(10)] x(1)] m1(1) by (simp add: moves_def)
  have u: "gasUsed st2 = g" using x by (simp add: gasUsed_def)
  have u': "gasUsed (apply_refund st2) = g - min (g div 2) (refund (st_state st))"
    using x u rf by (auto simp: apply_refund_def GetRefund_def Let_def min_def gasUsed_def)
  show ?thesis
  proof (cases ?null)
    case True
    with p x u show ?thesis by (simp add: senderTransition_def Let_def payCoinbase_def gasUsed_def)
  next
    case False
    with f(3) i(3) have "msg_Gas msg \<le> st_gp st" "st_gp st2 = st_gp st - msg_Gas msg" by (simp_all add: bought_def)
    from refundGas_refunded [OF i(1) x(3) i(2) this] obtain st3 where
      r: "refundGas ?E msg st2 = Some st3" "gasUsed st3 = gasUsed (apply_refund st2)" by (auto simp: refunded_def)
    with False p x(1) u' show ?thesis by (simp add: senderTransition_def Let_def payCoinbase_def gasUsed_def)
  qed
qed

section \<open>Properties\<close>

text \<open>
  C15. The ledger of a plain transfer: a message of the sender path that succeeds, at call depth
  0, to an account without code or to a precompile. The interpreters return at once on
  empty code (and, as for the message calls, never gain gas and keep earlier snapshots), and the
  recipient is not a deleted account with a balance left. Then, whichever of the sender, the
  recipient and the coinbase coincide, a sender other than the null address has paid the value
  (nothing if the precompile failed) and the price of the gas used, the recipient has received
  the value, the coinbase the price of the gas used, and no other balance has changed; the
  sender's nonce has grown by one and no other nonce has changed. The null address pays nothing,
  so what its messages hand out is new ether.
\<close>

theorem plain_transfer_ledger:
  assumes "evm_ok evm" and "idle evm" and "evm_depth evm = 0"
    and "wf_state (evm_env evm) (st_state st)" and "st_gas st = 0"
    and "msg_To msg = Some addr" and "plain evm (world_of (evm_env evm) (st_state st)) addr"
    and "senderTransition evm cb msg st = Some (Inr (ret, used, failed), st')"
  shows "balance_of (world_of (evm_env evm) (st_state st')) a =
      balance_of (world_of (evm_env evm) (st_state st)) a
      - (if a = msg_From msg \<and> a \<noteq> NullAddress
         then (if failed then 0 else msg_Value msg) + uint used * msg_GasPrice msg else 0)
      + (if a = addr \<and> \<not> failed then msg_Value msg else 0)
      + (if a = cb then uint used * msg_GasPrice msg else 0) \<and>
    nonce_of (world_of (evm_env evm) (st_state st')) a =
      nonce_of (world_of (evm_env evm) (st_state st)) a + (if a = msg_From msg then 1 else 0)"
proof -
  let ?E = "evm_env evm"
  obtain e st1 where p: "preCheck ?E msg st = (e, st1)" by fastforce
  with assms(8) have e: "e = None" by (auto simp: senderTransition_def split: option.splits)
  note f = preCheck_frame [OF assms(4,5) p] and m1 = preCheck_moves [OF assms(4) p [unfolded e]]
  note w1 = step_wf [OF f(1)]
  have b: "initialGas st1 = msg_Gas msg" "st_gas st1 = msg_Gas msg" using f(3,4) e by (auto simp: bought_def)
  obtain vmerr st2 st3 where x: "execute evm msg st1 = Some (Inr (ret, vmerr), st2)"
    and r: "(if msg_From msg \<noteq> NullAddress then refundGas ?E msg st2 else Some st2) = Some st3"
    and st': "st' = payCoinbase ?E cb msg st3" "used = gasUsed (payCoinbase ?E cb msg st3)" "failed = (vmerr \<noteq> None)"
    using assms(8) p e by (auto simp: senderTransition_def Let_def split: option.splits sum.splits)
  have "executed evm (st_state st1) msg st1 (Inr (ret, vmerr), st2)"
    using execute_frame [OF assms(1) db.extends_refl [OF w1], of msg] x by simp
  then have i: "wf_state ?E (st_state st2)" "initialGas st2 = msg_Gas msg" "st_gas st2 \<le> msg_Gas msg"
    using b db.extends_valid by (auto simp: executed_def Let_def)
  note m2 = execute_plain [OF assms(1,2) w1 assms(3,6) m1(2) [OF assms(7)] x]
  from moves_trans [OF moves_trans [OF m1(1) m2] settlement_moves [OF i r st'(2)]]
  show ?thesis by (auto simp: moves_def st'(1,3) paid_by_def just_def st'(2) [symmetric])
qed

text \<open>
  C16. A plain transfer goes through: a message of the sender path at call depth 0 to an account
  without code that is neither a precompile nor a deleted account with a balance left, over
  interpreters of which the first accepts the empty code, and all return at once on it (and, as
  for the message calls, never gain gas and keep earlier snapshots). If the nonce is the sender's,
  the value is not negative, a sender other than the null address can pay the value and the price
  of the whole limit, and the limit fits into the pool and covers the intrinsic gas, then the
  message succeeds with empty output. It uses the intrinsic gas, less (except for the null
  sender) the refund counter but at most half of it.
\<close>

theorem plain_transfer_succeeds:
  assumes "evm_ok evm" and "idle evm" and "interpreters evm = i # is" and "CanRun i []" and "evm_depth evm = 0"
    and "wf_state (evm_env evm) (st_state st)" and "st_gas st = 0"
    and "msg_To msg = Some addr" and "precompile evm addr = None"
    and "plain evm (world_of (evm_env evm) (st_state st)) addr"
    and "CheckNonce msg \<Longrightarrow> nonce_of (world_of (evm_env evm) (st_state st)) (msg_From msg) = msg_Nonce msg"
    and "0 \<le> msg_Value msg"
    and "msg_From msg \<noteq> NullAddress \<Longrightarrow>
        msg_Value msg + uint (msg_Gas msg) * msg_GasPrice msg
          \<le> balance_of (world_of (evm_env evm) (st_state st)) (msg_From msg) \<and> msg_Gas msg \<le> st_gp st"
    and "IntrinsicGas (msg_Data msg) False (IsHomestead evm) (IsIstanbul evm) = Inr g" and "g \<le> msg_Gas msg"
  shows "\<exists>st'. senderTransition evm cb msg st =
    Some (Inr ([], if msg_From msg = NullAddress then g else g - min (g div 2) (refund (st_state st)), False), st')"
  using assms by (rule sender_succeeds)

text \<open>A machine whose interpreter is idle on empty code, and a message on it.\<close>

definition int1 :: Interpreter where
  "int1 = int0\<lparr>int_Run := (\<lambda>c input ro s.
     if c_Code c = [] then Some ([], None, c_Gas c, s) else int_Run int0 c input ro s)\<rparr>"

definition evm1 :: EVM where
  "evm1 = evm0\<lparr>interpreters := [int1]\<rparr>"

lemma evm1_ok: "evm_ok evm1" "idle evm1"
proof -
  have "interp_ok env0 int0" using evm0_ok by (simp add: evm_ok_def evm0_def)
  then have "interp_ok env0 int1" using db.extends_refl by (auto simp: interp_ok_def int1_def)
  then show "evm_ok evm1" by (simp add: evm_ok_def evm1_def evm0_def)
  show "idle evm1" by (simp add: idle_def evm1_def int1_def)
qed

definition msg1 :: Message where
  "msg1 = msg0\<lparr>msg_GasPrice := 2, msg_Value := 30\<rparr>"

definition state1 :: StateDB where
  "state1 = AddBalance env0 7 1000000 (state_New Map.empty)"

lemma state1_facts:
  "wf_state env0 state1" "balance_of (world_of env0 state1) = just 7 1000000" "plain evm1 (world_of env0 state1) 20"
    "nonce_of (world_of env0 state1) 7 = 0" "refund state1 = 0"
proof -
  show "wf_state env0 state1" unfolding state1_def by (rule step_wf [OF AddBalance_refines(1)]) simp
  have n: "balance_of (world_of env0 (state_New Map.empty)) a = 0" "nonce_of (world_of env0 (state_New Map.empty)) a = 0"
    "plain evm1 (world_of env0 (state_New Map.empty)) a" for a
    by (simp_all add: plain_def code_of_account_def balance_of_def nonce_of_def acct_def view_def state_New_def)
  show "balance_of (world_of env0 state1) = just 7 1000000"
    using n(1) by (simp add: state1_def AddBalance_refines(2) balance_of_on_account fun_eq_iff just_def)
  show "plain evm1 (world_of env0 state1) 20"
    using n(3) by (simp add: state1_def AddBalance_refines(2) plain_on_account)
  show "nonce_of (world_of env0 state1) 7 = 0"
    using n(2) by (simp add: state1_def AddBalance_refines(2) nonce_of_on_account)
  have "w_refund (world_of env0 state1) = 0"
    by (simp only: state1_def AddBalance_refines(2) [OF wf_state_New] refund_frame) (simp add: world_of_def state_New_def)
  then show "refund state1 = 0" by (simp only: refund_world [of _ env0])
qed

lemma machine1:
  "evm_env evm1 = env0" "evm_depth evm1 = 0" "interpreters evm1 = [int1]" "CanRun int1 []" "precompile evm1 20 = None"
  "IsHomestead evm1" "IsIstanbul evm1"
  by (simp_all add: evm1_def evm0_def int1_def int0_def precompile_def precompile_count_def)

lemma message1:
  "msg_To msg1 = Some 20" "msg_From msg1 = 7" "msg_Value msg1 = 30" "msg_GasPrice msg1 = 2" "msg_Gas msg1 = 30000"
  "msg_Nonce msg1 = 0" "msg_Data msg1 = []"
  by (simp_all add: msg1_def msg0_def)

lemma intrinsic1:
  "IntrinsicGas (msg_Data msg1) False (IsHomestead evm1) (IsIstanbul evm1) = Inr 21000" "21000 \<le> msg_Gas msg1"
  by (simp_all add: message1 IntrinsicGas_def TxGas_def Let_def)

lemma start1:
  "wf_state (evm_env evm1) (st_state (NewStateTransition 100000 state1))" "st_gas (NewStateTransition 100000 state1) = 0"
  "plain evm1 (world_of (evm_env evm1) (st_state (NewStateTransition 100000 state1))) 20"
  "st_state (NewStateTransition 100000 state1) = state1" "st_gp (NewStateTransition 100000 state1) = 100000"
  using state1_facts by (simp_all add: NewStateTransition_def machine1)

theorem plain_transfer_succeeds_witness:
  "\<exists>st'. senderTransition evm1 9 msg1 (NewStateTransition 100000 state1) = Some (Inr ([], 21000, False), st')"
  using plain_transfer_succeeds [OF evm1_ok machine1(3,4,2) start1(1,2) message1(1) machine1(5) start1(3) _ _ _ intrinsic1, of 9]
  by (simp add: start1 message1 machine1 state1_facts(2,4,5) just_def NullAddress_def)

lemma msg1_succeeds:
  "\<exists>st'. senderTransition evm1 9 msg1 (NewStateTransition 100000 state1) = Some (Inr ([], 21000, False), st')"
  using sender_succeeds [OF evm1_ok machine1(3,4,2) start1(1,2) message1(1) machine1(5) start1(3) _ _ _ intrinsic1, of 9]
  by (simp add: start1 message1 machine1 state1_facts(2,4,5) just_def NullAddress_def)

theorem plain_transfer_ledger_witness:
  "\<exists>st'. senderTransition evm1 9 msg1 (NewStateTransition 100000 state1) = Some (Inr ([], 21000, False), st') \<and>
     balance_of (world_of env0 (st_state st')) 7 = 957970 \<and> balance_of (world_of env0 (st_state st')) 20 = 30 \<and>
     balance_of (world_of env0 (st_state st')) 9 = 42000"
proof -
  obtain st' where r: "senderTransition evm1 9 msg1 (NewStateTransition 100000 state1) = Some (Inr ([], 21000, False), st')"
    using msg1_succeeds by blast
  note f = plain_transfer_ledger [OF evm1_ok machine1(2) start1(1,2) message1(1) start1(3) r]
  from f [of 7] f [of 20] f [of 9] r state1_facts(2) show ?thesis
    by (simp add: message1 machine1 start1 NullAddress_def just_def)
qed

end
