(* ===== verification/Rlp_Stream.thy ===== *)
theory Rlp_Stream
  imports Rlp
begin

text \<open>
  The RLP decoder (\<^verbatim>\<open>src/rlp/decode.go\<close>): a stream over a byte reader with an input limit, a cached
  header and a stack of the enclosing lists, and the decoders that \<^verbatim>\<open>makeDecoder\<close> chooses for a Go
  type. Decoding the encoding of a value of a type returns the value; the loop over the
  elements of a slice ends for every type without one-byte arrays, and for these it may run
  forever.
\<close>

section \<open>The stream\<close>

text \<open>
  \<open>rs_kind = None\<close> is the rearmed stream (kind -1 in the code). The innermost list is the first
  element of \<open>rs_stack\<close>, with the position inside it and its size.
\<close>

record Stream =
  rs_input :: bytes
  rs_remaining :: nat
  rs_limited :: bool
  rs_kind :: "Kind option"
  rs_size :: nat
  rs_byteval :: byte
  rs_kinderr :: "rlpError option"
  rs_stack :: "(nat \<times> nat) list"

definition willRead :: "nat \<Rightarrow> Stream \<Rightarrow> rlpError option \<times> Stream" where
  "willRead n s =
     (let s1 = s\<lparr>rs_kind := None\<rparr>;
          limit = (\<lambda>t. if rs_limited t
                      then if n > rs_remaining t then (Some ErrValueTooLarge, t)
                           else (None, t\<lparr>rs_remaining := rs_remaining t - n\<rparr>)
                      else (None, t))
      in case rs_stack s1 of
           [] \<Rightarrow> limit s1
         | (pos, total0) # outer \<Rightarrow>
             if n > total0 - pos then (Some ErrElemTooLarge, s1)
             else limit (s1\<lparr>rs_stack := (pos + n, total0) # outer\<rparr>))"

definition readFull :: "nat \<Rightarrow> Stream \<Rightarrow> (rlpError + bytes) \<times> Stream" where
  "readFull n s =
     (case willRead n s of
        (Some e, s1) \<Rightarrow> (Inl e, s1)
      | (None, s1) \<Rightarrow>
          if n \<le> length (rs_input s1)
          then (Inr (take n (rs_input s1)), s1\<lparr>rs_input := drop n (rs_input s1)\<rparr>)
          else (Inl ErrUnexpectedEOF, s1\<lparr>rs_input := []\<rparr>))"

definition readByte :: "Stream \<Rightarrow> (rlpError + byte) \<times> Stream" where
  "readByte s =
     (case willRead 1 s of
        (Some e, s1) \<Rightarrow> (Inl e, s1)
      | (None, s1) \<Rightarrow>
          (case rs_input s1 of
             [] \<Rightarrow> (Inl ErrUnexpectedEOF, s1)
           | b # bs \<Rightarrow> (Inr b, s1\<lparr>rs_input := bs\<rparr>)))"

definition readUint :: "nat \<Rightarrow> Stream \<Rightarrow> (rlpError + nat) \<times> Stream" where
  "readUint n s =
     (if n = 0 then (Inr 0, s\<lparr>rs_kind := None\<rparr>)
      else if n = 1 then
        (case readByte s of (Inl e, s1) \<Rightarrow> (Inl e, s1) | (Inr b, s1) \<Rightarrow> (Inr (unat b), s1))
      else
        (case readFull n s of
           (Inl e, s1) \<Rightarrow> (Inl e, s1)
         | (Inr bs, s1) \<Rightarrow> if bs ! 0 = 0 then (Inl ErrCanonSize, s1) else (Inr (from_be bs), s1)))"

text \<open>A failed \<^verbatim>\<open>readKind\<close> still returns a kind and a size, which \<^verbatim>\<open>Kind\<close> stores beside the error.\<close>

definition readLongKind :: "Kind \<Rightarrow> nat \<Rightarrow> Stream \<Rightarrow> (Kind \<times> nat \<times> rlpError option) \<times> Stream" where
  "readLongKind k n s =
     (case readUint n s of
        (Inl e, s1) \<Rightarrow> ((k, 0, Some e), s1)
      | (Inr m, s1) \<Rightarrow> ((k, m, if m < 56 then Some ErrCanonSize else None), s1))"

definition stream_readKind :: "Stream \<Rightarrow> (Kind \<times> nat \<times> rlpError option) \<times> Stream" where
  "stream_readKind s =
     (case readByte s of
        (Inl e, s1) \<Rightarrow>
          ((Byte, 0, Some (if rs_stack s1 = [] \<and> (e = ErrUnexpectedEOF \<or> e = ErrValueTooLarge) then EOF else e)), s1)
      | (Inr w, s1) \<Rightarrow>
          let b = unat w; s2 = s1\<lparr>rs_byteval := 0\<rparr>
          in if b < 0x80 then ((Byte, 0, None), s2\<lparr>rs_byteval := w\<rparr>)
             else if b < 0xB8 then ((String, b - 0x80, None), s2)
             else if b < 0xC0 then readLongKind String (b - 0xB7) s2
             else if b < 0xF8 then ((List, b - 0xC0, None), s2)
             else readLongKind List (b - 0xF7) s2)"

definition stream_Kind :: "Stream \<Rightarrow> (Kind \<times> nat \<times> rlpError option) \<times> Stream" where
  "stream_Kind s =
     (case rs_kind s of
        Some k \<Rightarrow> ((k, rs_size s, rs_kinderr s), s)
      | None \<Rightarrow>
          let s1 = s\<lparr>rs_kinderr := None\<rparr>
          in if (case rs_stack s1 of [] \<Rightarrow> False | (pos, total0) # _ \<Rightarrow> pos = total0) then ((Byte, 0, Some EOL), s1)
             else
               let ((k, n, err), s2) = stream_readKind s1;
                   err' = (if err \<noteq> None then err
                           else case rs_stack s2 of
                                  [] \<Rightarrow> if rs_limited s2 \<and> n > rs_remaining s2 then Some ErrValueTooLarge else None
                                | (pos, total0) # _ \<Rightarrow> if n > total0 - pos then Some ErrElemTooLarge else None)
               in ((k, n, err'), s2\<lparr>rs_kind := Some k, rs_size := n, rs_kinderr := err'\<rparr>))"

definition stream_Bytes :: "Stream \<Rightarrow> (rlpError + bytes) \<times> Stream" where
  "stream_Bytes s =
     (case stream_Kind s of
        ((k, n, Some e), s1) \<Rightarrow> (Inl e, s1)
      | ((Byte, n, None), s1) \<Rightarrow> (Inr [rs_byteval s1], s1\<lparr>rs_kind := None\<rparr>)
      | ((String, n, None), s1) \<Rightarrow>
          (case readFull n s1 of
             (Inl e, s2) \<Rightarrow> (Inl e, s2)
           | (Inr b, s2) \<Rightarrow> if n = 1 \<and> b ! 0 < 128 then (Inl ErrCanonSize, s2) else (Inr b, s2))
      | ((List, n, None), s1) \<Rightarrow> (Inl ErrExpectedString, s1))"

definition stream_uint :: "nat \<Rightarrow> Stream \<Rightarrow> (rlpError + nat) \<times> Stream" where
  "stream_uint maxbits s =
     (case stream_Kind s of
        ((k, n, Some e), s1) \<Rightarrow> (Inl e, s1)
      | ((Byte, n, None), s1) \<Rightarrow>
          if rs_byteval s1 = 0 then (Inl ErrCanonInt, s1)
          else (Inr (unat (rs_byteval s1)), s1\<lparr>rs_kind := None\<rparr>)
      | ((String, n, None), s1) \<Rightarrow>
          if n > maxbits div 8 then (Inl errUintOverflow, s1)
          else (case readUint n s1 of
                  (Inl e, s2) \<Rightarrow> (Inl (if e = ErrCanonSize then ErrCanonInt else e), s2)
                | (Inr v, s2) \<Rightarrow> if n > 0 \<and> v < 128 then (Inl ErrCanonSize, s2) else (Inr v, s2))
      | ((List, n, None), s1) \<Rightarrow> (Inl ErrExpectedString, s1))"

definition stream_Bool :: "Stream \<Rightarrow> (rlpError + bool) \<times> Stream" where
  "stream_Bool s =
     (case stream_uint 8 s of
        (Inl e, s1) \<Rightarrow> (Inl e, s1)
      | (Inr n, s1) \<Rightarrow> (if n = 0 then Inr False else if n = 1 then Inr True else Inl InvalidBool, s1))"

definition stream_List :: "Stream \<Rightarrow> (rlpError + nat) \<times> Stream" where
  "stream_List s =
     (case stream_Kind s of
        ((k, n, Some e), s1) \<Rightarrow> (Inl e, s1)
      | ((k, n, None), s1) \<Rightarrow>
          if k \<noteq> List then (Inl ErrExpectedList, s1)
          else (Inr n, s1\<lparr>rs_stack := (0, n) # rs_stack s1, rs_kind := None, rs_size := 0\<rparr>))"

definition stream_ListEnd :: "Stream \<Rightarrow> rlpError option \<times> Stream" where
  "stream_ListEnd s =
     (case rs_stack s of
        [] \<Rightarrow> (Some errNotInList, s)
      | (pos, n) # outer \<Rightarrow>
          if pos \<noteq> n then (Some errNotAtEOL, s)
          else (None, s\<lparr>rs_stack := (case outer of [] \<Rightarrow> [] | (p, m) # outer' \<Rightarrow> (p + n, m) # outer'),
                        rs_kind := None, rs_size := 0\<rparr>))"

definition stream_Raw :: "Stream \<Rightarrow> (rlpError + bytes) \<times> Stream" where
  "stream_Raw s =
     (case stream_Kind s of
        ((k, n, Some e), s1) \<Rightarrow> (Inl e, s1)
      | ((k, n, None), s1) \<Rightarrow>
          if k = Byte then (Inr [rs_byteval s1], s1\<lparr>rs_kind := None\<rparr>)
          else (case readFull n s1 of
                  (Inl e, s2) \<Rightarrow> (Inl e, s2)
                | (Inr b, s2) \<Rightarrow>
                    (Inr ((if k = String then puthead 0x80 0xB7 n else puthead 0xC0 0xF7 n) @ b), s2)))"

section \<open>Decoders\<close>

text \<open>
  The Go types of the values this development stores: \<open>TUint n\<close> is an n-bit unsigned integer,
  \<open>TBytes\<close> a byte slice or a string, \<open>TArray n\<close> a byte array, \<open>TNilArray n\<close> a pointer to a byte array
  with the tag nil, whose nil value is written as an empty string. Pointers without the tag
  are transparent. The wrapping of errors with a type and a context is left out; \<^verbatim>\<open>EOL\<close> is the
  only error the decoders look at, and it is never wrapped.
\<close>

datatype GoType =
    TUint nat | TBool | TBigInt | TBytes | TArray nat | TNilArray nat
  | TSlice GoType | TStruct "GoType list"

definition decodeByteArray :: "nat \<Rightarrow> Stream \<Rightarrow> (rlpError + bytes) \<times> Stream" where
  "decodeByteArray vlen s =
     (case stream_Kind s of
        ((k, n, Some e), s1) \<Rightarrow> (Inl e, s1)
      | ((Byte, n, None), s1) \<Rightarrow>
          if vlen = 0 then (Inl InputTooLong, s1)
          else if vlen > 1 then (Inl InputTooShort, s1)
          else (case stream_uint 64 s1 of
                  (Inl e, s2) \<Rightarrow> (Inr [0], s2)
                | (Inr v, s2) \<Rightarrow> (Inr [of_nat v], s2))
      | ((String, n, None), s1) \<Rightarrow>
          if vlen < n then (Inl InputTooLong, s1)
          else if vlen > n then (Inl InputTooShort, s1)
          else (case readFull vlen s1 of
                  (Inl e, s2) \<Rightarrow> (Inl e, s2)
                | (Inr b, s2) \<Rightarrow> if n = 1 \<and> b ! 0 < 128 then (Inl ErrCanonSize, s2) else (Inr b, s2))
      | ((List, n, None), s1) \<Rightarrow> (Inl ErrExpectedString, s1))"

definition decodeNilArray :: "nat \<Rightarrow> Stream \<Rightarrow> (rlpError + bytes) \<times> Stream" where
  "decodeNilArray vlen s =
     (case stream_Kind s of
        ((k, n, Some e), s1) \<Rightarrow> (Inl e, s1)
      | ((k, n, None), s1) \<Rightarrow>
          if k \<noteq> Byte \<and> n = 0
          then if k \<noteq> String then (Inl WrongEmptyKind, s1) else (Inr [], s1\<lparr>rs_kind := None\<rparr>)
          else decodeByteArray vlen s1)"

definition decodeBigInt :: "Stream \<Rightarrow> (rlpError + int) \<times> Stream" where
  "decodeBigInt s =
     (case stream_Bytes s of
        (Inl e, s1) \<Rightarrow> (Inl e, s1)
      | (Inr b, s1) \<Rightarrow>
          if length b > 0 \<and> b ! 0 = 0 then (Inl ErrCanonInt, s1) else (Inr (int (from_be b)), s1))"

definition fmap :: "('a \<Rightarrow> 'b) \<Rightarrow> ('e + 'a) \<times> 's \<Rightarrow> ('e + 'b) \<times> 's" where
  "fmap f r = (case r of (Inl e, s) \<Rightarrow> (Inl e, s) | (Inr x, s) \<Rightarrow> (Inr (f x), s))"

text \<open>
  The loop over the elements ends when the element decoder reports the end of the list. It
  runs on fuel; \<open>None\<close> means that the fuel did not suffice.
\<close>

type_synonym 'a decoder = "Stream \<Rightarrow> ((rlpError + 'a) \<times> Stream) option"

primrec decodeSliceElems :: "nat \<Rightarrow> item decoder \<Rightarrow> item list decoder" where
  "decodeSliceElems 0 elemdec s = None"
| "decodeSliceElems (Suc fuel) elemdec s =
     (case elemdec s of
        None \<Rightarrow> None
      | Some (Inl e, s1) \<Rightarrow> Some (if e = EOL then Inr [] else Inl e, s1)
      | Some (Inr x, s1) \<Rightarrow> map_option (fmap (Cons x)) (decodeSliceElems fuel elemdec s1))"

definition finish :: "item list \<Rightarrow> Stream \<Rightarrow> (rlpError + item) \<times> Stream" where
  "finish xs s = (case stream_ListEnd s of (Some e, s1) \<Rightarrow> (Inl e, s1) | (None, s1) \<Rightarrow> (Inr (Lst xs), s1))"

fun decode :: "nat \<Rightarrow> GoType \<Rightarrow> item decoder"
  and decodeFields :: "nat \<Rightarrow> GoType list \<Rightarrow> item list decoder" where
  "decode fuel (TUint bits) s = Some (fmap (\<lambda>n. UInt (of_nat n)) (stream_uint bits s))"
| "decode fuel TBool s = Some (fmap Bool (stream_Bool s))"
| "decode fuel TBigInt s = Some (fmap BigInt (decodeBigInt s))"
| "decode fuel TBytes s = Some (fmap Str (stream_Bytes s))"
| "decode fuel (TArray n) s = Some (fmap Str (decodeByteArray n s))"
| "decode fuel (TNilArray n) s = Some (fmap Str (decodeNilArray n s))"
| "decode fuel (TSlice t) s =
     (case stream_List s of
        (Inl e, s1) \<Rightarrow> Some (Inl e, s1)
      | (Inr n, s1) \<Rightarrow>
          if n = 0 then Some (finish [] s1)
          else (case decodeSliceElems fuel (\<lambda>s'. decode fuel t s') s1 of
                  None \<Rightarrow> None
                | Some (Inl e, s2) \<Rightarrow> Some (Inl e, s2)
                | Some (Inr xs, s2) \<Rightarrow> Some (finish xs s2)))"
| "decode fuel (TStruct ts) s =
     (case stream_List s of
        (Inl e, s1) \<Rightarrow> Some (Inl e, s1)
      | (Inr n, s1) \<Rightarrow>
          (case decodeFields fuel ts s1 of
             None \<Rightarrow> None
           | Some (Inl e, s2) \<Rightarrow> Some (Inl e, s2)
           | Some (Inr xs, s2) \<Rightarrow> Some (finish xs s2)))"
| "decodeFields fuel [] s = Some (Inr [], s)"
| "decodeFields fuel (t # ts) s =
     (case decode fuel t s of
        None \<Rightarrow> None
      | Some (Inl e, s1) \<Rightarrow> Some (Inl (if e = EOL then TooFewElements else e), s1)
      | Some (Inr x, s1) \<Rightarrow> map_option (fmap (Cons x)) (decodeFields fuel ts s1))"

definition stream_Reset :: "bytes \<Rightarrow> Stream" where
  "stream_Reset b =
     \<lparr>rs_input = b, rs_remaining = length b, rs_limited = True, rs_kind = None, rs_size = 0, rs_byteval = 0,
      rs_kinderr = None, rs_stack = []\<rparr>"

definition DecodeBytes_fuel :: "nat \<Rightarrow> GoType \<Rightarrow> bytes \<Rightarrow> (rlpError + item) option" where
  "DecodeBytes_fuel fuel t b =
     (case decode fuel t (stream_Reset b) of
        None \<Rightarrow> None
      | Some (Inl e, s) \<Rightarrow> Some (Inl e)
      | Some (Inr x, s) \<Rightarrow> Some (if rs_input s \<noteq> [] then Inl ErrMoreThanOneValue else Inr x))"

text \<open>One unit of fuel more than the input has bytes is enough, as shown below.\<close>

definition DecodeBytes :: "GoType \<Rightarrow> bytes \<Rightarrow> (rlpError + item) option" where
  "DecodeBytes t b = DecodeBytes_fuel (Suc (length b)) t b"

section \<open>Reading what is there\<close>

definition bump :: "nat \<Rightarrow> (nat \<times> nat) list \<Rightarrow> (nat \<times> nat) list" where
  "bump n st = (case st of [] \<Rightarrow> [] | (pos, total0) # outer \<Rightarrow> (pos + n, total0) # outer)"

definition fits :: "nat \<Rightarrow> Stream \<Rightarrow> bool" where
  "fits n s \<longleftrightarrow> rs_limited s \<and> n \<le> length (rs_input s) \<and> n \<le> rs_remaining s \<and>
     (case rs_stack s of [] \<Rightarrow> True | (pos, total0) # outer \<Rightarrow> pos + n \<le> total0)"

definition adv :: "nat \<Rightarrow> Stream \<Rightarrow> Stream" where
  "adv n s = s\<lparr>rs_kind := None, rs_input := drop n (rs_input s), rs_remaining := rs_remaining s - n,
               rs_stack := bump n (rs_stack s)\<rparr>"

text \<open>The stream has moved on by \<open>n\<close> bytes and is rearmed; the cached header does not matter.\<close>

definition moved :: "nat \<Rightarrow> Stream \<Rightarrow> Stream \<Rightarrow> bool" where
  "moved n s s' \<longleftrightarrow> rs_kind s' = None \<and> rs_input s' = drop n (rs_input s) \<and>
     rs_remaining s' = rs_remaining s - n \<and> rs_limited s' = rs_limited s \<and> rs_stack s' = bump n (rs_stack s)"

lemma bump_bump [simp]: "bump m (bump n st) = bump (n + m) st"
  by (auto simp: bump_def split: list.splits)

lemma bump_0 [simp]: "bump 0 st = st"
  by (auto simp: bump_def split: list.splits)

lemma bump_Cons [simp]: "bump n ((p, z) # outer) = (p + n, z) # outer"
  by (simp add: bump_def)

lemma moved_trans: "moved m s s' \<Longrightarrow> moved n s' s'' \<Longrightarrow> moved (m + n) s s''"
  by (simp add: moved_def add.commute)

lemma fits_moved: "fits (m + n) s \<Longrightarrow> moved m s s' \<Longrightarrow> fits n s'"
  by (auto simp: fits_def moved_def bump_def split: list.splits)

lemma fits_less: "fits n s \<Longrightarrow> m \<le> n \<Longrightarrow> fits m s"
  by (auto simp: fits_def split: list.splits)

lemma moved_adv [simp]: "moved n s (adv n s)"
  by (simp add: moved_def adv_def)

lemma adv_sel [simp]:
  "rs_input (adv n s) = drop n (rs_input s)" "rs_kind (adv n s) = None"
  "rs_remaining (adv n s) = rs_remaining s - n" "rs_limited (adv n s) = rs_limited s"
  "rs_stack (adv n s) = bump n (rs_stack s)"
  by (simp_all add: adv_def)

lemma fits_adv: "fits (m + n) s \<Longrightarrow> fits n (adv m s)"
  using fits_moved moved_adv by blast

lemma willRead_fits:
  "fits n s \<Longrightarrow>
     willRead n s = (None, s\<lparr>rs_kind := None, rs_remaining := rs_remaining s - n, rs_stack := bump n (rs_stack s)\<rparr>)"
  by (auto simp: fits_def willRead_def bump_def Let_def split: list.splits)

lemma readFull_fits: "fits n s \<Longrightarrow> readFull n s = (Inr (take n (rs_input s)), adv n s)"
  by (simp add: readFull_def willRead_fits adv_def) (simp add: fits_def)

lemma readByte_fits: "fits 1 s \<Longrightarrow> readByte s = (Inr (rs_input s ! 0), adv 1 s)"
  by (cases "rs_input s") (auto simp: readByte_def willRead_fits adv_def fits_def)

lemma readUint_fits:
  assumes "fits k s" and "take k (rs_input s) = big_Bytes m" and "k = length (big_Bytes m)" and "0 < m"
  shows "readUint k s = (Inr m, adv k s)"
proof -
  have pos: "0 < k" using assms(3,4) by (simp add: big_Bytes_pos)
  show ?thesis
  proof (cases "k = 1")
    case True
    then obtain b bs where b: "rs_input s = b # bs"
      using assms(1) by (cases "rs_input s") (auto simp: fits_def)
    then have "[b] = big_Bytes m" using assms(2) True by simp
    then have "m = unat b" by (metis append_Nil from_be_Nil from_be_big_Bytes from_be_snoc mult_0 add_0)
    then show ?thesis using True assms(1) b by (simp add: readUint_def readByte_fits)
  next
    case False
    then show ?thesis
      using pos assms hd_big_Bytes [OF assms(4)] by (simp add: readUint_def readFull_fits)
  qed
qed

lemma readLongKind_putint:
  assumes "fits (length (putint n)) s" and "rs_input s = putint n @ r" and "56 \<le> n" and "n < 2 ^ 64"
  shows "readLongKind k (length (putint n)) s = ((k, n, None), adv (length (putint n)) s)"
proof -
  have p: "putint n = big_Bytes n" using assms(3,4) by (intro putint_big_Bytes) auto
  then have "readUint (length (putint n)) s = (Inr n, adv (length (putint n)) s)"
    using assms by (intro readUint_fits) auto
  then show ?thesis using assms(3) by (simp add: readLongKind_def)
qed

text \<open>The header of a string or list of the right size, read at a rearmed stream.\<close>

definition headed :: "Kind \<Rightarrow> nat \<Rightarrow> nat \<Rightarrow> Stream \<Rightarrow> Stream \<Rightarrow> bool" where
  "headed k n h s s' \<longleftrightarrow> stream_Kind s = ((k, n, None), s') \<and> rs_input s' = drop h (rs_input s) \<and>
     rs_remaining s' = rs_remaining s - h \<and> rs_limited s' = rs_limited s \<and> rs_stack s' = bump h (rs_stack s)"

lemma stream_readKind_puthead:
  assumes "rs_input s = puthead t l n @ r" and "(t, l, k) = (0x80, 0xB7, String) \<or> (t, l, k) = (0xC0, 0xF7, List)"
    and "fits (headsize n) s" and "n < 2 ^ 64"
  shows "\<exists>s'. stream_readKind s = ((k, n, None), s') \<and> moved (headsize n) s s'"
proof (cases "n < 56")
  case True
  then have "unat (t + of_nat n) = unat t + n" using assms(2) by (auto intro!: unat_add_byte)
  then show ?thesis
    using assms True readByte_fits [of s]
    by (auto simp: stream_readKind_def puthead_def headsize_def moved_def Let_def)
next
  case False
  let ?p = "putint n" and ?s = "(adv 1 s)\<lparr>rs_byteval := 0\<rparr>"
  have h: "headsize n = 1 + length ?p" using False length_puthead [OF assms(4), of t l]
    by (simp add: puthead_def Let_def)
  have len: "1 \<le> length ?p \<and> length ?p \<le> 8" by (rule length_putint)
  then have b: "unat (l + of_nat (length ?p)) = unat l + length ?p"
    using assms(2) by (auto intro!: unat_add_byte)
  have "fits 1 s" using assms(3) h by (auto intro: fits_less)
  then have byte: "readByte s = (Inr (l + of_nat (length ?p)), adv 1 s)"
    using readByte_fits [of s] assms(1) False by (simp add: puthead_def Let_def)
  have "fits (length ?p) ?s" using fits_adv [of 1 "length ?p" s] assms(3) h by (simp add: fits_def)
  then have "readLongKind k (length ?p) ?s = ((k, n, None), adv (length ?p) ?s)"
    using assms False by (intro readLongKind_putint) (auto simp: puthead_def Let_def)
  then have "stream_readKind s = ((k, n, None), adv (length ?p) ?s)"
    using assms(2) len b byte by (auto simp: stream_readKind_def Let_def)
  moreover have "moved (headsize n) s (adv (length ?p) ?s)"
    by (simp add: moved_def h)
  ultimately show ?thesis by blast
qed

lemma stream_Kind_puthead:
  assumes "rs_kind s = None" and "rs_input s = puthead t l n @ r"
    and "(t, l, k) = (0x80, 0xB7, String) \<or> (t, l, k) = (0xC0, 0xF7, List)"
    and "fits (headsize n + n) s" and "n < 2 ^ 64"
  shows "\<exists>s'. headed k n (headsize n) s s'"
proof -
  let ?s = "s\<lparr>rs_kinderr := None\<rparr>"
  have h: "0 < headsize n" by (simp add: headsize_def)
  have "fits (headsize n) ?s" using fits_less [OF assms(4), of "headsize n"] by (simp add: fits_def)
  with assms(2,3,5) obtain s' where k: "stream_readKind ?s = ((k, n, None), s')" and m: "moved (headsize n) ?s s'"
    using stream_readKind_puthead [of ?s t l n r k] by auto
  have "\<not> (case rs_stack s of [] \<Rightarrow> False | (pos, total0) # _ \<Rightarrow> pos = total0)"
    using assms(4) h by (auto simp: fits_def split: list.splits)
  moreover have "(case rs_stack s' of
       [] \<Rightarrow> if rs_limited s' \<and> n > rs_remaining s' then Some ErrValueTooLarge else None
     | (pos, total0) # _ \<Rightarrow> if n > total0 - pos then Some ErrElemTooLarge else None) = None"
    using assms(4) m by (auto simp: fits_def moved_def bump_def split: list.splits)
  ultimately show ?thesis
    using k m assms(1) by (auto simp: headed_def stream_Kind_def moved_def)
qed

lemma stream_Kind_byte:
  assumes "rs_kind s = None" and "rs_input s = b # r" and "b \<le> 0x7F" and "fits 1 s"
  shows "\<exists>s'. headed Byte 0 1 s s' \<and> rs_byteval s' = b \<and> rs_kind s' = Some Byte"
proof -
  let ?s = "s\<lparr>rs_kinderr := None\<rparr>"
  have "readByte ?s = (Inr b, adv 1 ?s)"
    using readByte_fits [of ?s] assms(2,4) by (simp add: fits_def)
  then have "stream_readKind ?s = ((Byte, 0, None), (adv 1 ?s)\<lparr>rs_byteval := b\<rparr>)"
    using assms(3) by (simp add: stream_readKind_def word_le_nat_alt)
  moreover have "\<not> (case rs_stack s of [] \<Rightarrow> False | (pos, total0) # _ \<Rightarrow> pos = total0)"
    using assms(4) by (auto simp: fits_def split: list.splits)
  ultimately show ?thesis
    using assms(1,4) by (auto simp: headed_def stream_Kind_def bump_def split: list.splits)
qed

text \<open>Reading \<open>n\<close> more bytes after a header of \<open>h\<close> bytes.\<close>

lemma headed_moved:
  assumes "headed k n h s s'" and "moved m s' s''"
  shows "moved (h + m) s s''"
  using assms by (simp add: headed_def moved_def add.commute)

lemma headed_fits: "headed k n h s s' \<Longrightarrow> fits (h + m) s \<Longrightarrow> fits m s'"
  by (auto simp: headed_def fits_def bump_def split: list.splits)

lemma headed_rearm: "headed k n h s s' \<Longrightarrow> moved h s (s'\<lparr>rs_kind := None\<rparr>)"
  by (simp add: headed_def moved_def)

text \<open>The shapes of an encoded string at the head of the input.\<close>

lemma str_enc_cases:
  assumes "rs_kind s = None" and "rs_input s = str_enc b @ r" and "fits (length (str_enc b)) s" and "length b < 2 ^ 64"
  obtains (single) x s' where "b = [x]" "x \<le> 0x7F" "headed Byte 0 1 s s'" "rs_byteval s' = x" "rs_kind s' = Some Byte"
      "length (str_enc b) = 1"
  | (string) s' h where "\<not> (length b = 1 \<and> b ! 0 \<le> 0x7F)" "headed String (length b) h s s'"
      "length (str_enc b) = h + length b" "fits (length b) s'" "rs_input s' = b @ r"
proof (cases "length b = 1 \<and> b ! 0 \<le> 0x7F")
  case True
  then obtain x where x: "b = [x]" by (metis One_nat_def length_0_conv length_Suc_conv)
  then have e: "str_enc b = [x]" using True by (simp add: str_enc_def)
  have le: "x \<le> 0x7F" using True x by simp
  have i: "rs_input s = x # r" and f: "fits 1 s" using assms(2,3) by (simp_all add: e)
  obtain s' where "headed Byte 0 1 s s'" "rs_byteval s' = x" "rs_kind s' = Some Byte"
    using stream_Kind_byte [OF assms(1) i le f] by blast
  then show ?thesis by (intro single [of x s']) (use x le e in simp_all)
next
  case False
  then have e: "str_enc b = puthead 0x80 0xB7 (length b) @ b" by (simp only: str_enc_def if_False)
  have l: "length (str_enc b) = headsize (length b) + length b"
    using assms(4) by (simp add: e length_puthead)
  have i: "rs_input s = puthead 0x80 0xB7 (length b) @ b @ r" using assms(2) by (simp add: e)
  obtain s' where h: "headed String (length b) (headsize (length b)) s s'"
    using stream_Kind_puthead [OF assms(1) i _ _ assms(4)] assms(3) by (auto simp: l)
  have "rs_input s' = b @ r"
    using h assms(2,4) by (simp add: headed_def e length_puthead)
  then show ?thesis using string [OF False h l] headed_fits [OF h] assms(3) by (simp add: l)
qed

lemma stream_Bytes_enc:
  assumes "rs_kind s = None" and "rs_input s = str_enc b @ r" and "fits (length (str_enc b)) s" and "length b < 2 ^ 64"
  shows "\<exists>s'. stream_Bytes s = (Inr b, s') \<and> moved (length (str_enc b)) s s'"
  using assms
proof (cases rule: str_enc_cases)
  case (single x s')
  then show ?thesis using headed_rearm by (auto simp: stream_Bytes_def headed_def)
next
  case (string s' h)
  have "\<not> (length b = 1 \<and> b ! 0 < 128)" using string(1) by (auto simp: word_le_nat_alt word_less_nat_alt)
  moreover have "readFull (length b) s' = (Inr b, adv (length b) s')"
    using readFull_fits [OF string(4)] string(5) by simp
  moreover have "stream_Kind s = ((String, length b, None), s')" using string(2) by (simp add: headed_def)
  ultimately have "stream_Bytes s = (Inr b, adv (length b) s')" by (simp add: stream_Bytes_def)
  then show ?thesis using headed_moved [OF string(2) moved_adv] by (auto simp: string(3))
qed

lemma big_Bytes_small: "big_Bytes m = [x] \<Longrightarrow> m = unat x"
  by (metis append_Nil from_be_Nil from_be_big_Bytes from_be_snoc mult_0 add_0)

lemma stream_uint_enc:
  assumes "rs_kind s = None" and "rs_input s = str_enc (big_Bytes m) @ r"
    and "fits (length (str_enc (big_Bytes m))) s" and "m < 256 ^ (bits div 8)" and "length (big_Bytes m) < 2 ^ 64"
  shows "\<exists>s'. stream_uint bits s = (Inr m, s') \<and> moved (length (str_enc (big_Bytes m))) s s'"
  using assms(1-3,5)
proof (cases rule: str_enc_cases)
  case (single x s')
  have m: "m = unat x" using single(1) by (rule big_Bytes_small)
  have "x \<noteq> 0" using single(1) m by auto
  then show ?thesis
    using single headed_rearm [OF single(3)] m by (auto simp: stream_uint_def headed_def)
next
  case (string s' h)
  let ?n = "length (big_Bytes m)"
  have le: "?n \<le> bits div 8" using assms(4) by (rule length_big_Bytes_le)
  have big: "128 \<le> m" if "0 < m"
  proof (rule ccontr)
    assume "\<not> 128 \<le> m"
    then have "big_Bytes m = [of_nat m]" using that by (simp add: small_uint)
    then show False using string(1) \<open>\<not> 128 \<le> m\<close> byte_le_iff [of m] by simp
  qed
  have "\<exists>s2. readUint ?n s' = (Inr m, s2) \<and> moved ?n s' s2"
  proof (cases "m = 0")
    case True
    then show ?thesis by (simp add: readUint_def moved_def)
  next
    case False
    then show ?thesis using readUint_fits [OF string(4)] string(5) by auto
  qed
  then obtain s2 where u: "readUint ?n s' = (Inr m, s2)" and mv: "moved ?n s' s2" by blast
  have "stream_Kind s = ((String, ?n, None), s')" using string(2) by (simp add: headed_def)
  then have "stream_uint bits s = (Inr m, s2)"
    using u le big by (cases "m = 0") (auto simp: stream_uint_def)
  then show ?thesis using headed_moved [OF string(2) mv] by (auto simp: string(3))
qed

lemma decodeByteArray_enc:
  assumes "rs_kind s = None" and "rs_input s = str_enc b @ r" and "fits (length (str_enc b)) s"
    and "length b < 2 ^ 64" and "length b \<noteq> 1"
  shows "\<exists>s'. decodeByteArray (length b) s = (Inr b, s') \<and> moved (length (str_enc b)) s s'"
  using assms(1-4)
proof (cases rule: str_enc_cases)
  case (single x s')
  then show ?thesis using assms(5) by simp
next
  case (string s' h)
  have "readFull (length b) s' = (Inr b, adv (length b) s')"
    using readFull_fits [OF string(4)] string(5) by simp
  moreover have "stream_Kind s = ((String, length b, None), s')" using string(2) by (simp add: headed_def)
  ultimately have "decodeByteArray (length b) s = (Inr b, adv (length b) s')"
    using assms(5) by (simp add: decodeByteArray_def)
  then show ?thesis using headed_moved [OF string(2) moved_adv] by (auto simp: string(3))
qed

text \<open>A second look at a header returns what is cached.\<close>

lemma stream_Kind_cached:
  assumes "stream_Kind s = ((k, n, None), s')"
  shows "stream_Kind s' = ((k, n, None), s')"
proof (cases "rs_kind s")
  case (Some k')
  then show ?thesis using assms by (auto simp: stream_Kind_def)
next
  case None
  obtain k1 n1 e1 s1 where r: "stream_readKind (s\<lparr>rs_kinderr := None\<rparr>) = ((k1, n1, e1), s1)"
    by (metis prod_cases3 surj_pair)
  then show ?thesis
    using assms None by (auto simp: stream_Kind_def Let_def split: if_splits)
qed

lemma decodeNilArray_enc:
  assumes "rs_kind s = None" and "rs_input s = str_enc b @ r" and "fits (length (str_enc b)) s"
    and "length b < 2 ^ 64" and "length b = n \<or> b = []" and "length b \<noteq> 1"
  shows "\<exists>s'. decodeNilArray n s = (Inr b, s') \<and> moved (length (str_enc b)) s s'"
  using assms(1-4)
proof (cases rule: str_enc_cases)
  case (single x s')
  then show ?thesis using assms(6) by simp
next
  case (string s' h)
  have k: "stream_Kind s = ((String, length b, None), s')" using string(2) by (simp add: headed_def)
  show ?thesis
  proof (cases "b = []")
    case True
    then show ?thesis using k headed_rearm [OF string(2)] string(3) by (auto simp: decodeNilArray_def)
  next
    case False
    then have "decodeNilArray n s = decodeByteArray (length b) s'"
      using k assms(5) by (auto simp: decodeNilArray_def)
    also have "\<dots> = decodeByteArray (length b) s"
      using k stream_Kind_cached [OF k] by (simp add: decodeByteArray_def)
    finally show ?thesis using decodeByteArray_enc [OF assms(1-4,6)] by simp
  qed
qed

section \<open>Decoding what was encoded\<close>

text \<open>
  The values of a Go type. One-byte arrays are excluded: their decoder loses track of the
  stream on a zero byte.
\<close>

fun typed :: "GoType \<Rightarrow> item \<Rightarrow> bool"
  and typeds :: "GoType list \<Rightarrow> item list \<Rightarrow> bool" where
  "typed (TUint bits) x \<longleftrightarrow> (\<exists>i. x = UInt i \<and> unat i < 256 ^ (bits div 8))"
| "typed TBool x \<longleftrightarrow> (\<exists>b. x = Bool b)"
| "typed TBigInt x \<longleftrightarrow> (\<exists>i. x = BigInt i \<and> 0 \<le> i)"
| "typed TBytes x \<longleftrightarrow> (\<exists>b. x = Str b)"
| "typed (TArray n) x \<longleftrightarrow> (\<exists>b. x = Str b \<and> length b = n \<and> n \<noteq> 1)"
| "typed (TNilArray n) x \<longleftrightarrow> (\<exists>b. x = Str b \<and> (b = [] \<or> length b = n \<and> n \<noteq> 1))"
| "typed (TSlice t) x \<longleftrightarrow> (\<exists>xs. x = Lst xs \<and> (\<forall>y \<in> set xs. typed t y))"
| "typed (TStruct ts) x \<longleftrightarrow> (\<exists>xs. x = Lst xs \<and> typeds ts xs)"
| "typeds [] xs \<longleftrightarrow> xs = []"
| "typeds (t # ts) xs \<longleftrightarrow> (\<exists>y ys. xs = y # ys \<and> typed t y \<and> typeds ts ys)"

lemma encodable_typed: "typed t x \<Longrightarrow> encodable x" "typeds ts xs \<Longrightarrow> list_all encodable xs"
  by (induction t x and ts xs rule: typed_typeds.induct) (auto simp: list_all_iff)

text \<open>\<open>reads f x n s\<close>: at \<open>s\<close> the decoder \<open>f\<close> returns \<open>x\<close> and moves on by \<open>n\<close> bytes.\<close>

definition reads :: "'a decoder \<Rightarrow> 'a \<Rightarrow> nat \<Rightarrow> Stream \<Rightarrow> bool" where
  "reads f x n s \<longleftrightarrow> (\<exists>s'. f s = Some (Inr x, s') \<and> moved n s s')"

definition at :: "bytes \<Rightarrow> Stream \<Rightarrow> bool" where
  "at b s \<longleftrightarrow> rs_kind s = None \<and> (\<exists>r. rs_input s = b @ r) \<and> fits (length b) s"

lemma at_moved: "at (b @ c) s \<Longrightarrow> moved (length b) s s' \<Longrightarrow> at c s'"
  using fits_moved [of "length b" "length c" s s'] by (auto simp: at_def moved_def)

lemma at_append: "at (b @ c) s \<Longrightarrow> at b s"
  using fits_less [of _ s "length b"] by (auto simp: at_def)

lemma stream_List_enc:
  assumes "at (list_enc p) s" and "length p < 2 ^ 64"
  obtains s' where "stream_List s = (Inr (length p), s')" "rs_kind s' = None" "rs_limited s' = rs_limited s"
    "rs_input s' = drop (headsize (length p)) (rs_input s)"
    "rs_remaining s' = rs_remaining s - headsize (length p)"
    "rs_stack s' = (0, length p) # bump (headsize (length p)) (rs_stack s)" "at p s'"
proof -
  obtain r where k: "rs_kind s = None" and i: "rs_input s = puthead 0xC0 0xF7 (length p) @ p @ r"
    and f: "fits (headsize (length p) + length p) s"
    using assms by (auto simp: at_def list_enc_def length_puthead)
  obtain s1 where h: "headed List (length p) (headsize (length p)) s s1"
    using stream_Kind_puthead [OF k i _ f assms(2)] by auto
  let ?s = "s1\<lparr>rs_stack := (0, length p) # rs_stack s1, rs_kind := None, rs_size := 0\<rparr>"
  have "stream_List s = (Inr (length p), ?s)" using h by (simp add: headed_def stream_List_def)
  moreover have "rs_input ?s = p @ r" using h i assms(2) by (simp add: headed_def length_puthead)
  then have "at p ?s" using headed_fits [OF h f] unfolding at_def by (simp add: fits_def)
  ultimately show thesis using that [of ?s] h by (simp add: headed_def)
qed

lemma finish_enc:
  assumes "rs_stack s = (n, n) # outer"
  shows "\<exists>s'. finish xs s = (Inr (Lst xs), s') \<and> rs_kind s' = None \<and> rs_limited s' = rs_limited s \<and>
    rs_input s' = rs_input s \<and> rs_remaining s' = rs_remaining s \<and> rs_stack s' = bump n outer"
  using assms by (simp add: finish_def stream_ListEnd_def bump_def)

text \<open>A list is read when its payload is.\<close>

lemma reads_list:
  assumes "at (list_enc p) s" and "length p < 2 ^ 64"
    and "\<And>s'. at p s' \<Longrightarrow> (\<exists>outer. rs_stack s' = (0, length p) # outer) \<Longrightarrow> reads f xs (length p) s'"
  shows "\<exists>s1 s2 s'. stream_List s = (Inr (length p), s1) \<and> f s1 = Some (Inr xs, s2) \<and>
    finish xs s2 = (Inr (Lst xs), s') \<and> moved (length (list_enc p)) s s'"
proof -
  obtain s1 where s1: "stream_List s = (Inr (length p), s1)" "rs_kind s1 = None" "rs_limited s1 = rs_limited s"
    "rs_input s1 = drop (headsize (length p)) (rs_input s)"
    "rs_remaining s1 = rs_remaining s - headsize (length p)"
    "rs_stack s1 = (0, length p) # bump (headsize (length p)) (rs_stack s)" "at p s1"
    using stream_List_enc [OF assms(1,2)] .
  obtain s2 where s2: "f s1 = Some (Inr xs, s2)" "moved (length p) s1 s2"
    using assms(3) s1(6,7) by (auto simp: reads_def)
  then have "rs_stack s2 = (length p, length p) # bump (headsize (length p)) (rs_stack s)"
    using s1(6) by (simp add: moved_def)
  from finish_enc [OF this, of xs] obtain s' where s': "finish xs s2 = (Inr (Lst xs), s')" "rs_kind s' = None"
    "rs_limited s' = rs_limited s2" "rs_input s' = rs_input s2" "rs_remaining s' = rs_remaining s2"
    "rs_stack s' = bump (length p) (bump (headsize (length p)) (rs_stack s))"
    by blast
  have "moved (length (list_enc p)) s s'"
    using s1 s2(2) s' assms(2) by (simp add: moved_def list_enc_def length_puthead add.commute)
  then show ?thesis using s1(1) s2(1) s'(1) by blast
qed

lemma decode_EOL:
  assumes "rs_kind s = None" and "rs_stack s = (n, n) # outer"
  shows "decode fuel t s = Some (Inl EOL, s\<lparr>rs_kinderr := None\<rparr>)"
proof -
  have "stream_Kind s = ((Byte, 0, Some EOL), s\<lparr>rs_kinderr := None\<rparr>)"
    using assms by (simp add: stream_Kind_def)
  then show ?thesis
    by (cases t) (simp_all add: stream_uint_def stream_Bool_def decodeBigInt_def stream_Bytes_def
        decodeByteArray_def decodeNilArray_def stream_List_def fmap_def)
qed

lemma enc_nonempty: "enc x \<noteq> []"
  by (simp add: enc_content list_enc_def str_enc_def puthead_def Let_def) (cases "content x"; simp)

lemma length_le_encs: "length xs \<le> length (concat (map enc xs))"
proof (induction xs)
  case (Cons x xs)
  have "1 \<le> length (enc x)" using enc_nonempty [of x] by (cases "enc x") auto
  with Cons show ?case by (simp del: One_nat_def)
qed simp

lemma reads_elems:
  assumes "\<And>x s. x \<in> set xs \<Longrightarrow> at (enc x) s \<Longrightarrow> reads (decode n t) x (length (enc x)) s"
    and "at (concat (map enc xs)) s" and "length xs < fuel"
    and "rs_stack s = (q, q + length (concat (map enc xs))) # outer"
  shows "reads (decodeSliceElems fuel (decode n t)) xs (length (concat (map enc xs))) s"
  using assms
proof (induction xs arbitrary: s fuel q)
  case Nil
  then have "decode n t s = Some (Inl EOL, s\<lparr>rs_kinderr := None\<rparr>)"
    by (intro decode_EOL) (auto simp: at_def)
  moreover obtain f where "fuel = Suc f" using Nil.prems(3) by (cases fuel) auto
  moreover have "rs_kind s = None" using Nil.prems(2) by (simp add: at_def)
  ultimately show ?case by (simp add: reads_def moved_def)
next
  case (Cons x xs)
  obtain f where f: "fuel = Suc f" using Cons.prems(3) by (cases fuel) auto
  have at: "at (enc x @ concat (map enc xs)) s" using Cons.prems(2) by simp
  obtain s1 where s1: "decode n t s = Some (Inr x, s1)" "moved (length (enc x)) s s1"
    using Cons.prems(1) [of x s] at_append [OF at] by (auto simp: reads_def)
  have "rs_stack s1 = (q + length (enc x), q + length (enc x) + length (concat (map enc xs))) # outer"
    using s1(2) Cons.prems(4) by (simp add: moved_def)
  then have "reads (decodeSliceElems f (decode n t)) xs (length (concat (map enc xs))) s1"
    using Cons.IH [of s1 f] Cons.prems(1,3) at_moved [OF at s1(2)] f by auto
  then show ?case
    using s1 moved_trans [OF s1(2)] by (auto simp: reads_def f fmap_def)
qed

lemma reads_slice:
  assumes "\<And>x s. x \<in> set xs \<Longrightarrow> at (enc x) s \<Longrightarrow> reads (decode fuel t) x (length (enc x)) s"
    and "at (enc (Lst xs)) s" and "length (enc (Lst xs)) < 2 ^ 64" and "length (enc (Lst xs)) \<le> fuel"
  shows "reads (decode fuel (TSlice t)) (Lst xs) (length (enc (Lst xs))) s"
proof -
  let ?p = "concat (map enc xs)"
  have p: "length ?p < 2 ^ 64" and at: "at (list_enc ?p) s" using assms(2,3) by (simp_all add: list_enc_def)
  have "length xs \<le> length ?p" by (rule length_le_encs)
  moreover have "length ?p < length (enc (Lst xs))" by (simp add: list_enc_def puthead_def Let_def)
  ultimately have fuel: "length xs < fuel" using assms(4) by linarith
  show ?thesis
  proof (cases "?p = []")
    case True
    then have nil: "xs = []" using enc_nonempty by auto
    have "reads (\<lambda>s. Some (Inr [], s)) [] (length ?p) s'" if "at ?p s'" for s'
      using that nil by (auto simp: reads_def moved_def at_def)
    from reads_list [OF at p, of "\<lambda>s. Some (Inr [], s)" "[]"] this show ?thesis
      by (auto simp: reads_def nil)
  next
    case False
    have "reads (decodeSliceElems fuel (decode fuel t)) xs (length ?p) s'"
      if "at ?p s'" and "\<exists>outer. rs_stack s' = (0, length ?p) # outer" for s'
      using reads_elems [OF assms(1) that(1) fuel, of 0] that(2) by auto
    from reads_list [OF at p, of "decodeSliceElems fuel (decode fuel t)" xs] this show ?thesis
      using False by (auto simp: reads_def)
  qed
qed

text \<open>The types that are not lists.\<close>

lemma decode_enc_leaf:
  assumes "typed t x" and "at (enc x) s" and "length (enc x) < 2 ^ 64"
    and "\<And>t'. t \<noteq> TSlice t'" and "\<And>ts. t \<noteq> TStruct ts"
  shows "reads (decode fuel t) x (length (enc x)) s"
proof (cases t)
  case (TUint bits)
  with assms(1) obtain i where i: "x = UInt i" "unat i < 256 ^ (bits div 8)" by auto
  have "length (big_Bytes (unat i)) < 2 ^ 64" using length_big_Bytes_u64 [of i] by simp
  then have "\<exists>s'. stream_uint bits s = (Inr (unat i), s') \<and> moved (length (enc x)) s s'"
    using assms(1-3) TUint i stream_uint_enc [of s "unat i" _ bits] by (auto simp: at_def)
  then show ?thesis unfolding TUint by (auto simp: i reads_def fmap_def)
next
  case TBool
  with assms(1) obtain b where b: "x = Bool b" by auto
  have e: "enc x = str_enc (big_Bytes (if b then 1 else 0))" by (simp add: b big_Bytes.simps)
  have "\<exists>s'. stream_uint 8 s = (Inr (if b then 1 else 0), s') \<and> moved (length (enc x)) s s'"
    using assms(1-3) TBool stream_uint_enc [of s "if b then 1 else 0" _ 8]
    by (auto simp: at_def e big_Bytes.simps)
  then show ?thesis unfolding TBool by (auto simp: b reads_def stream_Bool_def fmap_def)
next
  case TBigInt
  with assms(1) obtain i where i: "x = BigInt i" "0 \<le> i" by auto
  let ?b = "big_Bytes (nat i)"
  have "length ?b < 2 ^ 64" using assms(3) length_content [of x] by (simp add: i content_def)
  then obtain s' where s': "stream_Bytes s = (Inr ?b, s')" "moved (length (enc x)) s s'"
    using assms(1-3) TBigInt stream_Bytes_enc [of s ?b] by (auto simp: at_def i)
  have "\<not> (?b \<noteq> [] \<and> ?b ! 0 = 0)" using hd_big_Bytes [of "nat i"] by (cases "nat i = 0") auto
  then show ?thesis using s' i unfolding TBigInt by (auto simp: reads_def decodeBigInt_def fmap_def)
next
  case TBytes
  with assms(1) obtain b where b: "x = Str b" by auto
  have "length b < 2 ^ 64" using assms(3) length_content [of x] by (simp add: b content_def)
  then have "\<exists>s'. stream_Bytes s = (Inr b, s') \<and> moved (length (enc x)) s s'"
    using assms(1-3) TBytes stream_Bytes_enc [of s b] by (auto simp: at_def b)
  then show ?thesis unfolding TBytes by (auto simp: b reads_def fmap_def)
next
  case (TArray n)
  with assms(1) obtain b where b: "x = Str b" "length b = n" "n \<noteq> 1" by auto
  have "length b < 2 ^ 64" using assms(3) length_content [of x] by (simp add: b(1) content_def)
  then have "\<exists>s'. decodeByteArray n s = (Inr b, s') \<and> moved (length (enc x)) s s'"
    using assms(1-3) TArray b decodeByteArray_enc [of s b] by (auto simp: at_def)
  then show ?thesis unfolding TArray by (auto simp: b(1) reads_def fmap_def)
next
  case (TNilArray n)
  with assms(1) obtain b where b: "x = Str b" "b = [] \<or> length b = n \<and> n \<noteq> 1" by auto
  have "length b < 2 ^ 64" using assms(3) length_content [of x] by (simp add: b(1) content_def)
  then have "\<exists>s'. decodeNilArray n s = (Inr b, s') \<and> moved (length (enc x)) s s'"
    using assms(1-3) TNilArray b decodeNilArray_enc [of s b _ n] by (auto simp: at_def)
  then show ?thesis unfolding TNilArray by (auto simp: b(1) reads_def fmap_def)
qed (use assms(4,5) in auto)

lemma decode_enc:
  "typed t x \<Longrightarrow> at (enc x) s \<Longrightarrow> length (enc x) < 2 ^ 64 \<Longrightarrow> length (enc x) \<le> fuel \<Longrightarrow>
     reads (decode fuel t) x (length (enc x)) s"
  "typeds ts xs \<Longrightarrow> at (concat (map enc xs)) s \<Longrightarrow> length (concat (map enc xs)) < 2 ^ 64 \<Longrightarrow>
     length (concat (map enc xs)) \<le> fuel \<Longrightarrow> reads (decodeFields fuel ts) xs (length (concat (map enc xs))) s"
proof (induction t x and ts xs arbitrary: s and s rule: typed_typeds.induct)
  case (7 t x)
  then obtain xs where xs: "x = Lst xs" "\<forall>y \<in> set xs. typed t y" by auto
  have le: "length (enc y) \<le> length (enc x)" if "y \<in> set xs" for y
  proof -
    have "length (enc y) \<le> length (concat (map enc xs))"
      using that by (induction xs) auto
    then show ?thesis by (simp add: xs list_enc_def)
  qed
  have "reads (decode fuel t) y (length (enc y)) s'" if "y \<in> set xs" "at (enc y) s'" for y s'
    using 7(1) [OF that(1)] xs(2) that le [OF that(1)] 7(4,5) by auto
  then show ?case using reads_slice [of xs fuel t s] 7(3-5) xs(1) by blast
next
  case (8 ts x)
  then obtain xs where xs: "x = Lst xs" "typeds ts xs" by auto
  let ?p = "concat (map enc xs)"
  have p: "length ?p < 2 ^ 64" "length ?p \<le> fuel" and at: "at (list_enc ?p) s"
    using 8(3-5) by (simp_all add: xs list_enc_def)
  have "reads (decodeFields fuel ts) xs (length ?p) s'" if "at ?p s'" for s'
    using 8(1) [OF xs(2) that p] .
  from reads_list [OF at p(1), of "decodeFields fuel ts" xs] this show ?case
    by (auto simp: reads_def xs(1))
next
  case (9 xs)
  then show ?case by (simp add: reads_def moved_def at_def)
next
  case (10 t ts xs)
  then obtain y ys where xs: "xs = y # ys" "typed t y" "typeds ts ys" by auto
  have at: "at (enc y @ concat (map enc ys)) s" using 10(4) by (simp add: xs(1))
  obtain s1 where s1: "decode fuel t s = Some (Inr y, s1)" "moved (length (enc y)) s s1"
    using 10(1) [OF xs(2) at_append [OF at]] 10(5,6) by (auto simp: reads_def xs(1))
  have "reads (decodeFields fuel ts) ys (length (concat (map enc ys))) s1"
    using 10(2) [OF xs(3) at_moved [OF at s1(2)]] 10(5,6) by (simp add: xs(1))
  then show ?case using s1 moved_trans [OF s1(2)] by (auto simp: reads_def xs(1) fmap_def)
qed (auto intro: decode_enc_leaf)

section \<open>The decoder ends\<close>

text \<open>
  Every decoder that succeeds at a rearmed stream has consumed input and left the stream
  rearmed, unless it is the decoder of one-byte arrays.
\<close>

definition eats :: "Stream \<Rightarrow> (rlpError + 'a) \<times> Stream \<Rightarrow> bool" where
  "eats s r \<longleftrightarrow> length (rs_input (snd r)) \<le> length (rs_input s) \<and>
     (\<forall>x. fst r = Inr x \<longrightarrow> rs_kind s = None \<longrightarrow>
        length (rs_input (snd r)) < length (rs_input s) \<and> rs_kind (snd r) = None)"

lemma willRead_input: "willRead n s = (e, s') \<Longrightarrow> rs_input s' = rs_input s \<and> rs_kind s' = None"
  by (auto simp: willRead_def Let_def split: list.splits if_splits)

lemma readFull_input:
  "readFull n s = (r, s') \<Longrightarrow> length (rs_input s') \<le> length (rs_input s) \<and> rs_kind s' = None"
  by (auto simp: readFull_def split: prod.splits option.splits if_splits dest!: willRead_input)

lemma readByte_input:
  "readByte s = (r, s') \<Longrightarrow> length (rs_input s') \<le> length (rs_input s) \<and> rs_kind s' = None \<and>
     (\<forall>b. r = Inr b \<longrightarrow> length (rs_input s') < length (rs_input s))"
  by (auto simp: readByte_def split: prod.splits option.splits list.splits dest!: willRead_input)

lemma readUint_input:
  "readUint n s = (r, s') \<Longrightarrow> length (rs_input s') \<le> length (rs_input s) \<and> rs_kind s' = None"
  by (auto simp: readUint_def split: prod.splits sum.splits if_splits dest: readByte_input readFull_input)

lemma readLongKind_input:
  "readLongKind k n s = (r, s') \<Longrightarrow> length (rs_input s') \<le> length (rs_input s)"
  by (auto simp: readLongKind_def split: prod.splits sum.splits dest: readUint_input)

lemma stream_readKind_input:
  assumes "stream_readKind s = ((k, n, e), s')"
  shows "length (rs_input s') \<le> length (rs_input s) \<and> (e = None \<longrightarrow> length (rs_input s') < length (rs_input s))"
proof -
  obtain r s1 where b: "readByte s = (r, s1)" by force
  show ?thesis
    using assms readByte_input [OF b] b
    by (cases r) (auto simp: stream_readKind_def Let_def split: if_splits dest!: readLongKind_input)
qed

lemma stream_Kind_input:
  assumes "stream_Kind s = ((k, n, e), s')"
  shows "length (rs_input s') \<le> length (rs_input s) \<and>
    (e = None \<longrightarrow> rs_kind s = None \<longrightarrow> length (rs_input s') < length (rs_input s)) \<and> (e = None \<longrightarrow> rs_kind s' = Some k)"
proof (cases "rs_kind s")
  case (Some k')
  then show ?thesis using assms by (simp add: stream_Kind_def)
next
  case None
  obtain k1 n1 e1 s1 where r: "stream_readKind (s\<lparr>rs_kinderr := None\<rparr>) = ((k1, n1, e1), s1)"
    by (metis prod_cases3 surj_pair)
  show ?thesis
    using assms None stream_readKind_input [OF r] r
    by (auto simp: stream_Kind_def Let_def split: if_splits)
qed

text \<open>Prefixing a step that does not lengthen the input.\<close>

lemma stream_Bytes_eats: "eats s (stream_Bytes s)"
proof -
  obtain k n e s1 where k: "stream_Kind s = ((k, n, e), s1)" by (metis prod_cases3 surj_pair)
  obtain r s2 where r: "readFull n s1 = (r, s2)" by force
  show ?thesis
    using k stream_Kind_input [OF k] r readFull_input [OF r]
    by (cases e; cases k; cases r) (auto simp: stream_Bytes_def eats_def)
qed

lemma stream_uint_eats: "eats s (stream_uint bits s)"
proof -
  obtain k n e s1 where k: "stream_Kind s = ((k, n, e), s1)" by (metis prod_cases3 surj_pair)
  obtain r s2 where r: "readUint n s1 = (r, s2)" by force
  show ?thesis
    using k stream_Kind_input [OF k] r readUint_input [OF r]
    by (cases e; cases k; cases r) (auto simp: stream_uint_def eats_def)
qed

lemma decodeByteArray_eats: "n \<noteq> 1 \<Longrightarrow> eats s (decodeByteArray n s)"
proof -
  assume n: "n \<noteq> 1"
  obtain k m e s1 where k: "stream_Kind s = ((k, m, e), s1)" by (metis prod_cases3 surj_pair)
  obtain r s2 where r: "readFull n s1 = (r, s2)" by force
  show ?thesis
    using k stream_Kind_input [OF k] r readFull_input [OF r] n
    by (cases e; cases k; cases r) (auto simp: decodeByteArray_def eats_def)
qed

lemma decodeNilArray_eats: "n \<noteq> 1 \<Longrightarrow> eats s (decodeNilArray n s)"
proof -
  assume n: "n \<noteq> 1"
  obtain k m e s1 where k: "stream_Kind s = ((k, m, e), s1)" by (metis prod_cases3 surj_pair)
  show ?thesis
  proof (cases "e = None \<and> \<not> (k \<noteq> Byte \<and> m = 0)")
    case True
    then have d: "decodeNilArray n s = decodeByteArray n s1" using k by (auto simp: decodeNilArray_def)
    have "stream_Kind s1 = ((k, m, None), s1)" using k True stream_Kind_cached by simp
    then have "decodeByteArray n s1 = decodeByteArray n s" using k True by (simp add: decodeByteArray_def)
    then show ?thesis using d decodeByteArray_eats [OF n] by simp
  next
    case False
    then show ?thesis
      using k stream_Kind_input [OF k] by (cases e) (auto simp: decodeNilArray_def eats_def)
  qed
qed

lemma eats_fmap: "eats s r \<Longrightarrow> eats s (fmap f r)"
  by (auto simp: eats_def fmap_def split: prod.splits sum.splits)

lemma stream_Bool_eats: "eats s (stream_Bool s)"
  using stream_uint_eats [of s 8] by (auto simp: stream_Bool_def eats_def split: prod.splits sum.splits if_splits)

lemma decodeBigInt_eats: "eats s (decodeBigInt s)"
  using stream_Bytes_eats [of s] by (auto simp: decodeBigInt_def eats_def split: prod.splits sum.splits if_splits)

lemma stream_List_eats: "eats s (stream_List s)"
proof -
  obtain k n e s1 where k: "stream_Kind s = ((k, n, e), s1)" by (metis prod_cases3 surj_pair)
  show ?thesis using k stream_Kind_input [OF k] by (cases e) (auto simp: stream_List_def eats_def)
qed

lemma finish_input: "finish xs s = (r, s') \<Longrightarrow> rs_input s' = rs_input s \<and> (\<forall>x. r = Inr x \<longrightarrow> rs_kind s' = None)"
  by (auto simp: finish_def stream_ListEnd_def split: list.splits if_splits prod.splits)

fun unit_free :: "GoType \<Rightarrow> bool" where
  "unit_free (TArray n) \<longleftrightarrow> n \<noteq> 1"
| "unit_free (TNilArray n) \<longleftrightarrow> n \<noteq> 1"
| "unit_free (TSlice t) \<longleftrightarrow> unit_free t"
| "unit_free (TStruct ts) \<longleftrightarrow> list_all unit_free ts"
| "unit_free t \<longleftrightarrow> True"

text \<open>\<open>ends f\<close>: with more fuel than input, \<open>f\<close> returns, and it eats.\<close>

definition ends :: "nat \<Rightarrow> 'a decoder \<Rightarrow> bool" where
  "ends fuel f \<longleftrightarrow> (\<forall>s. length (rs_input s) < fuel \<longrightarrow> (\<exists>r. f s = Some r \<and> eats s r))"

lemma endsD: "ends fuel f \<Longrightarrow> length (rs_input s) < fuel \<Longrightarrow> \<exists>r. f s = Some r \<and> eats s r"
  by (simp add: ends_def)

lemma decodeSliceElems_ends:
  assumes "ends n f" and "length (rs_input s) < n" and "length (rs_input s) < fuel" and "rs_kind s = None"
  shows "\<exists>r s'. decodeSliceElems fuel f s = Some (r, s') \<and> length (rs_input s') \<le> length (rs_input s)"
  using assms(2-4)
proof (induction fuel arbitrary: s)
  case (Suc fuel)
  obtain r s1 where r: "f s = Some (r, s1)" and e: "eats s (r, s1)"
    using endsD [OF assms(1) Suc.prems(1)] by force
  show ?case
  proof (cases r)
    case (Inl err)
    then show ?thesis using r e by (simp add: eats_def)
  next
    case (Inr x)
    then have "length (rs_input s1) < length (rs_input s)" and "rs_kind s1 = None"
      using e Suc.prems(3) by (auto simp: eats_def)
    then obtain r' s' where "decodeSliceElems fuel f s1 = Some (r', s')" "length (rs_input s') \<le> length (rs_input s1)"
      using Suc.IH [of s1] Suc.prems by force
    then show ?thesis
      using r Inr \<open>length (rs_input s1) < length (rs_input s)\<close> by (cases r') (auto simp: fmap_def)
  qed
qed simp

lemma slice_ends:
  assumes "ends fuel (decode fuel t)"
  shows "ends fuel (decode fuel (TSlice t))"
  unfolding ends_def
proof (intro allI impI)
  fix s :: Stream
  assume fuel: "length (rs_input s) < fuel"
  obtain r s1 where l: "stream_List s = (r, s1)" by force
  note e = stream_List_eats [of s, unfolded l]
  show "\<exists>r. decode fuel (TSlice t) s = Some r \<and> eats s r"
  proof (cases r)
    case (Inl err)
    then show ?thesis using l e by (simp add: eats_def)
  next
    case (Inr n)
    have k1: "rs_kind s1 = None" using l Inr by (auto simp: stream_List_def split: prod.splits option.splits if_splits)
    have le: "length (rs_input s1) \<le> length (rs_input s)" using e by (simp add: eats_def)
    obtain r2 s2 where d: "decodeSliceElems fuel (decode fuel t) s1 = Some (r2, s2)"
      and le2: "length (rs_input s2) \<le> length (rs_input s1)"
      using decodeSliceElems_ends [OF assms, of s1 fuel] fuel le k1 by auto
    have f: "eats s (finish xs s')" if "length (rs_input s') \<le> length (rs_input s1)" for xs s'
      using finish_input [of xs s'] that e Inr by (cases "finish xs s'") (auto simp: eats_def)
    show ?thesis
    proof (cases "n = 0")
      case True
      then have "decode fuel (TSlice t) s = Some (finish [] s1)" using l Inr by simp
      then show ?thesis using f [of s1 "[]"] by blast
    next
      case False
      show ?thesis
      proof (cases r2)
        case (Inl err)
        then show ?thesis using l Inr d False le le2 by (simp add: eats_def)
      next
        case (Inr xs)
        then have "decode fuel (TSlice t) s = Some (finish xs s2)" using l \<open>r = Inr n\<close> d False by simp
        then show ?thesis using f [OF le2] by blast
      qed
    qed
  qed
qed

lemma struct_ends:
  assumes "\<And>s. length (rs_input s) < fuel \<Longrightarrow>
      \<exists>r s'. decodeFields fuel ts s = Some (r, s') \<and> length (rs_input s') \<le> length (rs_input s)"
  shows "ends fuel (decode fuel (TStruct ts))"
  unfolding ends_def
proof (intro allI impI)
  fix s :: Stream
  assume fuel: "length (rs_input s) < fuel"
  obtain r s1 where l: "stream_List s = (r, s1)" by force
  note e = stream_List_eats [of s, unfolded l]
  show "\<exists>r. decode fuel (TStruct ts) s = Some r \<and> eats s r"
  proof (cases r)
    case (Inl err)
    then show ?thesis using l e by (simp add: eats_def)
  next
    case (Inr n)
    have le: "length (rs_input s1) \<le> length (rs_input s)" using e by (simp add: eats_def)
    obtain r2 s2 where d: "decodeFields fuel ts s1 = Some (r2, s2)"
      and le2: "length (rs_input s2) \<le> length (rs_input s1)"
      using assms [of s1] fuel le by auto
    show ?thesis
    proof (cases r2)
      case (Inl err)
      then show ?thesis using l Inr d le le2 by (simp add: eats_def)
    next
      case (Inr xs)
      then have "decode fuel (TStruct ts) s = Some (finish xs s2)" using l \<open>r = Inr n\<close> d by simp
      moreover have "eats s (finish xs s2)"
        using finish_input [of xs s2] le2 e \<open>r = Inr n\<close> by (cases "finish xs s2") (auto simp: eats_def)
      ultimately show ?thesis by blast
    qed
  qed
qed

lemma decodeFields_ends:
  assumes "\<And>t. t \<in> set ts \<Longrightarrow> ends fuel (decode fuel t)" and "length (rs_input s) < fuel"
  shows "\<exists>r s'. decodeFields fuel ts s = Some (r, s') \<and> length (rs_input s') \<le> length (rs_input s)"
  using assms
proof (induction ts arbitrary: s)
  case (Cons t ts)
  obtain r s1 where r: "decode fuel t s = Some (r, s1)" and e: "eats s (r, s1)"
    using endsD [OF Cons.prems(1) Cons.prems(2), of t] by force
  then have le: "length (rs_input s1) \<le> length (rs_input s)" by (simp add: eats_def)
  obtain r' s' where "decodeFields fuel ts s1 = Some (r', s')" "length (rs_input s') \<le> length (rs_input s1)"
    using Cons.IH [of s1] Cons.prems le by force
  then show ?case using r le by (cases r; cases r') (auto simp: fmap_def)
qed simp

lemma decode_ends: "unit_free t \<Longrightarrow> ends fuel (decode fuel t)"
proof (induction t)
  case (TSlice t)
  then show ?case by (intro slice_ends) simp
next
  case (TStruct ts)
  have "unit_free t" if "t \<in> set ts" for t using TStruct.prems that by (simp add: list_all_iff)
  then show ?case using TStruct.IH by (intro struct_ends decodeFields_ends) auto
qed (auto simp: ends_def intro!: eats_fmap stream_uint_eats stream_Bool_eats decodeBigInt_eats stream_Bytes_eats
    decodeByteArray_eats decodeNilArray_eats)

lemma DecodeBytes_fuel_defined: "unit_free t \<Longrightarrow> length b < fuel \<Longrightarrow> DecodeBytes_fuel fuel t b \<noteq> None"
  using endsD [OF decode_ends, of t "stream_Reset b" fuel]
  by (auto simp: DecodeBytes_fuel_def stream_Reset_def split: sum.splits)

lemma DecodeBytes_enc:
  assumes "typed t x" and "length (enc x) < 2 ^ 64"
  shows "DecodeBytes t (enc x) = Some (Inr x)"
proof -
  let ?b = "enc x" and ?s = "stream_Reset (enc x)"
  have "at ?b ?s" by (simp add: at_def fits_def stream_Reset_def)
  then have "reads (decode (Suc (length ?b)) t) x (length ?b) ?s"
    using decode_enc(1) [OF assms(1)] assms(2) by simp
  then show ?thesis
    by (auto simp: reads_def DecodeBytes_def DecodeBytes_fuel_def moved_def stream_Reset_def)
qed

section \<open>Properties\<close>

text \<open>
  C21. Decoding is total where it should be: for every type in which no one-byte array occurs the
  decoder returns a value or an error on every input, with one unit of fuel more than the
  input has bytes.
\<close>

theorem DecodeBytes_returns:
  assumes "unit_free t" and "length b < fuel"
  shows "\<exists>r. DecodeBytes_fuel fuel t b = Some r"
  using DecodeBytes_fuel_defined [OF assms] by auto

theorem DecodeBytes_returns_witness:
  "\<exists>r. DecodeBytes_fuel 4 (TSlice (TUint 64)) [0xC2, 0x01, 0x80] = Some r"
  using DecodeBytes_returns [of "TSlice (TUint 64)" "[0xC2, 0x01, 0x80]" 4] by simp

text \<open>
  C19. Round trip: every value of a Go type in which no one-byte array occurs, with an encoding
  shorter than \<open>2 ^ 63\<close> bytes, is encoded, and decoding the encoding as that type returns the value.
\<close>

theorem DecodeBytes_EncodeToBytes:
  assumes "typed t x" and "length (enc x) < 2 ^ 63"
  shows "\<exists>b. EncodeToBytes x = Some b \<and> DecodeBytes t b = Some (Inr x)"
  using EncodeToBytes_enc [of x] encodable_typed(1) [OF assms(1)] DecodeBytes_enc [OF assms(1)] assms(2) by simp

theorem DecodeBytes_EncodeToBytes_witness:
  "\<exists>b. EncodeToBytes (Lst [UInt 1024, Str [1, 2]]) = Some b \<and>
       DecodeBytes (TStruct [TUint 64, TBytes]) b = Some (Inr (Lst [UInt 1024, Str [1, 2]]))"
  by (rule DecodeBytes_EncodeToBytes) (simp_all add: str_enc_def list_enc_def puthead_def big_Bytes.simps)

lemma decodeByteArray_stuck:
  assumes "rs_kind s = Some Byte" and "rs_kinderr s = None" and "rs_byteval s = 0"
  shows "decode fuel (TArray 1) s = Some (Inr (Str [0]), s)"
  using assms by (simp add: decodeByteArray_def stream_Kind_def stream_uint_def fmap_def)

lemma decodeSliceElems_stuck:
  assumes "rs_kind s = Some Byte" and "rs_kinderr s = None" and "rs_byteval s = 0"
  shows "decodeSliceElems fuel (decode n (TArray 1)) s = None"
  using decodeByteArray_stuck [OF assms] by (induction fuel) simp_all

definition unit_list :: Stream where
  "unit_list = snd (stream_List (stream_Reset [0xC1, 0x00]))"

lemma unit_list_steps:
  "stream_List (stream_Reset [0xC1, 0x00]) = (Inr 1, unit_list)"
  "\<exists>s. decode n (TArray 1) unit_list = Some (Inr (Str [0]), s) \<and> rs_kind s = Some Byte \<and>
       rs_kinderr s = None \<and> rs_byteval s = 0"
  by (simp_all add: unit_list_def stream_List_def stream_Kind_def stream_Reset_def stream_readKind_def readByte_def
      willRead_def decodeByteArray_def stream_uint_def fmap_def)

text \<open>
  C22. The decoder of a slice of one-byte arrays does not end on a zero byte: the byte is
  an integer in non-canonical form for \<^verbatim>\<open>Uint\<close>, whose error the array decoder drops, and the
  stream is left with the header cached, so the next element is the same byte again.
\<close>

theorem DecodeBytes_slice_of_unit_arrays_loops:
  "DecodeBytes_fuel fuel (TSlice (TArray 1)) [0xC1, 0x00] = None"
proof -
  have "decodeSliceElems fuel (decode fuel (TArray 1)) unit_list = None"
    using unit_list_steps(2) [of fuel] decodeSliceElems_stuck [of _ _ fuel] by (cases fuel) auto
  then show ?thesis by (simp add: DecodeBytes_fuel_def unit_list_steps(1))
qed

end
