(* ===== verification/Tx_Types.thy ===== *)
theory Tx_Types
  imports Rlp_Stream
begin

text \<open>
  Transactions (\<^verbatim>\<open>src/core/types/transaction.go\<close>) and the raw transactions of the root chain transaction
  manager (\<^verbatim>\<open>src/tx/types.go\<close>): their fields, their RLP form, and the operations on a raw transaction
  that ask the root chain. What the root chain answers is an argument of the model, one
  answer per call.
\<close>

section \<open>Transactions\<close>

record Transaction =
  AccountNonce :: u64
  Price :: int
  tx_GasLimit :: u64
  tx_Recipient :: "address option"
  tx_Amount :: int
  tx_Payload :: bytes
  tx_V :: int
  tx_R :: int
  tx_S :: int

definition newTransaction :: "u64 \<Rightarrow> address option \<Rightarrow> int \<Rightarrow> u64 \<Rightarrow> int \<Rightarrow> bytes \<Rightarrow> Transaction" where
  "newTransaction nonce to amount gasLimit gasPrice data =
     \<lparr>AccountNonce = nonce, Price = gasPrice, tx_GasLimit = gasLimit, tx_Recipient = to, tx_Amount = amount,
      tx_Payload = data, tx_V = 0, tx_R = 0, tx_S = 0\<rparr>"

definition NewTransaction :: "u64 \<Rightarrow> address \<Rightarrow> int \<Rightarrow> u64 \<Rightarrow> int \<Rightarrow> bytes \<Rightarrow> Transaction" where
  "NewTransaction nonce to amount gasLimit gasPrice data =
     newTransaction nonce (Some to) amount gasLimit gasPrice data"

definition opt_addr :: "address option \<Rightarrow> item" where
  "opt_addr a = Str (case a of None \<Rightarrow> [] | Some x \<Rightarrow> addr_bytes x)"

text \<open>The RLP form of a transaction is the one of its \<^verbatim>\<open>txdata\<close>, without the JSON only hash.\<close>

definition item_of_tx :: "Transaction \<Rightarrow> item" where
  "item_of_tx t =
     Lst [UInt (AccountNonce t), BigInt (Price t), UInt (tx_GasLimit t), opt_addr (tx_Recipient t),
          BigInt (tx_Amount t), Str (tx_Payload t), BigInt (tx_V t), BigInt (tx_R t), BigInt (tx_S t)]"

definition tx_type :: GoType where
  "tx_type = TStruct [TUint 64, TBigInt, TUint 64, TNilArray 20, TBigInt, TBytes, TBigInt, TBigInt, TBigInt]"

definition tx_of_item :: "item \<Rightarrow> Transaction" where
  "tx_of_item x =
     (let xs = un_Lst x
      in \<lparr>AccountNonce = un_UInt (xs ! 0), Price = un_BigInt (xs ! 1), tx_GasLimit = un_UInt (xs ! 2),
          tx_Recipient = (if un_Str (xs ! 3) = [] then None else Some (bytes_to_address (un_Str (xs ! 3)))),
          tx_Amount = un_BigInt (xs ! 4), tx_Payload = un_Str (xs ! 5), tx_V = un_BigInt (xs ! 6),
          tx_R = un_BigInt (xs ! 7), tx_S = un_BigInt (xs ! 8)\<rparr>)"

text \<open>\<^verbatim>\<open>rlpHash\<close>; the error of the encoder is dropped, and nothing is hashed then.\<close>

definition tx_Hash :: "(bytes \<Rightarrow> hash) \<Rightarrow> Transaction \<Rightarrow> hash" where
  "tx_Hash keccak t = keccak (case EncodeToBytes (item_of_tx t) of Some b \<Rightarrow> b | None \<Rightarrow> [])"

section \<open>Raw transactions\<close>

text \<open>
  A nil big integer is the number 0 here: both are written as the same RLP string, and the
  code reads \<^verbatim>\<open>Nonce\<close> and \<^verbatim>\<open>MinedBlockNumber\<close> only after they were set.
\<close>

record RawTransaction =
  rt_Index :: u64
  ConfirmedIndex :: u64
  ResendCount :: u64
  LastSentBlockNumber :: u64
  rt_Nonce :: int
  rt_From :: address
  rt_GasLimit :: u64
  rt_Recipient :: "address option"
  rt_Amount :: int
  rt_Payload :: bytes
  AllowRevert :: bool
  PendingTxs :: "Transaction list"
  MinedTxHash :: hash
  MinedBlockNumber :: int
  Reverted :: bool
  Caption :: bytes

definition NewRawTransaction ::
    "address \<Rightarrow> u64 \<Rightarrow> address option \<Rightarrow> int \<Rightarrow> bytes \<Rightarrow> bool \<Rightarrow> bytes \<Rightarrow> RawTransaction" where
  "NewRawTransaction sender gasLimit recipient amount payload allowRevert caption =
     \<lparr>rt_Index = 0, ConfirmedIndex = 0, ResendCount = 0, LastSentBlockNumber = 0, rt_Nonce = 0, rt_From = sender,
      rt_GasLimit = gasLimit, rt_Recipient = recipient, rt_Amount = amount, rt_Payload = payload,
      AllowRevert = allowRevert, PendingTxs = [], MinedTxHash = 0, MinedBlockNumber = 0, Reverted = False,
      Caption = caption\<rparr>"

text \<open>\<^verbatim>\<open>Nonce.Uint64\<close> keeps the low 64 bits of the absolute value.\<close>

definition ToTransaction :: "int \<Rightarrow> RawTransaction \<Rightarrow> Transaction" where
  "ToTransaction gasPrice raw =
     NewTransaction (of_int \<bar>rt_Nonce raw\<bar>) (case rt_Recipient raw of None \<Rightarrow> 0 | Some a \<Rightarrow> a)
       (rt_Amount raw) (rt_GasLimit raw) gasPrice (rt_Payload raw)"

text \<open>The hash dereferences the recipient, which panics when there is none.\<close>

definition raw_Hash :: "(bytes \<Rightarrow> hash) \<Rightarrow> RawTransaction \<Rightarrow> hash option" where
  "raw_Hash keccak raw =
     (case rt_Recipient raw of
        None \<Rightarrow> None
      | Some a \<Rightarrow> Some (tx_Hash keccak (NewTransaction 0 a (rt_Amount raw) (rt_GasLimit raw) 0 (rt_Payload raw))))"

definition toRawTransaction :: "address \<Rightarrow> Transaction \<Rightarrow> bool \<Rightarrow> bytes \<Rightarrow> RawTransaction" where
  "toRawTransaction sender t allowRevert caption =
     NewRawTransaction sender (tx_GasLimit t) (tx_Recipient t) (tx_Amount t) (tx_Payload t) allowRevert caption"

definition MaxNumPending :: nat where "MaxNumPending = 128"

definition AddPending :: "Transaction \<Rightarrow> RawTransaction \<Rightarrow> RawTransaction option" where
  "AddPending t raw =
     (if length (PendingTxs raw) \<ge> MaxNumPending then None
      else Some (raw\<lparr>PendingTxs := PendingTxs raw @ [t]\<rparr>))"

definition HasPending :: "(bytes \<Rightarrow> hash) \<Rightarrow> Transaction \<Rightarrow> RawTransaction \<Rightarrow> bool" where
  "HasPending keccak t raw = list_ex (\<lambda>p. tx_Hash keccak p = tx_Hash keccak t) (PendingTxs raw)"

definition PrepareToResend :: "RawTransaction \<Rightarrow> RawTransaction" where
  "PrepareToResend raw =
     raw\<lparr>ResendCount := ResendCount raw + 1, MinedTxHash := 0, LastSentBlockNumber := 0, ConfirmedIndex := 0,
         rt_Nonce := 0, MinedBlockNumber := 0, Reverted := False, PendingTxs := []\<rparr>"

definition Mined :: "RawTransaction \<Rightarrow> bool" where
  "Mined raw \<longleftrightarrow> MinedTxHash raw \<noteq> 0"

section \<open>Asking the root chain\<close>

text \<open>
  The answers of the node behind \<^verbatim>\<open>ethclient\<close>. A call can fail although a receipt was decoded, so a
  receipt and an error can come together. Submitting a transaction gives no error or an error
  message, and a wait ends with a new block or with the end of the process. Every call
  consumes one tick of a clock, and the answers may differ from tick to tick.
\<close>

record Receipt =
  Status :: u64
  BlockNumber :: int

datatype backendError = NotFound | RpcError

record Backend =
  rpc_receipt :: "nat \<Rightarrow> hash \<Rightarrow> Receipt option \<times> backendError option"
  rpc_transaction :: "nat \<Rightarrow> hash \<Rightarrow> bool \<times> backendError option"
  rpc_nonce :: "nat \<Rightarrow> address \<Rightarrow> u64 \<times> backendError option"
  rpc_send :: "nat \<Rightarrow> Transaction \<Rightarrow> string option"
  rpc_new_head :: "nat \<Rightarrow> bool"

definition TransactionReceipt :: "Backend \<Rightarrow> nat \<Rightarrow> hash \<Rightarrow> Receipt option \<times> backendError option" where
  "TransactionReceipt B t h =
     (case rpc_receipt B t h of (r, e) \<Rightarrow> if e = None \<and> r = None then (None, Some NotFound) else (r, e))"

text \<open>The loop of \<^verbatim>\<open>CheckMined\<close>: the answer for the first pending transaction with a receipt.\<close>

fun findReceipt :: "(bytes \<Rightarrow> hash) \<Rightarrow> Backend \<Rightarrow> nat \<Rightarrow> Transaction list \<Rightarrow>
    (backendError + (hash \<times> Receipt) option) \<times> nat" where
  "findReceipt keccak B t [] = (Inr None, t)"
| "findReceipt keccak B t (p # ps) =
     (case TransactionReceipt B t (tx_Hash keccak p) of
        (None, _) \<Rightarrow> findReceipt keccak B (t + 1) ps
      | (Some r, Some e) \<Rightarrow> (Inl e, t + 1)
      | (Some r, None) \<Rightarrow> (Inr (Some (tx_Hash keccak p, r)), t + 1))"

definition CheckMined :: "(bytes \<Rightarrow> hash) \<Rightarrow> Backend \<Rightarrow> nat \<Rightarrow> RawTransaction \<Rightarrow>
    (backendError + bool) \<times> RawTransaction \<times> nat" where
  "CheckMined keccak B t raw =
     (if MinedTxHash raw \<noteq> 0 then (Inr True, raw, t)
      else case findReceipt keccak B t (PendingTxs raw) of
             (Inl e, t1) \<Rightarrow> (Inl e, raw, t1)
           | (Inr None, t1) \<Rightarrow> (Inr False, raw, t1)
           | (Inr (Some (h, r)), t1) \<Rightarrow>
               (Inr True, raw\<lparr>Reverted := (Status r = 0), MinedBlockNumber := BlockNumber r, MinedTxHash := h,
                              PendingTxs := []\<rparr>, t1))"

definition Removed :: "Backend \<Rightarrow> nat \<Rightarrow> RawTransaction \<Rightarrow> backendError + bool" where
  "Removed B t raw =
     (case TransactionReceipt B t (MinedTxHash raw) of
        (r, Some NotFound) \<Rightarrow> Inr True
      | (r, Some e) \<Rightarrow> Inl e
      | (None, None) \<Rightarrow> Inr True
      | (Some r, None) \<Rightarrow> Inr False)"

definition Confirmation :: int where "Confirmation = 32"

definition Confirmed :: "Backend \<Rightarrow> nat \<Rightarrow> int \<Rightarrow> RawTransaction \<Rightarrow> bool \<times> RawTransaction \<times> nat" where
  "Confirmed B t current raw =
     (if MinedTxHash raw = 0 then (False, raw, t)
      else case TransactionReceipt B t (MinedTxHash raw) of
             (Some r, None) \<Rightarrow>
               (\<not> BlockNumber r + Confirmation > current, raw\<lparr>MinedBlockNumber := BlockNumber r\<rparr>, t + 1)
           | _ \<Rightarrow> (False, raw, t + 1))"

section \<open>The RLP form of raw transactions\<close>

text \<open>The two locks are not exported and therefore not encoded.\<close>

definition item_of_raw :: "RawTransaction \<Rightarrow> item" where
  "item_of_raw r =
     Lst [UInt (rt_Index r), UInt (ConfirmedIndex r), UInt (ResendCount r), UInt (LastSentBlockNumber r),
          BigInt (rt_Nonce r), Str (addr_bytes (rt_From r)), UInt (rt_GasLimit r), opt_addr (rt_Recipient r),
          BigInt (rt_Amount r), Str (rt_Payload r), Bool (AllowRevert r), Lst (map item_of_tx (PendingTxs r)),
          Str (hash_bytes (MinedTxHash r)), BigInt (MinedBlockNumber r), Bool (Reverted r), Str (Caption r)]"

definition raw_type :: GoType where
  "raw_type = TStruct [TUint 64, TUint 64, TUint 64, TUint 64, TBigInt, TArray 20, TUint 64, TArray 20,
     TBigInt, TBytes, TBool, TSlice tx_type, TArray 32, TBigInt, TBool, TBytes]"

definition raw_of_item :: "item \<Rightarrow> RawTransaction" where
  "raw_of_item x =
     (let xs = un_Lst x
      in \<lparr>rt_Index = un_UInt (xs ! 0), ConfirmedIndex = un_UInt (xs ! 1), ResendCount = un_UInt (xs ! 2),
          LastSentBlockNumber = un_UInt (xs ! 3), rt_Nonce = un_BigInt (xs ! 4),
          rt_From = bytes_to_address (un_Str (xs ! 5)), rt_GasLimit = un_UInt (xs ! 6),
          rt_Recipient = Some (bytes_to_address (un_Str (xs ! 7))), rt_Amount = un_BigInt (xs ! 8),
          rt_Payload = un_Str (xs ! 9), AllowRevert = un_Bool (xs ! 10),
          PendingTxs = map tx_of_item (un_Lst (xs ! 11)), MinedTxHash = bytes_to_hash (un_Str (xs ! 12)),
          MinedBlockNumber = un_BigInt (xs ! 13), Reverted = un_Bool (xs ! 14), Caption = un_Str (xs ! 15)\<rparr>)"

text \<open>The transactions and raw transactions whose RLP form can be read back.\<close>

definition tx_ok :: "Transaction \<Rightarrow> bool" where
  "tx_ok t \<longleftrightarrow> 0 \<le> Price t \<and> 0 \<le> tx_Amount t \<and> 0 \<le> tx_V t \<and> 0 \<le> tx_R t \<and> 0 \<le> tx_S t"

definition raw_ok :: "RawTransaction \<Rightarrow> bool" where
  "raw_ok r \<longleftrightarrow> 0 \<le> rt_Nonce r \<and> 0 \<le> rt_Amount r \<and> 0 \<le> MinedBlockNumber r \<and> rt_Recipient r \<noteq> None \<and>
     list_all tx_ok (PendingTxs r)"

lemma unat_u64_bytes [simp]: "unat (i :: u64) < 18446744073709551616"
  using unat_u64_less [of i] by simp

lemma opt_addr_bytes [simp]: "length (addr_bytes a) = 20" "addr_bytes a \<noteq> []" "length (hash_bytes h) = 32"
  by (simp_all add: addr_bytes_def hash_bytes_def) (metis length_be_bytes list.size(3) zero_neq_numeral)

lemma typed_tx: "tx_ok t \<Longrightarrow> typed tx_type (item_of_tx t)"
  by (auto simp: tx_type_def item_of_tx_def tx_ok_def opt_addr_def split: option.splits)

lemma typed_raw: "raw_ok r \<Longrightarrow> typed raw_type (item_of_raw r)"
  using typed_tx
  by (auto simp: raw_type_def item_of_raw_def raw_ok_def opt_addr_def list_all_iff split: option.splits)

lemma tx_of_item_of_tx [simp]: "tx_of_item (item_of_tx t) = t"
  by (cases "tx_Recipient t") (simp_all add: tx_of_item_def item_of_tx_def opt_addr_def)

lemma raw_of_item_of_raw: "raw_ok r \<Longrightarrow> raw_of_item (item_of_raw r) = r"
  by (auto simp: raw_of_item_def item_of_raw_def opt_addr_def raw_ok_def comp_def)

end
