(* ===== verification/Tx_Rawdb.thy ===== *)
theory Tx_Rawdb
  imports Tx_Types
begin

text \<open>
  The database of the transaction manager (\<^verbatim>\<open>src/tx/rawdb.go\<close>): keys, and the functions that store and
  load its records in RLP form. The key-value store is a map on byte strings. A failing
  encoder or decoder ends in \<^verbatim>\<open>log.Crit\<close>, which exits the process: \<open>None\<close> here.
\<close>

section \<open>Keys\<close>

definition encodeNumber :: "u64 \<Rightarrow> bytes" where
  "encodeNumber n = be_bytes 8 (unat n)"

definition gasPriceKey :: bytes where "gasPriceKey = str_bytes ''gas-price''"
definition numAddrKey :: bytes where "numAddrKey = str_bytes ''num-address''"

definition addrKey :: "u64 \<Rightarrow> bytes" where
  "addrKey i = str_bytes ''address'' @ encodeNumber i"

definition addrNonceKey :: "address \<Rightarrow> bytes" where
  "addrNonceKey addr = str_bytes ''address-nonce'' @ addr_bytes addr"

definition numRawTxsKey :: "address \<Rightarrow> bytes" where
  "numRawTxsKey addr = str_bytes ''num-address-raw-txs'' @ addr_bytes addr"

definition numConfirmedRawTxsKey :: "address \<Rightarrow> bytes" where
  "numConfirmedRawTxsKey addr = str_bytes ''num-confirmed-raw-txs'' @ addr_bytes addr"

definition confirmedTxKey :: "address \<Rightarrow> u64 \<Rightarrow> bytes" where
  "confirmedTxKey addr i = (str_bytes ''confirmed-raw-txs'' @ addr_bytes addr) @ encodeNumber i"

definition unconfirmedTxsKey :: "address \<Rightarrow> bytes" where
  "unconfirmedTxsKey addr = str_bytes ''unonfirmed-raw-txs'' @ addr_bytes addr"

definition pendingTxsKey :: "address \<Rightarrow> bytes" where
  "pendingTxsKey addr = str_bytes ''pending-raw-txs'' @ addr_bytes addr"

definition rawTxHashKey :: "address \<Rightarrow> hash \<Rightarrow> bytes" where
  "rawTxHashKey addr h = (str_bytes ''raw-tx-hash'' @ addr_bytes addr) @ hash_bytes h"

section \<open>Records\<close>

type_synonym db = "bytes \<rightharpoonup> bytes"

text \<open>Encode and put; get and decode, with a default for a missing or empty value.\<close>

definition db_write :: "bytes \<Rightarrow> item \<Rightarrow> db \<Rightarrow> db option" where
  "db_write key x db = (case EncodeToBytes x of None \<Rightarrow> None | Some data \<Rightarrow> Some (db(key \<mapsto> data)))"

definition db_get :: "bytes \<Rightarrow> db \<Rightarrow> bytes" where
  "db_get key db = (case db key of None \<Rightarrow> [] | Some data \<Rightarrow> data)"

definition db_decode :: "GoType \<Rightarrow> (item \<Rightarrow> 'a) \<Rightarrow> bytes \<Rightarrow> 'a option" where
  "db_decode t f data = (case DecodeBytes t data of Some (Inr x) \<Rightarrow> Some (f x) | _ \<Rightarrow> None)"

definition db_read :: "bytes \<Rightarrow> GoType \<Rightarrow> 'a \<Rightarrow> (item \<Rightarrow> 'a) \<Rightarrow> db \<Rightarrow> 'a option" where
  "db_read key t dflt f db = (let data = db_get key db in if length data = 0 then Some dflt else db_decode t f data)"

definition GWei :: int where "GWei = 1000000000"

definition ReadGasPrice :: "db \<Rightarrow> int option" where
  "ReadGasPrice = db_read gasPriceKey TBigInt (10 * GWei) un_BigInt"

definition WriteGasPrice :: "int \<Rightarrow> db \<Rightarrow> db option" where
  "WriteGasPrice gasPrice = db_write gasPriceKey (BigInt gasPrice)"

definition ReadNumAddr :: "db \<Rightarrow> u64 option" where
  "ReadNumAddr = db_read numAddrKey (TUint 64) 0 un_UInt"

definition WriteNumAddr :: "u64 \<Rightarrow> db \<Rightarrow> db option" where
  "WriteNumAddr n = db_write numAddrKey (UInt n)"

definition ReadAddr :: "u64 \<Rightarrow> db \<Rightarrow> address option" where
  "ReadAddr i = db_read (addrKey i) (TArray 20) 0 (\<lambda>x. bytes_to_address (un_Str x))"

definition WriteAddr :: "u64 \<Rightarrow> address \<Rightarrow> db \<Rightarrow> db option" where
  "WriteAddr i addr = db_write (addrKey i) (Str (addr_bytes addr))"

definition ReadAddrNonce :: "address \<Rightarrow> db \<Rightarrow> u64 option" where
  "ReadAddrNonce addr = db_read (addrNonceKey addr) (TUint 64) 0 un_UInt"

definition WriteAddrNonce :: "address \<Rightarrow> u64 \<Rightarrow> db \<Rightarrow> db option" where
  "WriteAddrNonce addr nonce = db_write (addrNonceKey addr) (UInt nonce)"

definition ReadNumRawTxs :: "address \<Rightarrow> db \<Rightarrow> u64 option" where
  "ReadNumRawTxs addr = db_read (numRawTxsKey addr) (TUint 64) 0 un_UInt"

definition WriteNumRawTxs :: "address \<Rightarrow> u64 \<Rightarrow> db \<Rightarrow> db option" where
  "WriteNumRawTxs addr n = db_write (numRawTxsKey addr) (UInt n)"

definition ReadNumConfirmedRawTxs :: "address \<Rightarrow> db \<Rightarrow> u64 option" where
  "ReadNumConfirmedRawTxs addr = db_read (numConfirmedRawTxsKey addr) (TUint 64) 0 un_UInt"

definition WriteNumConfirmedRawTxs :: "address \<Rightarrow> u64 \<Rightarrow> db \<Rightarrow> db option" where
  "WriteNumConfirmedRawTxs addr n = db_write (numConfirmedRawTxsKey addr) (UInt n)"

text \<open>There is no default here: a missing confirmed transaction is fatal.\<close>

definition ReadConfirmedTx :: "address \<Rightarrow> u64 \<Rightarrow> db \<Rightarrow> RawTransaction option" where
  "ReadConfirmedTx addr i db =
     (let data = db_get (confirmedTxKey addr i) db
      in if length data = 0 then None else db_decode raw_type raw_of_item data)"

definition WriteConfirmedTx :: "address \<Rightarrow> u64 \<Rightarrow> RawTransaction \<Rightarrow> db \<Rightarrow> db option" where
  "WriteConfirmedTx addr i raw = db_write (confirmedTxKey addr i) (item_of_raw raw)"

definition item_of_raws :: "RawTransaction list \<Rightarrow> item" where
  "item_of_raws txs = Lst (map item_of_raw txs)"

definition raws_of_item :: "item \<Rightarrow> RawTransaction list" where
  "raws_of_item x = map raw_of_item (un_Lst x)"

definition ReadUnconfirmedTxs :: "address \<Rightarrow> db \<Rightarrow> RawTransaction list option" where
  "ReadUnconfirmedTxs addr = db_read (unconfirmedTxsKey addr) (TSlice raw_type) [] raws_of_item"

definition WriteUnconfirmedTxs :: "address \<Rightarrow> RawTransaction list \<Rightarrow> db \<Rightarrow> db option" where
  "WriteUnconfirmedTxs addr txs = db_write (unconfirmedTxsKey addr) (item_of_raws txs)"

definition ReadPendingTxs :: "address \<Rightarrow> db \<Rightarrow> RawTransaction list option" where
  "ReadPendingTxs addr = db_read (pendingTxsKey addr) (TSlice raw_type) [] raws_of_item"

definition WritePendingTxs :: "address \<Rightarrow> RawTransaction list \<Rightarrow> db \<Rightarrow> db option" where
  "WritePendingTxs addr txs = db_write (pendingTxsKey addr) (item_of_raws txs)"

text \<open>The record of a raw transaction hash: absent, or the raw transaction as it was first added.\<close>

definition ReadRawTxHash :: "address \<Rightarrow> hash \<Rightarrow> db \<Rightarrow> RawTransaction option option" where
  "ReadRawTxHash addr h = db_read (rawTxHashKey addr h) raw_type None (\<lambda>x. Some (raw_of_item x))"

definition WriteRawTxHash :: "(bytes \<Rightarrow> hash) \<Rightarrow> address \<Rightarrow> RawTransaction \<Rightarrow> db \<Rightarrow> db option" where
  "WriteRawTxHash keccak addr raw db =
     (case raw_Hash keccak raw of
        None \<Rightarrow> None
      | Some h \<Rightarrow> db_write (rawTxHashKey addr h) (item_of_raw raw) db)"

section \<open>Keys do not collide\<close>

datatype dbKey =
    KGasPrice | KNumAddr | KAddr u64 | KAddrNonce address | KNumRawTxs address | KNumConfirmed address
  | KConfirmed address u64 | KUnconfirmed address | KPending address | KRawHash address hash

fun key_bytes :: "dbKey \<Rightarrow> bytes" where
  "key_bytes KGasPrice = gasPriceKey"
| "key_bytes KNumAddr = numAddrKey"
| "key_bytes (KAddr i) = addrKey i"
| "key_bytes (KAddrNonce a) = addrNonceKey a"
| "key_bytes (KNumRawTxs a) = numRawTxsKey a"
| "key_bytes (KNumConfirmed a) = numConfirmedRawTxsKey a"
| "key_bytes (KConfirmed a i) = confirmedTxKey a i"
| "key_bytes (KUnconfirmed a) = unconfirmedTxsKey a"
| "key_bytes (KPending a) = pendingTxsKey a"
| "key_bytes (KRawHash a h) = rawTxHashKey a h"

lemmas key_defs = gasPriceKey_def numAddrKey_def addrKey_def addrNonceKey_def numRawTxsKey_def
  numConfirmedRawTxsKey_def confirmedTxKey_def unconfirmedTxsKey_def pendingTxsKey_def rawTxHashKey_def

lemma encodeNumber_inject [simp]: "encodeNumber i = encodeNumber j \<longleftrightarrow> i = j"
  unfolding encodeNumber_def by (metis be_bytes_inject unat_u64_less word_unat_eq_iff)

lemma length_encodeNumber [simp]: "length (encodeNumber i) = 8"
  by (simp add: encodeNumber_def)

fun key_length :: "dbKey \<Rightarrow> nat" where
  "key_length KGasPrice = 9" | "key_length KNumAddr = 11" | "key_length (KAddr i) = 15"
| "key_length (KAddrNonce a) = 33" | "key_length (KNumRawTxs a) = 39" | "key_length (KNumConfirmed a) = 41"
| "key_length (KConfirmed a i) = 45" | "key_length (KUnconfirmed a) = 38" | "key_length (KPending a) = 35"
| "key_length (KRawHash a h) = 63"

lemma length_key_bytes: "length (key_bytes k) = key_length k"
  by (cases k) (simp_all add: key_defs)

lemma key_bytes_inject: "key_bytes k = key_bytes k' \<longleftrightarrow> k = k'"
proof
  assume eq: "key_bytes k = key_bytes k'"
  then have "key_length k = key_length k'" by (metis length_key_bytes)
  then show "k = k'" using eq by (cases k; cases k') (simp_all add: key_defs)
qed simp

section \<open>Reading what was written\<close>

definition small :: "item \<Rightarrow> bool" where
  "small x \<longleftrightarrow> length (enc x) < 2 ^ 63"

text \<open>
  The interface between the records and RLP: a Go type, the values it holds, and the two
  conversions. Every record type of the database provides it.
\<close>

lemma db_write_encoded: "db_write key x db = Some db' \<longleftrightarrow> encodable x \<and> small x \<and> db' = db(key \<mapsto> enc x)"
  by (auto simp: db_write_def EncodeToBytes_enc small_def)

locale codec =
  fixes gotype :: GoType and to_item :: "'v \<Rightarrow> item" and of_item :: "item \<Rightarrow> 'v" and ok :: "'v \<Rightarrow> bool"
  assumes typed_to_item: "ok v \<Longrightarrow> typed gotype (to_item v)"
    and of_to_item: "ok v \<Longrightarrow> of_item (to_item v) = v"
begin

lemma write_defined: "ok v \<Longrightarrow> small (to_item v) \<Longrightarrow> \<exists>d. db_write key (to_item v) db = Some d"
  using encodable_typed(1) [OF typed_to_item] by (simp add: db_write_encoded)

lemma decode_written:
  assumes "db_write key (to_item v) db = Some db'" and "ok v"
  shows "db_get key db' \<noteq> []" and "db_decode gotype of_item (db_get key db') = Some v"
proof -
  have d: "db' = db(key \<mapsto> enc (to_item v))" and s: "small (to_item v)" using assms(1) by (auto simp: db_write_encoded)
  then show "db_get key db' \<noteq> []" by (simp add: db_get_def enc_nonempty)
  have "DecodeBytes gotype (enc (to_item v)) = Some (Inr (to_item v))"
    using DecodeBytes_enc [OF typed_to_item [OF assms(2)]] s by (simp add: small_def)
  then show "db_decode gotype of_item (db_get key db') = Some v"
    using of_to_item [OF assms(2)] by (simp add: db_decode_def db_get_def d)
qed

lemma read_written:
  assumes "db_write key (to_item v) db = Some db'" and "ok v"
  shows "db_read key gotype dflt of_item db' = Some v"
  using decode_written [OF assms] by (simp add: db_read_def)

end

interpretation u64_codec: codec "TUint 64" UInt un_UInt "\<lambda>_. True"
  by unfold_locales simp_all

interpretation big_codec: codec TBigInt BigInt un_BigInt "\<lambda>i. 0 \<le> i"
  by unfold_locales simp_all

interpretation addr_codec: codec "TArray 20" "\<lambda>a. Str (addr_bytes a)" "\<lambda>x. bytes_to_address (un_Str x)" "\<lambda>_. True"
  by unfold_locales simp_all

interpretation raw_codec: codec raw_type item_of_raw raw_of_item raw_ok
  by unfold_locales (simp_all add: typed_raw raw_of_item_of_raw)

interpretation raws_codec: codec "TSlice raw_type" item_of_raws raws_of_item "list_all raw_ok"
  by unfold_locales
    (auto simp: item_of_raws_def raws_of_item_def list_all_iff typed_raw raw_of_item_of_raw comp_def intro: map_idI)

text \<open>A write touches one key only.\<close>

lemma db_write_other: "db_write key x db = Some db' \<Longrightarrow> key' \<noteq> key \<Longrightarrow> db' key' = db key'"
  by (auto simp: db_write_def split: option.splits)

lemma small_u64 [simp]: "small (UInt i)"
proof -
  have "length (enc (UInt i)) \<le> 17" using length_big_Bytes_u64 [of i] length_putint [of "length (big_Bytes (unat i))"]
    by (auto simp: str_enc_def puthead_def Let_def)
  then show ?thesis by (simp add: small_def)
qed

lemma small_addr [simp]: "small (Str (addr_bytes a))"
  by (simp add: small_def str_enc_def puthead_def)

section \<open>Properties\<close>

text \<open>
  C23. The queue that WritePendingTxs stores is the queue ReadPendingTxs loads, and no other record
  of the database changes: the keys of different records never collide.
\<close>

theorem WritePendingTxs_ReadPendingTxs:
  assumes "WritePendingTxs addr txs db = Some db'" and "list_all raw_ok txs"
  shows "ReadPendingTxs addr db' = Some txs \<and> (\<forall>k. k \<noteq> KPending addr \<longrightarrow> db' (key_bytes k) = db (key_bytes k))"
proof (intro conjI allI impI)
  show "ReadPendingTxs addr db' = Some txs"
    using assms unfolding WritePendingTxs_def ReadPendingTxs_def by (rule raws_codec.read_written)
  show "db' (key_bytes k) = db (key_bytes k)" if "k \<noteq> KPending addr" for k
    using db_write_other [OF assms(1) [unfolded WritePendingTxs_def]] that key_bytes_inject [of k "KPending addr"]
    by simp
qed

definition raw0 :: RawTransaction where
  "raw0 = NewRawTransaction 7 100000 (Some 9) 5 [1, 2, 3] False [0x62]"

lemma raw0_ok: "raw_ok raw0" and raw0_small: "small (item_of_raws [raw0])"
  by (simp_all add: raw_ok_def raw0_def NewRawTransaction_def small_def item_of_raws_def item_of_raw_def opt_addr_def
      list_enc_def str_enc_def puthead_def putint_def big_Bytes.simps)

theorem WritePendingTxs_ReadPendingTxs_witness:
  "\<exists>db'. WritePendingTxs 7 [raw0] Map.empty = Some db' \<and> ReadPendingTxs 7 db' = Some [raw0] \<and>
         db' (key_bytes KGasPrice) = None"
proof -
  obtain db' where "WritePendingTxs 7 [raw0] Map.empty = Some db'"
    using raws_codec.write_defined [of "[raw0]"] raw0_ok raw0_small by (auto simp: WritePendingTxs_def)
  then show ?thesis
    using WritePendingTxs_ReadPendingTxs [of 7 "[raw0]" Map.empty db'] raw0_ok by auto
qed

end
