(* ===== verification/Tx_Manager.thy ===== *)
theory Tx_Manager
  imports Tx_Rawdb "HOL-Library.Monad_Syntax"
begin

text \<open>
  The manager of root chain transactions (\<^verbatim>\<open>src/tx/manager.go\<close>): accepting raw transactions, moving them
  from pending to unconfirmed when they are mined and on to confirmed, back to pending when a
  reorganisation drops them, the gas price, and the reload from the database. An operation
  that ends in \<^verbatim>\<open>log.Crit\<close> or a panic is \<open>None\<close>. Locks, logging and the inspection time are left out.
\<close>

record TxConfig =
  cfg_GasPrice :: int
  MinGasPrice :: int
  MaxGasPrice :: int
  cfg_ChainId :: "int option"

definition DefaultGasPrice :: int where "DefaultGasPrice = 10 * GWei"

record TransactionManager =
  tm_config :: TxConfig
  tm_db :: db
  currentBlockNumber :: int
  tm_gasPrice :: int
  addresses :: "address list"
  confirmed :: "address \<Rightarrow> RawTransaction list"
  unconfirmed :: "address \<Rightarrow> RawTransaction list"
  pending :: "address \<Rightarrow> RawTransaction list"
  tm_nonce :: "address \<rightharpoonup> u64"
  numKnownErr :: "hash \<Rightarrow> u64"
  tm_clock :: nat

datatype txError = ErrUnknownAccount | ErrDuplicateRaw | ErrNoDuplicateRaw
  | ErrGasPriceRange | ErrNumAddr | ErrNumConfirmed | ErrNonce backendError

definition nonce_of_account :: "address \<Rightarrow> TransactionManager \<Rightarrow> u64" where
  "nonce_of_account addr tm = (case tm_nonce tm addr of None \<Rightarrow> 0 | Some n \<Rightarrow> n)"

section \<open>Adding raw transactions\<close>

fun indexOf_from :: "int \<Rightarrow> address list \<Rightarrow> address \<Rightarrow> int" where
  "indexOf_from i [] addr = -1"
| "indexOf_from i (a # as) addr = (if a = addr then i else indexOf_from (i + 1) as addr)"

definition indexOf :: "address \<Rightarrow> TransactionManager \<Rightarrow> int" where
  "indexOf addr tm = indexOf_from 0 (addresses tm) addr"

text \<open>The first raw transaction of an account registers the account.\<close>

definition register :: "address \<Rightarrow> TransactionManager \<Rightarrow> TransactionManager option" where
  "register addr tm =
     (if indexOf addr tm < 0
      then do {
        let n = length (addresses tm);
        db1 \<leftarrow> WriteNumAddr (of_nat (n + 1)) (tm_db tm);
        db2 \<leftarrow> WriteAddr (of_nat n) addr db1;
        Some (tm\<lparr>addresses := addresses tm @ [addr], tm_db := db2,
                 confirmed := (confirmed tm)(addr := []),
                 unconfirmed := (unconfirmed tm)(addr := []),
                 pending := (pending tm)(addr := [])\<rparr>)
      }
      else Some tm)"

text \<open>Index and nonce are assigned, and the raw transaction is queued.\<close>

definition enqueue :: "address \<Rightarrow> RawTransaction \<Rightarrow> TransactionManager \<Rightarrow> TransactionManager option" where
  "enqueue addr raw tm =
     do {
       i \<leftarrow> ReadNumRawTxs addr (tm_db tm);
       db1 \<leftarrow> WriteNumRawTxs addr (i + 1) (tm_db tm);
       let nonce = nonce_of_account addr tm;
       let raw1 = raw\<lparr>rt_Index := i, rt_Nonce := sint nonce\<rparr>;
       db2 \<leftarrow> WriteAddrNonce addr (nonce + 1) db1;
       let q = pending tm addr @ [raw1];
       db3 \<leftarrow> WritePendingTxs addr q db2;
       Some (tm\<lparr>tm_nonce := (tm_nonce tm)(addr \<mapsto> nonce + 1), pending := (pending tm)(addr := q), tm_db := db3\<rparr>)
     }"

definition Add :: "(bytes \<Rightarrow> hash) \<Rightarrow> (address \<Rightarrow> bool) \<Rightarrow> address \<Rightarrow> RawTransaction \<Rightarrow> bool \<Rightarrow> TransactionManager \<Rightarrow>
    (txError option \<times> TransactionManager) option" where
  "Add keccak HasAddress addr raw duplicate tm =
     (if \<not> HasAddress addr then Some (Some ErrUnknownAccount, tm)
      else do {
        tm1 \<leftarrow> register addr tm;
        h \<leftarrow> raw_Hash keccak raw;
        previous \<leftarrow> ReadRawTxHash addr h (tm_db tm1);
        if \<not> duplicate then
          (if previous \<noteq> None then Some (Some ErrDuplicateRaw, tm1)
           else do {
             db \<leftarrow> WriteRawTxHash keccak addr raw (tm_db tm1);
             tm2 \<leftarrow> enqueue addr raw (tm1\<lparr>tm_db := db\<rparr>);
             Some (None, tm2)
           })
        else if previous = None then Some (Some ErrNoDuplicateRaw, tm1)
        else do { tm2 \<leftarrow> enqueue addr raw tm1; Some (None, tm2) }
      })"

fun count_hash :: "(bytes \<Rightarrow> hash) \<Rightarrow> hash \<Rightarrow> RawTransaction list \<Rightarrow> u64 \<Rightarrow> u64 option" where
  "count_hash keccak h [] acc = Some acc"
| "count_hash keccak h (q # qs) acc =
     do { hq \<leftarrow> raw_Hash keccak q; count_hash keccak h qs (if hq = h then acc + 1 else acc) }"

definition Count :: "(bytes \<Rightarrow> hash) \<Rightarrow> address \<Rightarrow> Transaction \<Rightarrow> TransactionManager \<Rightarrow> u64 option" where
  "Count keccak addr t tm =
     (if confirmed tm addr = [] then Some 0 else count_hash keccak (tx_Hash keccak t) (confirmed tm addr) 0)"

section \<open>The gas price\<close>

definition clamp :: "TxConfig \<Rightarrow> int \<Rightarrow> int" where
  "clamp c g = (let g1 = (if g < MinGasPrice c then MinGasPrice c else g)
               in if g1 > MaxGasPrice c then MaxGasPrice c else g1)"

text \<open>
  The price of the last transaction is only logged; the new price starts from the manager's
  own one. A mined raw transaction whose transaction the node does not know changes nothing.
\<close>

definition setGasPrice :: "bool \<Rightarrow> TransactionManager \<Rightarrow> TransactionManager option" where
  "setGasPrice decrease tm =
     do {
       let g = clamp (tm_config tm) ((tm_gasPrice tm div 10) * (if decrease then 4 else 12));
       db \<leftarrow> WriteGasPrice g (tm_db tm);
       Some (tm\<lparr>tm_gasPrice := g, tm_db := db\<rparr>)
     }"

definition adjustGasPrice :: "Backend \<Rightarrow> RawTransaction \<Rightarrow> bool \<Rightarrow> TransactionManager \<Rightarrow> TransactionManager option" where
  "adjustGasPrice B raw decrease tm =
     (if MinedTxHash raw \<noteq> 0
      then let (isPending, err) = rpc_transaction B (tm_clock tm) (MinedTxHash raw);
               tm1 = tm\<lparr>tm_clock := tm_clock tm + 1\<rparr>
           in if isPending \<or> err \<noteq> None then Some tm1 else setGasPrice decrease tm1
      else setGasPrice decrease tm)"

section \<open>Mined transactions leave the pending queue\<close>

fun checkLoop :: "(bytes \<Rightarrow> hash) \<Rightarrow> Backend \<Rightarrow> RawTransaction list \<Rightarrow> TransactionManager \<Rightarrow>
    (RawTransaction list \<times> TransactionManager) option" where
  "checkLoop keccak B [] tm = Some ([], tm)"
| "checkLoop keccak B (raw # raws) tm =
     (case CheckMined keccak B (tm_clock tm) raw of
        (Inr True, raw1, t) \<Rightarrow>
          do {
            tm1 \<leftarrow> adjustGasPrice B raw1 True (tm\<lparr>tm_clock := t\<rparr>);
            (rest, tm2) \<leftarrow> checkLoop keccak B raws tm1;
            Some (raw1 # rest, tm2)
          }
      | (r, raw1, t) \<Rightarrow> Some (raw1 # raws, tm\<lparr>tm_clock := t\<rparr>))"

definition clearQueue :: "(bytes \<Rightarrow> hash) \<Rightarrow> Backend \<Rightarrow> address \<Rightarrow> TransactionManager \<Rightarrow> TransactionManager option" where
  "clearQueue keccak B addr tm =
     (if pending tm addr = [] then Some tm
      else do {
        (q, tm1) \<leftarrow> checkLoop keccak B (pending tm addr) tm;
        let minedRaws = takeWhile Mined q;
        let l = length minedRaws;
        let tm2 = tm1\<lparr>pending := (pending tm1)(addr := q)\<rparr>;
        if l = 0 then Some tm2
        else do {
          let u = unconfirmed tm2 addr @ minedRaws;
          db1 \<leftarrow> WritePendingTxs addr (drop l q) (tm_db tm2);
          db2 \<leftarrow> WriteUnconfirmedTxs addr u db1;
          Some (tm2\<lparr>unconfirmed := (unconfirmed tm2)(addr := u), pending := (pending tm2)(addr := drop l q),
                    tm_db := db2\<rparr>)
        }
      })"

section \<open>Removed and confirmed transactions leave the unconfirmed queue\<close>

text \<open>
  The first loop sorts the unconfirmed transactions into those to be sent again and those to
  be kept, up to the first error of the node; it also counts them.
\<close>

fun removedLoop :: "Backend \<Rightarrow> nat \<Rightarrow> RawTransaction list \<Rightarrow>
    RawTransaction list \<times> RawTransaction list \<times> nat \<times> nat" where
  "removedLoop B t [] = ([], [], 0, t)"
| "removedLoop B t (raw # raws) =
     (case Removed B t raw of
        Inl e \<Rightarrow> ([], [], 0, t + 1)
      | Inr removed \<Rightarrow>
          let (resend, keep, n, t1) = removedLoop B (t + 1) raws
          in if removed then (PrepareToResend raw # resend, keep, n + 1, t1)
             else (resend, raw # keep, n + 1, t1))"

definition resendRemoved :: "Backend \<Rightarrow> address \<Rightarrow> TransactionManager \<Rightarrow> TransactionManager option" where
  "resendRemoved B addr tm =
     (let (resend, keep, n, t) = removedLoop B (tm_clock tm) (unconfirmed tm addr);
          tm1 = tm\<lparr>tm_clock := t\<rparr>
      in if n = 0 then Some tm1
         else do {
           let q = sort_key rt_Index (pending tm1 addr @ resend);
           db1 \<leftarrow> WriteUnconfirmedTxs addr keep (tm_db tm1);
           db2 \<leftarrow> WritePendingTxs addr q db1;
           Some (tm1\<lparr>unconfirmed := (unconfirmed tm1)(addr := keep), pending := (pending tm1)(addr := q),
                     tm_db := db2\<rparr>)
         })"

fun confirmedLoop :: "Backend \<Rightarrow> int \<Rightarrow> address \<Rightarrow> u64 \<Rightarrow> RawTransaction list \<Rightarrow> db \<Rightarrow> nat \<Rightarrow>
    (RawTransaction list \<times> RawTransaction list \<times> u64 \<times> db \<times> nat) option" where
  "confirmedLoop B current addr num [] db t = Some ([], [], num, db, t)"
| "confirmedLoop B current addr num (raw # raws) db t =
     (case Confirmed B t current raw of
        (False, raw1, t1) \<Rightarrow> Some ([], raw1 # raws, num, db, t1)
      | (True, raw1, t1) \<Rightarrow>
          do {
            let raw2 = raw1\<lparr>ConfirmedIndex := num\<rparr>;
            db1 \<leftarrow> WriteConfirmedTx addr num raw2 db;
            (cs, rest, num2, db2, t2) \<leftarrow> confirmedLoop B current addr (num + 1) raws db1 t1;
            Some (raw2 # cs, rest, num2, db2, t2)
          })"

definition moveConfirmed :: "Backend \<Rightarrow> address \<Rightarrow> TransactionManager \<Rightarrow> TransactionManager option" where
  "moveConfirmed B addr tm =
     do {
       num \<leftarrow> ReadNumConfirmedRawTxs addr (tm_db tm);
       (cs, rest, num1, db1, t) \<leftarrow>
         confirmedLoop B (currentBlockNumber tm) addr num (unconfirmed tm addr) (tm_db tm) (tm_clock tm);
       let tm1 = tm\<lparr>tm_clock := t, tm_db := db1, confirmed := (confirmed tm)(addr := confirmed tm addr @ cs),
                    unconfirmed := (unconfirmed tm)(addr := rest)\<rparr>;
       if cs = [] then Some tm1
       else do {
         db2 \<leftarrow> WriteNumConfirmedRawTxs addr num1 db1;
         db3 \<leftarrow> WriteUnconfirmedTxs addr rest db2;
         Some (tm1\<lparr>tm_db := db3\<rparr>)
       }
     }"

definition confirmQueue :: "Backend \<Rightarrow> address \<Rightarrow> TransactionManager \<Rightarrow> TransactionManager option" where
  "confirmQueue B addr tm =
     (if unconfirmed tm addr = [] then Some tm
      else do { tm1 \<leftarrow> resendRemoved B addr tm; moveConfirmed B addr tm1 })"

section \<open>Loading from the database\<close>

fun readConfirmedTxs :: "address \<Rightarrow> nat \<Rightarrow> nat \<Rightarrow> db \<Rightarrow> RawTransaction list option" where
  "readConfirmedTxs addr j 0 db = Some []"
| "readConfirmedTxs addr j (Suc n) db =
     do {
       raw \<leftarrow> ReadConfirmedTx addr (of_nat j) db;
       raws \<leftarrow> readConfirmedTxs addr (j + 1) n db;
       Some (raw # raws)
     }"

definition loadAccount :: "Backend \<Rightarrow> address \<Rightarrow> TransactionManager \<Rightarrow> (txError + TransactionManager) option" where
  "loadAccount B addr tm =
     (if tm_nonce tm addr \<noteq> None then Some (Inr (tm\<lparr>addresses := addresses tm @ [addr]\<rparr>))
      else do {
        num \<leftarrow> ReadNumConfirmedRawTxs addr (tm_db tm);
        if num = -1 then Some (Inl ErrNumConfirmed)
        else do {
          cs \<leftarrow> readConfirmedTxs addr 0 (unat num) (tm_db tm);
          us \<leftarrow> ReadUnconfirmedTxs addr (tm_db tm);
          ps \<leftarrow> ReadPendingTxs addr (tm_db tm);
          nonce \<leftarrow> ReadAddrNonce addr (tm_db tm);
          let tm1 = tm\<lparr>addresses := addresses tm @ [addr], confirmed := (confirmed tm)(addr := cs),
                       unconfirmed := (unconfirmed tm)(addr := us), pending := (pending tm)(addr := ps),
                       tm_nonce := (tm_nonce tm)(addr \<mapsto> nonce)\<rparr>;
          if nonce \<noteq> 0 then Some (Inr tm1)
          else (case rpc_nonce B (tm_clock tm1) addr of
                  (n, Some e) \<Rightarrow> Some (Inl (ErrNonce e))
                | (n, None) \<Rightarrow>
                    do {
                      db \<leftarrow> WriteAddrNonce addr n (tm_db tm1);
                      Some (Inr (tm1\<lparr>tm_nonce := (tm_nonce tm1)(addr \<mapsto> n), tm_db := db,
                                     tm_clock := tm_clock tm1 + 1\<rparr>))
                    })
        }
      })"

fun loadAccounts :: "Backend \<Rightarrow> nat \<Rightarrow> nat \<Rightarrow> TransactionManager \<Rightarrow> (txError + TransactionManager) option" where
  "loadAccounts B i 0 tm = Some (Inr tm)"
| "loadAccounts B i (Suc n) tm =
     do {
       addr \<leftarrow> ReadAddr (of_nat i) (tm_db tm);
       r \<leftarrow> loadAccount B addr tm;
       (case r of Inl e \<Rightarrow> Some (Inl e) | Inr tm1 \<Rightarrow> loadAccounts B (i + 1) n tm1)
     }"

definition NewTransactionManager :: "Backend \<Rightarrow> TxConfig \<Rightarrow> nat \<Rightarrow> db \<Rightarrow> (txError + TransactionManager) option" where
  "NewTransactionManager B config t db =
     do {
       gasPrice \<leftarrow> ReadGasPrice db;
       if MinGasPrice config > MaxGasPrice config then Some (Inl ErrGasPriceRange)
       else do {
         let g = clamp config (if cfg_GasPrice config = 0 then DefaultGasPrice else gasPrice);
         numAddrs \<leftarrow> ReadNumAddr db;
         if numAddrs = -1 then Some (Inl ErrNumAddr)
         else loadAccounts B 0 (unat numAddrs)
                \<lparr>tm_config = config, tm_db = db, currentBlockNumber = 0, tm_gasPrice = g, addresses = [],
                 confirmed = (\<lambda>_. []), unconfirmed = (\<lambda>_. []), pending = (\<lambda>_. []), tm_nonce = Map.empty,
                 numKnownErr = (\<lambda>_. 0), tm_clock = t\<rparr>
       }
     }"

end
