(* ===== verification/Tx_Manager_Queues.thy ===== *)
theory Tx_Manager_Queues
  imports Tx_Manager
begin

text \<open>
  What the operations of the transaction manager do to its queues: no raw transaction is
  lost or duplicated, except when the node fails in the middle of the check for removed
  transactions; the database follows the queues.
\<close>

section \<open>Which records a write changes\<close>

definition agree :: "dbKey set \<Rightarrow> db \<Rightarrow> db \<Rightarrow> bool" where
  "agree ks db db' \<longleftrightarrow> (\<forall>k. k \<notin> ks \<longrightarrow> db' (key_bytes k) = db (key_bytes k))"

lemma agree_refl [simp, intro]: "agree ks db db"
  by (simp add: agree_def)

lemma agree_trans: "agree ks db db1 \<Longrightarrow> agree ks' db1 db2 \<Longrightarrow> agree (ks \<union> ks') db db2"
  by (simp add: agree_def)

lemma agree_mono: "agree ks db db' \<Longrightarrow> ks \<subseteq> ks' \<Longrightarrow> agree ks' db db'"
  by (auto simp: agree_def)

lemma db_write_agree: "db_write (key_bytes k) x db = Some db' \<Longrightarrow> agree {k} db db'"
  using db_write_other by (fastforce simp: agree_def key_bytes_inject)

lemmas write_defs = WriteGasPrice_def WriteNumAddr_def WriteAddr_def WriteAddrNonce_def WriteNumRawTxs_def
  WriteNumConfirmedRawTxs_def WriteConfirmedTx_def WriteUnconfirmedTxs_def WritePendingTxs_def

lemmas read_defs = ReadGasPrice_def ReadNumAddr_def ReadAddr_def ReadAddrNonce_def ReadNumRawTxs_def
  ReadNumConfirmedRawTxs_def ReadConfirmedTx_def ReadUnconfirmedTxs_def ReadPendingTxs_def ReadRawTxHash_def

lemma write_agree:
  "WriteGasPrice g db = Some db' \<Longrightarrow> agree {KGasPrice} db db'"
  "WriteNumAddr n db = Some db' \<Longrightarrow> agree {KNumAddr} db db'"
  "WriteAddr i a db = Some db' \<Longrightarrow> agree {KAddr i} db db'"
  "WriteAddrNonce a n db = Some db' \<Longrightarrow> agree {KAddrNonce a} db db'"
  "WriteNumRawTxs a n db = Some db' \<Longrightarrow> agree {KNumRawTxs a} db db'"
  "WriteNumConfirmedRawTxs a n db = Some db' \<Longrightarrow> agree {KNumConfirmed a} db db'"
  "WriteConfirmedTx a i raw db = Some db' \<Longrightarrow> agree {KConfirmed a i} db db'"
  "WriteUnconfirmedTxs a raws db = Some db' \<Longrightarrow> agree {KUnconfirmed a} db db'"
  "WritePendingTxs a raws db = Some db' \<Longrightarrow> agree {KPending a} db db'"
  using db_write_agree [of KGasPrice] db_write_agree [of KNumAddr] db_write_agree [of "KAddr i"]
    db_write_agree [of "KAddrNonce a"] db_write_agree [of "KNumRawTxs a"] db_write_agree [of "KNumConfirmed a"]
    db_write_agree [of "KConfirmed a i"] db_write_agree [of "KUnconfirmed a"] db_write_agree [of "KPending a"]
  by (simp_all add: write_defs)

lemma WriteRawTxHash_agree:
  assumes "WriteRawTxHash keccak a raw db = Some db'"
  shows "agree (range (KRawHash a)) db db'"
proof -
  obtain h where "db_write (key_bytes (KRawHash a h)) (item_of_raw raw) db = Some db'"
    using assms by (auto simp: WriteRawTxHash_def split: option.splits)
  from db_write_agree [OF this] show ?thesis by (rule agree_mono) auto
qed

lemma db_get_agree: "agree ks db db' \<Longrightarrow> k \<notin> ks \<Longrightarrow> db_get (key_bytes k) db' = db_get (key_bytes k) db"
  by (simp add: agree_def db_get_def)

lemma read_agree:
  assumes "agree ks db db'"
  shows "KGasPrice \<notin> ks \<Longrightarrow> ReadGasPrice db' = ReadGasPrice db"
    "KNumAddr \<notin> ks \<Longrightarrow> ReadNumAddr db' = ReadNumAddr db"
    "KAddr i \<notin> ks \<Longrightarrow> ReadAddr i db' = ReadAddr i db"
    "KAddrNonce a \<notin> ks \<Longrightarrow> ReadAddrNonce a db' = ReadAddrNonce a db"
    "KNumRawTxs a \<notin> ks \<Longrightarrow> ReadNumRawTxs a db' = ReadNumRawTxs a db"
    "KNumConfirmed a \<notin> ks \<Longrightarrow> ReadNumConfirmedRawTxs a db' = ReadNumConfirmedRawTxs a db"
    "KConfirmed a i \<notin> ks \<Longrightarrow> ReadConfirmedTx a i db' = ReadConfirmedTx a i db"
    "KUnconfirmed a \<notin> ks \<Longrightarrow> ReadUnconfirmedTxs a db' = ReadUnconfirmedTxs a db"
    "KPending a \<notin> ks \<Longrightarrow> ReadPendingTxs a db' = ReadPendingTxs a db"
    "KRawHash a h \<notin> ks \<Longrightarrow> ReadRawTxHash a h db' = ReadRawTxHash a h db"
  using db_get_agree [OF assms, of KGasPrice] db_get_agree [OF assms, of KNumAddr] db_get_agree [OF assms, of "KAddr i"]
    db_get_agree [OF assms, of "KAddrNonce a"] db_get_agree [OF assms, of "KNumRawTxs a"]
    db_get_agree [OF assms, of "KNumConfirmed a"] db_get_agree [OF assms, of "KConfirmed a i"]
    db_get_agree [OF assms, of "KUnconfirmed a"] db_get_agree [OF assms, of "KPending a"]
    db_get_agree [OF assms, of "KRawHash a h"]
  by (simp_all add: read_defs db_read_def)

lemma read_written_queue:
  "WritePendingTxs a q db = Some db' \<Longrightarrow> list_all raw_ok q \<Longrightarrow> ReadPendingTxs a db' = Some q"
  "WriteUnconfirmedTxs a q db = Some db' \<Longrightarrow> list_all raw_ok q \<Longrightarrow> ReadUnconfirmedTxs a db' = Some q"
  by (simp_all add: write_defs read_defs raws_codec.read_written)

lemma read_written_number:
  "WriteNumRawTxs a n db = Some db' \<Longrightarrow> ReadNumRawTxs a db' = Some n"
  "WriteNumConfirmedRawTxs a n db = Some db' \<Longrightarrow> ReadNumConfirmedRawTxs a db' = Some n"
  "WriteAddrNonce a n db = Some db' \<Longrightarrow> ReadAddrNonce a db' = Some n"
  "WriteNumAddr n db = Some db' \<Longrightarrow> ReadNumAddr db' = Some n"
  "WriteAddr i a db = Some db' \<Longrightarrow> ReadAddr i db' = Some a"
  by (simp_all add: write_defs read_defs u64_codec.read_written addr_codec.read_written)

lemma read_written_price: "WriteGasPrice g db = Some db' \<Longrightarrow> ReadGasPrice db' = Some g"
  using big_codec.read_written [of gasPriceKey g db db'] by (simp add: write_defs read_defs db_write_encoded)

lemma read_written_confirmed:
  "WriteConfirmedTx a i raw db = Some db' \<Longrightarrow> raw_ok raw \<Longrightarrow> ReadConfirmedTx a i db' = Some raw"
  by (simp add: write_defs read_defs raw_codec.decode_written)

text \<open>What the encoder accepts can be read back.\<close>

lemma encodable_raw: "encodable (item_of_raw r) \<Longrightarrow> rt_Recipient r \<noteq> None \<Longrightarrow> raw_ok r"
  by (auto simp: item_of_raw_def item_of_tx_def raw_ok_def tx_ok_def list_all_iff)

lemma WritePendingTxs_ok:
  assumes "WritePendingTxs a q db = Some db'" and "\<forall>r \<in> set q. rt_Recipient r \<noteq> None"
  shows "list_all raw_ok q"
  using assms encodable_raw by (auto simp: WritePendingTxs_def db_write_encoded item_of_raws_def list_all_iff)

section \<open>The gas price stays in its range\<close>

definition in_range :: "TransactionManager \<Rightarrow> bool" where
  "in_range tm \<longleftrightarrow> MinGasPrice (tm_config tm) \<le> tm_gasPrice tm \<and> tm_gasPrice tm \<le> MaxGasPrice (tm_config tm)"

lemma clamp_range: "MinGasPrice c \<le> MaxGasPrice c \<Longrightarrow> MinGasPrice c \<le> clamp c g \<and> clamp c g \<le> MaxGasPrice c"
  by (auto simp: clamp_def Let_def)

text \<open>An adjustment touches the price, its record and the clock, and nothing else.\<close>

definition priced :: "TransactionManager \<Rightarrow> TransactionManager \<Rightarrow> bool" where
  "priced tm tm' \<longleftrightarrow>
     pending tm' = pending tm \<and> unconfirmed tm' = unconfirmed tm \<and> confirmed tm' = confirmed tm \<and>
     addresses tm' = addresses tm \<and> tm_nonce tm' = tm_nonce tm \<and> tm_config tm' = tm_config tm \<and>
     currentBlockNumber tm' = currentBlockNumber tm \<and> agree {KGasPrice} (tm_db tm) (tm_db tm') \<and>
     (ReadGasPrice (tm_db tm) \<noteq> None \<longrightarrow> ReadGasPrice (tm_db tm') \<noteq> None) \<and>
     (MinGasPrice (tm_config tm) \<le> MaxGasPrice (tm_config tm) \<longrightarrow> in_range tm \<longrightarrow> in_range tm')"

lemma priced_refl [simp]: "priced tm tm"
  by (simp add: priced_def)

lemma priced_trans: "priced tm tm1 \<Longrightarrow> priced tm1 tm2 \<Longrightarrow> priced tm tm2"
  using agree_trans [of "{KGasPrice}" "tm_db tm" "tm_db tm1" "{KGasPrice}" "tm_db tm2"] by (simp add: priced_def)

lemma setGasPrice_priced: "setGasPrice d tm = Some tm' \<Longrightarrow> priced tm tm'"
  by (auto simp: setGasPrice_def priced_def in_range_def Let_def clamp_range read_written_price bind_eq_Some_conv
      dest: write_agree(1))

lemma priced_clock [simp]:
  "priced (tm\<lparr>tm_clock := t\<rparr>) tm' \<longleftrightarrow> priced tm tm'" "priced tm (tm'\<lparr>tm_clock := t\<rparr>) \<longleftrightarrow> priced tm tm'"
  by (auto simp: priced_def in_range_def)

lemma adjustGasPrice_priced: "adjustGasPrice B raw d tm = Some tm' \<Longrightarrow> priced tm tm'"
  by (auto simp: adjustGasPrice_def Let_def priced_clock split: if_splits prod.splits
      dest!: setGasPrice_priced)

section \<open>No raw transaction is lost\<close>

definition all_raws :: "address \<Rightarrow> TransactionManager \<Rightarrow> RawTransaction list" where
  "all_raws a tm = confirmed tm a @ unconfirmed tm a @ pending tm a"

definition others_same :: "address \<Rightarrow> TransactionManager \<Rightarrow> TransactionManager \<Rightarrow> bool" where
  "others_same a tm tm' \<longleftrightarrow> (\<forall>b. b \<noteq> a \<longrightarrow>
     confirmed tm' b = confirmed tm b \<and> unconfirmed tm' b = unconfirmed tm b \<and> pending tm' b = pending tm b)"

lemma CheckMined_index: "CheckMined keccak B t raw = (r, raw1, t1) \<Longrightarrow> rt_Index raw1 = rt_Index raw"
  by (auto simp: CheckMined_def split: if_splits prod.splits sum.splits option.splits)

lemma checkLoop_frame:
  "checkLoop keccak B raws tm = Some (q, tm1) \<Longrightarrow> map rt_Index q = map rt_Index raws \<and> priced tm tm1"
proof (induction raws arbitrary: q tm tm1)
  case (Cons raw raws)
  obtain r raw1 t where c: "CheckMined keccak B (tm_clock tm) raw = (r, raw1, t)" by (metis prod_cases3)
  note i = CheckMined_index [OF c]
  show ?case
  proof (cases "r = Inr True")
    case True
    then obtain tm2 rest where a: "adjustGasPrice B raw1 True (tm\<lparr>tm_clock := t\<rparr>) = Some tm2"
      and l: "checkLoop keccak B raws tm2 = Some (rest, tm1)" and q: "q = raw1 # rest"
      using Cons.prems c by (auto simp: bind_eq_Some_conv split: prod.splits)
    show ?thesis
      using Cons.IH [OF l] adjustGasPrice_priced [OF a] i priced_trans by (auto simp: q)
  next
    case False
    then have "q = raw1 # raws" "tm1 = tm\<lparr>tm_clock := t\<rparr>"
      using Cons.prems c by (auto split: sum.splits bool.splits)
    then show ?thesis using i by simp
  qed
qed simp

lemma clearQueue_frame:
  assumes "clearQueue keccak B a tm = Some tm'"
  shows "map rt_Index (all_raws a tm') = map rt_Index (all_raws a tm)" and "others_same a tm tm'"
proof -
  have "map rt_Index (all_raws a tm') = map rt_Index (all_raws a tm) \<and> others_same a tm tm'"
  proof (cases "pending tm a = []")
    case True
    then show ?thesis using assms by (simp add: clearQueue_def others_same_def)
  next
    case False
    then obtain q tm1 where l: "checkLoop keccak B (pending tm a) tm = Some (q, tm1)"
      using assms by (auto simp: clearQueue_def bind_eq_Some_conv)
    note f = checkLoop_frame [OF l]
    let ?m = "takeWhile Mined q"
    have "drop (length ?m) q = dropWhile Mined q" by (simp add: dropWhile_eq_drop)
    then have "map rt_Index ?m @ map rt_Index (drop (length ?m) q) = map rt_Index (pending tm a)"
      using f by (simp flip: map_append)
    then show ?thesis
      using assms False l f
      by (auto simp: clearQueue_def Let_def all_raws_def others_same_def priced_def bind_eq_Some_conv split: if_splits)
  qed
  then show "map rt_Index (all_raws a tm') = map rt_Index (all_raws a tm)" and "others_same a tm tm'" by auto
qed

lemma PrepareToResend_index [simp]: "rt_Index (PrepareToResend raw) = rt_Index raw"
  by (simp add: PrepareToResend_def)

lemma removedLoop_split:
  "removedLoop B t raws = (resend, keep, n, t') \<Longrightarrow>
     n \<le> length raws \<and> mset (map rt_Index resend) + mset (map rt_Index keep) = mset (map rt_Index (take n raws))"
proof (induction raws arbitrary: t resend keep n t')
  case (Cons raw raws)
  obtain rs ks m t1 where r: "removedLoop B (t + 1) raws = (rs, ks, m, t1)" by (metis prod_cases4)
  show ?case using Cons.prems Cons.IH [OF r] r by (auto split: sum.splits if_splits)
qed simp

lemma removedLoop_all:
  assumes "\<And>raw t e. raw \<in> set raws \<Longrightarrow> Removed B t raw \<noteq> Inl e"
  shows "removedLoop B t raws = (resend, keep, n, t') \<Longrightarrow> n = length raws"
  using assms
proof (induction raws arbitrary: t resend keep n t')
  case (Cons raw raws)
  obtain rs ks m t1 where r: "removedLoop B (t + 1) raws = (rs, ks, m, t1)" by (metis prod_cases4)
  obtain b where "Removed B t raw = Inr b" using Cons.prems(2) [of raw t] by (cases "Removed B t raw") auto
  then show ?case using Cons.prems r Cons.IH [OF r] by (auto split: if_splits)
qed simp

text \<open>What \<^verbatim>\<open>confirmQueue\<close> drops: the rest of the queue behind a failed query that is not the first.\<close>

definition dropped :: "Backend \<Rightarrow> address \<Rightarrow> TransactionManager \<Rightarrow> RawTransaction list" where
  "dropped B a tm =
     (case removedLoop B (tm_clock tm) (unconfirmed tm a) of
        (resend, keep, n, t) \<Rightarrow> if n = 0 then [] else drop n (unconfirmed tm a))"

lemma resendRemoved_frame:
  assumes "resendRemoved B a tm = Some tm'"
  shows "mset (map rt_Index (all_raws a tm')) + mset (map rt_Index (dropped B a tm)) = mset (map rt_Index (all_raws a tm))"
    and "others_same a tm tm'"
proof -
  obtain resend keep n t where r: "removedLoop B (tm_clock tm) (unconfirmed tm a) = (resend, keep, n, t)"
    by (metis prod_cases4)
  have s: "mset (map rt_Index resend) + mset (map rt_Index keep) + mset (map rt_Index (drop n (unconfirmed tm a))) =
      mset (map rt_Index (unconfirmed tm a))"
    using removedLoop_split [OF r] by (metis append_take_drop_id map_append mset_append)
  show "mset (map rt_Index (all_raws a tm')) + mset (map rt_Index (dropped B a tm)) = mset (map rt_Index (all_raws a tm))"
    using assms s r
    by (auto simp: resendRemoved_def Let_def dropped_def all_raws_def bind_eq_Some_conv mset_map ac_simps split: if_splits)
  show "others_same a tm tm'"
    using assms r by (auto simp: resendRemoved_def Let_def others_same_def bind_eq_Some_conv split: if_splits)
qed

lemma Confirmed_index: "Confirmed B t c raw = (r, raw1, t1) \<Longrightarrow> rt_Index raw1 = rt_Index raw"
  by (auto simp: Confirmed_def split: if_splits prod.splits option.splits)

lemma confirmedLoop_frame:
  "confirmedLoop B c a num raws db t = Some (cs, rest, num', db', t') \<Longrightarrow>
     map rt_Index cs @ map rt_Index rest = map rt_Index raws"
proof (induction raws arbitrary: num db t cs rest num' db' t')
  case (Cons raw raws)
  obtain r raw1 t1 where c: "Confirmed B t c raw = (r, raw1, t1)" by (metis prod_cases3)
  show ?case
    using Cons c Confirmed_index [OF c] by (cases r) (auto simp: Let_def bind_eq_Some_conv)
qed simp

lemma moveConfirmed_frame:
  assumes "moveConfirmed B a tm = Some tm'"
  shows "map rt_Index (all_raws a tm') = map rt_Index (all_raws a tm)" and "others_same a tm tm'"
  using assms confirmedLoop_frame
  by (fastforce simp: moveConfirmed_def Let_def all_raws_def others_same_def bind_eq_Some_conv split: if_splits)+

lemma others_same_trans: "others_same a tm tm1 \<Longrightarrow> others_same a tm1 tm2 \<Longrightarrow> others_same a tm tm2"
  by (simp add: others_same_def)

lemma confirmQueue_frame:
  assumes "confirmQueue B a tm = Some tm'"
  shows "mset (map rt_Index (all_raws a tm')) + mset (map rt_Index (dropped B a tm)) = mset (map rt_Index (all_raws a tm))"
    and "others_same a tm tm'"
proof -
  have "mset (map rt_Index (all_raws a tm')) + mset (map rt_Index (dropped B a tm)) = mset (map rt_Index (all_raws a tm)) \<and>
      others_same a tm tm'"
  proof (cases "unconfirmed tm a = []")
    case True
    then show ?thesis using assms by (simp add: confirmQueue_def dropped_def others_same_def)
  next
    case False
    then obtain tm1 where r: "resendRemoved B a tm = Some tm1" and m: "moveConfirmed B a tm1 = Some tm'"
      using assms by (auto simp: confirmQueue_def bind_eq_Some_conv)
    show ?thesis
      using resendRemoved_frame [OF r] moveConfirmed_frame [OF m] others_same_trans by metis
  qed
  then show "mset (map rt_Index (all_raws a tm')) + mset (map rt_Index (dropped B a tm)) = mset (map rt_Index (all_raws a tm))"
    and "others_same a tm tm'" by auto
qed

end
