(* ===== verification/Tx_Manager_Inv.thy ===== *)
theory Tx_Manager_Inv
  imports Tx_Manager_Queues
begin

text \<open>
  The invariant of the transaction manager: indices are unique and the pending queue is
  sorted by them, and the database holds the queues, so that a manager that is created from
  the database takes up where the old one stopped. Only the block number of a mined
  transaction and what the last attempt to send one changed may be newer in memory.
\<close>

section \<open>The invariant\<close>

text \<open>
  The block number of a mined transaction, and the nonce and the block of the last attempt of a
  pending one may be newer in memory than in the database.
\<close>

definition strip :: "RawTransaction \<Rightarrow> RawTransaction" where
  "strip r = r\<lparr>LastSentBlockNumber := 0, rt_Nonce := 0, MinedBlockNumber := 0\<rparr>"

definition stored :: "RawTransaction list option \<Rightarrow> RawTransaction list \<Rightarrow> bool" where
  "stored r q \<longleftrightarrow> (\<exists>s. r = Some s \<and> map strip s = map strip q \<and> list_all raw_ok s)"

lemma stored_Some [simp]: "stored (Some s) q \<longleftrightarrow> map strip s = map strip q \<and> list_all raw_ok s"
  by (simp add: stored_def)

lemma stored_strip: "stored r q \<Longrightarrow> map strip q' = map strip q \<Longrightarrow> stored r q'"
  by (simp add: stored_def)

text \<open>
  The records of account \<open>a\<close> in the database hold the queues of \<open>a\<close>, and its nonce unless a failed
  question for it has set it to 0 in memory.
\<close>

definition mirror :: "address \<Rightarrow> TransactionManager \<Rightarrow> bool" where
  "mirror a tm \<longleftrightarrow>
     stored (ReadPendingTxs a (tm_db tm)) (pending tm a) \<and>
     stored (ReadUnconfirmedTxs a (tm_db tm)) (unconfirmed tm a) \<and>
     ReadNumConfirmedRawTxs a (tm_db tm) = Some (of_nat (length (confirmed tm a))) \<and>
     (\<forall>j < length (confirmed tm a). ReadConfirmedTx a (of_nat j) (tm_db tm) = Some (confirmed tm a ! j)) \<and>
     (\<exists>n. ReadAddrNonce a (tm_db tm) = Some n \<and> nonce_of_account a tm \<in> {0, n}) \<and>
     list_all raw_ok (all_raws a tm)"

definition indexed :: "address \<Rightarrow> TransactionManager \<Rightarrow> bool" where
  "indexed a tm \<longleftrightarrow>
     (\<exists>n. ReadNumRawTxs a (tm_db tm) = Some n \<and> (\<forall>r \<in> set (all_raws a tm). rt_Index r < n)) \<and>
     distinct (map rt_Index (all_raws a tm)) \<and> sorted (map rt_Index (pending tm a))"

text \<open>The list of accounts is in the database; accounts that are not listed have no queues.\<close>

definition listed :: "TransactionManager \<Rightarrow> bool" where
  "listed tm \<longleftrightarrow>
     distinct (addresses tm) \<and> length (addresses tm) < 2 ^ 64 - 1 \<and>
     ReadNumAddr (tm_db tm) = Some (of_nat (length (addresses tm))) \<and>
     (\<forall>i < length (addresses tm). ReadAddr (of_nat i) (tm_db tm) = Some (addresses tm ! i)) \<and>
     (\<forall>a. a \<notin> set (addresses tm) \<longrightarrow> all_raws a tm = [])"

definition tm_inv :: "TransactionManager \<Rightarrow> bool" where
  "tm_inv tm \<longleftrightarrow> (\<forall>a. mirror a tm \<and> indexed a tm) \<and> listed tm \<and> ReadGasPrice (tm_db tm) \<noteq> None"

section \<open>Frames\<close>

definition keys_of :: "address \<Rightarrow> dbKey set" where
  "keys_of a = {KAddrNonce a, KNumRawTxs a, KNumConfirmed a, KUnconfirmed a, KPending a} \<union>
     range (KConfirmed a) \<union> range (KRawHash a)"

definition global_keys :: "dbKey set" where
  "global_keys = {KGasPrice, KNumAddr} \<union> range KAddr"

lemma not_keys_of:
  "k \<in> keys_of b \<Longrightarrow> b \<noteq> a \<Longrightarrow> k \<notin> keys_of a \<union> global_keys"
  by (auto simp: keys_of_def global_keys_def)

lemma in_keys_of [simp]:
  "KPending b \<in> keys_of b" "KUnconfirmed b \<in> keys_of b" "KNumConfirmed b \<in> keys_of b" "KAddrNonce b \<in> keys_of b"
  "KNumRawTxs b \<in> keys_of b" "KConfirmed b i \<in> keys_of b" "KRawHash b h \<in> keys_of b"
  by (auto simp: keys_of_def)

lemma mirror_other:
  assumes "mirror b tm" and "b \<noteq> a" and "agree (keys_of a \<union> global_keys) (tm_db tm) (tm_db tm')"
    and "others_same a tm tm'" and "nonce_of_account b tm' = nonce_of_account b tm"
  shows "mirror b tm'"
proof -
  note r = read_agree [OF assms(3) not_keys_of [OF _ assms(2)]]
  have "ReadPendingTxs b (tm_db tm') = ReadPendingTxs b (tm_db tm)"
    and "ReadUnconfirmedTxs b (tm_db tm') = ReadUnconfirmedTxs b (tm_db tm)"
    and "ReadNumConfirmedRawTxs b (tm_db tm') = ReadNumConfirmedRawTxs b (tm_db tm)"
    and "ReadAddrNonce b (tm_db tm') = ReadAddrNonce b (tm_db tm)"
    and "ReadConfirmedTx b i (tm_db tm') = ReadConfirmedTx b i (tm_db tm)" for i
    by (simp_all add: r)
  then show ?thesis
    using assms(1,2,4,5) by (simp add: mirror_def others_same_def all_raws_def)
qed

lemma indexed_other:
  assumes "indexed b tm" and "b \<noteq> a" and "agree (keys_of a \<union> global_keys) (tm_db tm) (tm_db tm')"
    and "others_same a tm tm'"
  shows "indexed b tm'"
proof -
  have "ReadNumRawTxs b (tm_db tm') = ReadNumRawTxs b (tm_db tm)"
    by (rule read_agree(5) [OF assms(3) not_keys_of [OF _ assms(2)]]) simp
  then show ?thesis
    using assms(1,2,4) by (simp add: indexed_def others_same_def all_raws_def)
qed

lemma listed_same:
  assumes "listed tm" and "addresses tm' = addresses tm" and "agree (keys_of a \<union> {KGasPrice}) (tm_db tm) (tm_db tm')"
    and "others_same a tm tm'" and "a \<in> set (addresses tm) \<or> all_raws a tm' = []"
  shows "listed tm'"
proof -
  have "ReadNumAddr (tm_db tm') = ReadNumAddr (tm_db tm)" and "ReadAddr i (tm_db tm') = ReadAddr i (tm_db tm)" for i
    using read_agree [OF assms(3)] by (auto simp: keys_of_def)
  moreover have "all_raws b tm' = []" if "b \<notin> set (addresses tm)" for b
    using assms(1,4,5) that by (cases "b = a") (auto simp: listed_def others_same_def all_raws_def)
  ultimately show ?thesis
    using assms(1,2) by (simp add: listed_def)
qed

lemma distinct_subset_mset:
  assumes "mset ys \<subseteq># mset xs" and "distinct xs"
  shows "distinct ys"
  unfolding distinct_count_atmost_1
proof
  fix x
  have "count (mset ys) x \<le> count (mset xs) x" using assms(1) by (rule mset_subset_eq_count)
  also have "\<dots> \<le> 1" using assms(2) by (simp add: distinct_count_atmost_1)
  finally show "count (mset ys) x = (if x \<in> set ys then 1 else 0)"
    using count_greater_zero_iff [of "mset ys" x] by (cases "x \<in> set ys") (simp_all add: le_Suc_eq)
qed

text \<open>Indices survive every permutation and every loss.\<close>

lemma indexed_length_le:
  assumes "indexed a tm"
  shows "\<exists>n. ReadNumRawTxs a (tm_db tm) = Some n \<and> length (all_raws a tm) \<le> unat n"
proof -
  obtain n where r: "ReadNumRawTxs a (tm_db tm) = Some n" and n: "\<forall>r \<in> set (all_raws a tm). rt_Index r < n"
    and d: "distinct (map rt_Index (all_raws a tm))"
    using assms by (auto simp: indexed_def)
  have "unat ` set (map rt_Index (all_raws a tm)) \<subseteq> {..<unat n}" using n by (auto simp: word_less_nat_alt)
  then have "card (unat ` set (map rt_Index (all_raws a tm))) \<le> unat n" by (metis card_lessThan card_mono finite_lessThan)
  then have "length (all_raws a tm) \<le> unat n"
    using distinct_card [OF d] card_image [of unat "set (map rt_Index (all_raws a tm))"]
    by (simp add: inj_on_def word_unat_eq_iff)
  then show ?thesis using r by auto
qed

lemma indexed_length: "indexed a tm \<Longrightarrow> length (all_raws a tm) < 2 ^ 64"
  using indexed_length_le [of a tm] le_less_trans [OF _ unat_u64_less] by force

lemma indexed_sub:
  assumes "indexed a tm" and "mset (map rt_Index (all_raws a tm')) \<subseteq># mset (map rt_Index (all_raws a tm))"
    and "ReadNumRawTxs a (tm_db tm') = ReadNumRawTxs a (tm_db tm)" and "sorted (map rt_Index (pending tm' a))"
  shows "indexed a tm'"
proof -
  obtain n where n: "ReadNumRawTxs a (tm_db tm) = Some n" "\<forall>r \<in> set (all_raws a tm). rt_Index r < n"
    and d: "distinct (map rt_Index (all_raws a tm))" using assms(1) by (auto simp: indexed_def)
  have "distinct (map rt_Index (all_raws a tm'))"
    using assms(2) d by (rule distinct_subset_mset)
  moreover have "rt_Index r < n" if "r \<in> set (all_raws a tm')" for r
  proof -
    have "rt_Index r \<in># mset (map rt_Index (all_raws a tm'))" using that by simp
    then have "rt_Index r \<in># mset (map rt_Index (all_raws a tm))" using assms(2) by (rule mset_subset_eqD [rotated])
    then show ?thesis using n(2) by auto
  qed
  ultimately show ?thesis using n(1) assms(3,4) by (simp add: indexed_def)
qed

section \<open>clearQueue\<close>

text \<open>
  What is assumed of the outside: block numbers are not negative; nonces of accounts fit 63
  bits, and a failed question for one returns the zero value; and the hash function does not
  return the zero hash, which the code uses for "not mined".
\<close>

definition backend_ok :: "Backend \<Rightarrow> bool" where
  "backend_ok B \<longleftrightarrow>
     (\<forall>t h r e. rpc_receipt B t h = (Some r, e) \<longrightarrow> 0 \<le> BlockNumber r) \<and>
     (\<forall>t a n e. rpc_nonce B t a = (n, e) \<longrightarrow> unat n < 2 ^ 63 \<and> (e \<noteq> None \<longrightarrow> n = 0))"

definition hash_ok :: "(bytes \<Rightarrow> hash) \<Rightarrow> bool" where
  "hash_ok keccak \<longleftrightarrow> (\<forall>b. keccak b \<noteq> 0)"

lemma TransactionReceipt_ok: "backend_ok B \<Longrightarrow> TransactionReceipt B t h = (Some r, e) \<Longrightarrow> 0 \<le> BlockNumber r"
  by (auto simp: backend_ok_def TransactionReceipt_def split: prod.splits if_splits)

lemma findReceipt_ok:
  assumes "backend_ok B" and "hash_ok keccak"
  shows "findReceipt keccak B t ps = (Inr (Some (h, r)), t') \<Longrightarrow> 0 \<le> BlockNumber r \<and> h \<noteq> 0"
proof (induction ps arbitrary: t)
  case (Cons p ps)
  obtain ro e where a: "TransactionReceipt B t (tx_Hash keccak p) = (ro, e)" by force
  have "tx_Hash keccak p \<noteq> 0" using assms(2) by (simp add: hash_ok_def tx_Hash_def)
  then show ?case
    using Cons a TransactionReceipt_ok [OF assms(1)] by (cases ro; cases e) auto
qed simp

lemma CheckMined_cases:
  assumes "backend_ok B" and "hash_ok keccak" and "CheckMined keccak B t raw = (r, raw1, t1)"
  shows "if r = Inr True then Mined raw1 \<and> (raw_ok raw \<longrightarrow> raw_ok raw1) else raw1 = raw \<and> \<not> Mined raw"
proof (cases "MinedTxHash raw = 0")
  case False
  then show ?thesis using assms(3) by (auto simp: CheckMined_def Mined_def)
next
  case True
  obtain f t2 where f: "findReceipt keccak B t (PendingTxs raw) = (f, t2)" by force
  consider e where "f = Inl e" | "f = Inr None" | h rc where "f = Inr (Some (h, rc))"
    by (metis not_Some_eq old.sum.exhaust prod.collapse)
  then show ?thesis
  proof cases
    case 3
    then show ?thesis
      using True assms(3) f findReceipt_ok [OF assms(1,2), of t "PendingTxs raw" h rc t2]
      by (auto simp: CheckMined_def Mined_def raw_ok_def)
  qed (use True assms(3) f in \<open>auto simp: CheckMined_def Mined_def\<close>)
qed

text \<open>The check marks a prefix of the queue as mined and leaves the rest, which starts with an unmined one.\<close>

lemma checkLoop_shape:
  assumes "backend_ok B" and "hash_ok keccak"
  shows "checkLoop keccak B raws tm = Some (q, tm1) \<Longrightarrow> list_all raw_ok raws \<Longrightarrow>
    \<exists>m. q = m @ drop (length m) raws \<and> length m \<le> length raws \<and> takeWhile Mined q = m \<and> list_all raw_ok m"
proof (induction raws arbitrary: q tm)
  case (Cons raw raws)
  obtain r raw1 t where c: "CheckMined keccak B (tm_clock tm) raw = (r, raw1, t)" by (metis prod_cases3)
  note cm = CheckMined_cases [OF assms c]
  show ?case
  proof (cases "r = Inr True")
    case True
    then obtain tm2 rest where l: "checkLoop keccak B raws tm2 = Some (rest, tm1)" and q: "q = raw1 # rest"
      using Cons.prems c by (auto simp: bind_eq_Some_conv split: prod.splits)
    obtain m where "rest = m @ drop (length m) raws" "length m \<le> length raws" "takeWhile Mined rest = m" "list_all raw_ok m"
      using Cons.IH [OF l] Cons.prems(2) by auto
    then show ?thesis
      using True cm Cons.prems(2) by (intro exI [of _ "raw1 # m"]) (auto simp: q)
  next
    case False
    then have "q = raw # raws" using Cons.prems(1) c cm by (auto split: sum.splits bool.splits)
    then show ?thesis using False cm by (intro exI [of _ "[]"]) auto
  qed
qed simp

lemma tm_inv_step:
  assumes "tm_inv tm" and "mirror a tm'" and "indexed a tm'" and "agree (keys_of a \<union> {KGasPrice}) (tm_db tm) (tm_db tm')"
    and "others_same a tm tm'" and "\<forall>b. b \<noteq> a \<longrightarrow> tm_nonce tm' b = tm_nonce tm b" and "addresses tm' = addresses tm"
    and "a \<in> set (addresses tm) \<or> all_raws a tm' = []"
    and "ReadGasPrice (tm_db tm) \<noteq> None \<Longrightarrow> ReadGasPrice (tm_db tm') \<noteq> None"
  shows "tm_inv tm'"
proof -
  have g: "agree (keys_of a \<union> global_keys) (tm_db tm) (tm_db tm')"
    using assms(4) by (rule agree_mono) (auto simp: global_keys_def)
  have "mirror b tm' \<and> indexed b tm'" if "b \<noteq> a" for b
    using mirror_other [OF _ that g assms(5)] indexed_other [OF _ that g assms(5)] assms(1,6) that
    by (auto simp: tm_inv_def nonce_of_account_def)
  moreover have "listed tm'"
    using listed_same [OF _ assms(7,4,5)] assms(1,8) by (simp add: tm_inv_def)
  moreover have "mirror b tm' \<and> indexed b tm'" for b using calculation assms(2,3) by (cases "b = a") auto
  ultimately show ?thesis using assms(1,9) by (simp add: tm_inv_def)
qed

lemma clearQueue_cases:
  assumes "backend_ok B" and "hash_ok keccak" and "clearQueue keccak B a tm = Some tm'"
    and "list_all raw_ok (pending tm a)"
  obtains (none) "priced tm tm'"
  | (mined) m tm1 db1 db2 where "m \<noteq> []" "list_all raw_ok m" "priced tm tm1" "length m \<le> length (pending tm a)"
      "WritePendingTxs a (drop (length m) (pending tm a)) (tm_db tm1) = Some db1"
      "WriteUnconfirmedTxs a (unconfirmed tm a @ m) db1 = Some db2"
      "tm' = tm1\<lparr>unconfirmed := (unconfirmed tm)(a := unconfirmed tm a @ m),
                  pending := (pending tm)(a := drop (length m) (pending tm a)), tm_db := db2\<rparr>"
proof (cases "pending tm a = []")
  case True
  then show ?thesis using none assms(3) by (simp add: clearQueue_def)
next
  case False
  then obtain q tm1 where l: "checkLoop keccak B (pending tm a) tm = Some (q, tm1)"
    using assms(3) by (auto simp: clearQueue_def bind_eq_Some_conv)
  have pr: "priced tm tm1" using checkLoop_frame [OF l] by simp
  obtain m where m: "q = m @ drop (length m) (pending tm a)" "length m \<le> length (pending tm a)"
    "takeWhile Mined q = m" "list_all raw_ok m"
    using checkLoop_shape [OF assms(1,2) l assms(4)] by blast
  show ?thesis
  proof (cases "m = []")
    case True
    then have "tm' = tm1\<lparr>pending := (pending tm1)(a := pending tm a)\<rparr>"
      using assms(3) False l m(1,3) by (simp add: clearQueue_def)
    then have "priced tm tm'" using pr by (auto simp: priced_def in_range_def)
    then show ?thesis by (rule none)
  next
    case ne: False
    have d: "drop (length m) q = drop (length m) (pending tm a)" by (subst m(1)) simp
    obtain db1 db2 where w: "WritePendingTxs a (drop (length m) (pending tm a)) (tm_db tm1) = Some db1"
        "WriteUnconfirmedTxs a (unconfirmed tm a @ m) db1 = Some db2"
      and t: "tm' = tm1\<lparr>unconfirmed := (unconfirmed tm)(a := unconfirmed tm a @ m),
                  pending := (pending tm)(a := drop (length m) (pending tm a)), tm_db := db2\<rparr>"
      using assms(3) False l ne pr unfolding clearQueue_def
      by (auto simp: m(3) d Let_def bind_eq_Some_conv priced_def)
    show ?thesis by (rule mined [OF ne m(4) pr m(2) w t])
  qed
qed

lemma mirror_priced:
  assumes "mirror a tm" and "priced tm tm'"
  shows "mirror a tm'"
proof -
  have "agree {KGasPrice} (tm_db tm) (tm_db tm')" using assms(2) by (simp add: priced_def)
  note r = read_agree [OF this]
  show ?thesis
    using assms by (simp add: mirror_def priced_def r all_raws_def nonce_of_account_def)
qed

lemma indexed_priced:
  assumes "indexed a tm" and "priced tm tm'"
  shows "indexed a tm'"
proof -
  have "agree {KGasPrice} (tm_db tm) (tm_db tm')" using assms(2) by (simp add: priced_def)
  note r = read_agree [OF this]
  show ?thesis using assms by (simp add: indexed_def priced_def r all_raws_def)
qed

lemma clearQueue_mirror:
  assumes "backend_ok B" and "hash_ok keccak" and "clearQueue keccak B a tm = Some tm'"
    and "mirror a tm"
  shows "mirror a tm' \<and> agree (keys_of a \<union> {KGasPrice}) (tm_db tm) (tm_db tm') \<and>
    ReadNumRawTxs a (tm_db tm') = ReadNumRawTxs a (tm_db tm) \<and>
    (\<exists>n. pending tm' a = drop n (pending tm a)) \<and> tm_nonce tm' = tm_nonce tm \<and> addresses tm' = addresses tm \<and>
    (ReadGasPrice (tm_db tm) \<noteq> None \<longrightarrow> ReadGasPrice (tm_db tm') \<noteq> None)"
proof -
  have ok: "list_all raw_ok (all_raws a tm)" using assms(4) by (simp add: mirror_def)
  then have "list_all raw_ok (pending tm a)" by (simp add: all_raws_def)
  with assms(1-3) show ?thesis
  proof (cases rule: clearQueue_cases)
    case none
    then have g: "agree {KGasPrice} (tm_db tm) (tm_db tm')" by (simp add: priced_def)
    have "\<exists>n. pending tm' a = drop n (pending tm a)" using none by (metis drop0 priced_def)
    then show ?thesis
      using none mirror_priced [OF assms(4)] agree_mono [OF g] read_agree(5) [OF g] by (simp add: priced_def)
  next
    case (mined m tm1 db1 db2)
    have g1: "agree {KGasPrice} (tm_db tm) (tm_db tm1)" using mined(3) by (simp add: priced_def)
    have g2: "agree ({KPending a} \<union> {KUnconfirmed a}) (tm_db tm1) db2"
      using write_agree(9) [OF mined(5)] write_agree(8) [OF mined(6)] by (rule agree_trans)
    note g = agree_trans [OF g1 g2]
    have ok': "list_all raw_ok (all_raws a tm')"
      using ok mined(2,3,7) by (auto simp: all_raws_def priced_def list_all_iff dest: in_set_dropD)
    then have st: "list_all raw_ok (pending tm' a)" "list_all raw_ok (unconfirmed tm' a)" by (simp_all add: all_raws_def)
    have p: "pending tm' a = drop (length m) (pending tm a)" "unconfirmed tm' a = unconfirmed tm a @ m"
      "confirmed tm' a = confirmed tm a" "nonce_of_account a tm' = nonce_of_account a tm"
      using mined(3,7) by (simp_all add: priced_def nonce_of_account_def)
    have "ReadPendingTxs a db1 = Some (pending tm' a)"
      using read_written_queue(1) [OF mined(5)] st p by simp
    then have "ReadPendingTxs a db2 = Some (pending tm' a)"
      using read_agree(9) [OF write_agree(8) [OF mined(6)]] by simp
    moreover have "ReadUnconfirmedTxs a db2 = Some (unconfirmed tm' a)"
      using read_written_queue(2) [OF mined(6)] st p by simp
    ultimately have "mirror a tm'"
      using assms(4) ok' p read_agree(4,6,7) [OF g] mined(7) by (simp add: mirror_def all_raws_def)
    then show ?thesis
      using agree_mono [OF g, of "keys_of a \<union> {KGasPrice}"] read_agree(5) [OF g] read_agree(1) [OF g2] mined(3,7) p(1)
      by (auto simp: priced_def)
  qed
qed

lemma sorted_drop_map: "sorted (map f xs) \<Longrightarrow> sorted (map f (drop n xs))"
  by (simp add: drop_map [symmetric] sorted_wrt_drop)

lemma clearQueue_inv:
  assumes "backend_ok B" and "hash_ok keccak" and "clearQueue keccak B a tm = Some tm'" and "tm_inv tm"
  shows "tm_inv tm'"
proof -
  have m: "mirror a tm" and i: "indexed a tm" and l: "listed tm" using assms(4) by (auto simp: tm_inv_def)
  note c = clearQueue_mirror [OF assms(1-3) m]
  obtain n where n: "pending tm' a = drop n (pending tm a)" using c by auto
  have "sorted (map rt_Index (pending tm' a))"
    using i sorted_drop_map unfolding n indexed_def by blast
  then have "indexed a tm'"
    using c clearQueue_frame(1) [OF assms(3)] by (intro indexed_sub [OF i]) auto
  moreover have "a \<in> set (addresses tm) \<or> all_raws a tm' = []"
    using l clearQueue_frame(1) [OF assms(3)] by (auto simp: listed_def)
  ultimately show ?thesis
    using c clearQueue_frame(2) [OF assms(3)] by (intro tm_inv_step [OF assms(4)]) auto
qed

section \<open>confirmQueue\<close>

lemma PrepareToResend_ok: "raw_ok r \<Longrightarrow> raw_ok (PrepareToResend r)"
  by (simp add: raw_ok_def PrepareToResend_def)

lemma removedLoop_ok:
  "removedLoop B t raws = (resend, keep, n, t') \<Longrightarrow> list_all raw_ok raws \<Longrightarrow> list_all raw_ok resend \<and> list_all raw_ok keep"
proof (induction raws arbitrary: t resend keep n t')
  case (Cons raw raws)
  obtain rs ks m t1 where r: "removedLoop B (t + 1) raws = (rs, ks, m, t1)" by (metis prod_cases4)
  then show ?case
    using Cons.IH [OF r] Cons.prems PrepareToResend_ok by (auto split: sum.splits if_splits)
qed simp

lemma resendRemoved_mirror:
  assumes "resendRemoved B a tm = Some tm1" and "mirror a tm"
  shows "mirror a tm1 \<and> agree {KPending a, KUnconfirmed a} (tm_db tm) (tm_db tm1) \<and>
    tm_nonce tm1 = tm_nonce tm \<and> addresses tm1 = addresses tm \<and> confirmed tm1 = confirmed tm \<and>
    (pending tm1 a = pending tm a \<or> (\<exists>q. pending tm1 a = sort_key rt_Index q))"
proof -
  obtain resend keep n t where r: "removedLoop B (tm_clock tm) (unconfirmed tm a) = (resend, keep, n, t)"
    by (metis prod_cases4)
  have ok: "list_all raw_ok (all_raws a tm)" using assms(2) by (simp add: mirror_def)
  show ?thesis
  proof (cases "n = 0")
    case True
    then have "tm1 = tm\<lparr>tm_clock := t\<rparr>" using assms(1) r by (simp add: resendRemoved_def)
    then show ?thesis using assms(2) by (simp add: mirror_def all_raws_def nonce_of_account_def)
  next
    case False
    let ?q = "sort_key rt_Index (pending tm a @ resend)"
    obtain db1 db2 where w: "WriteUnconfirmedTxs a keep (tm_db tm) = Some db1" "WritePendingTxs a ?q db1 = Some db2"
      and t: "tm1 = tm\<lparr>tm_clock := t, unconfirmed := (unconfirmed tm)(a := keep), pending := (pending tm)(a := ?q),
                       tm_db := db2\<rparr>"
      using assms(1) r False by (auto simp: resendRemoved_def Let_def bind_eq_Some_conv)
    have g: "agree {KPending a, KUnconfirmed a} (tm_db tm) db2"
      using agree_trans [OF write_agree(8) [OF w(1)] write_agree(9) [OF w(2)]] by (rule agree_mono) auto
    have okk: "list_all raw_ok keep" and okr: "list_all raw_ok resend"
      using ok removedLoop_ok [OF r] by (auto simp: all_raws_def)
    have okq: "list_all raw_ok ?q" using ok okr by (auto simp: all_raws_def list_all_iff)
    have "ReadUnconfirmedTxs a db2 = Some keep"
      using read_written_queue(2) [OF w(1) okk] read_agree(8) [OF write_agree(9) [OF w(2)]] by simp
    moreover have "ReadPendingTxs a db2 = Some ?q" by (rule read_written_queue(1) [OF w(2) okq])
    moreover have "list_all raw_ok (all_raws a tm1)" using ok okk okq by (simp add: all_raws_def t)
    ultimately have "mirror a tm1"
      using assms(2) read_agree(4,6,7) [OF g] by (simp add: mirror_def t nonce_of_account_def all_raws_def)
    then show ?thesis using g t by auto
  qed
qed

lemma Confirmed_raw:
  assumes "backend_ok B" and "Confirmed B t c raw = (r, raw1, t1)"
  shows "strip raw1 = strip raw" and "raw_ok raw \<Longrightarrow> raw_ok raw1"
  using assms(2) TransactionReceipt_ok [OF assms(1)]
  by (auto simp: Confirmed_def strip_def raw_ok_def split: if_splits prod.splits option.splits)

lemma confirmedLoop_written:
  assumes "backend_ok B"
  shows "confirmedLoop B c a num raws db t = Some (cs, rest, num', db', t') \<Longrightarrow> list_all raw_ok raws \<Longrightarrow>
    length cs < 2 ^ 64 \<Longrightarrow>
    num' = num + of_nat (length cs) \<and> agree {KConfirmed a (num + of_nat j) |j. j < length cs} db db' \<and>
    (\<forall>j < length cs. ReadConfirmedTx a (num + of_nat j) db' = Some (cs ! j)) \<and>
    list_all raw_ok (cs @ rest) \<and> (cs = [] \<longrightarrow> map strip rest = map strip raws)"
proof (induction raws arbitrary: num db t cs)
  case (Cons raw raws)
  obtain r raw1 t1 where c: "Confirmed B t c raw = (r, raw1, t1)" by (metis prod_cases3)
  note cr = Confirmed_raw [OF assms c]
  show ?case
  proof (cases r)
    case False
    then have "cs = []" "rest = raw1 # raws" "num' = num" "db' = db" using Cons.prems(1) c by auto
    then show ?thesis using cr Cons.prems(2) by simp
  next
    case True
    define raw2 where "raw2 = raw1\<lparr>ConfirmedIndex := num\<rparr>"
    obtain db1 cs1 where w: "WriteConfirmedTx a num raw2 db = Some db1"
      and l: "confirmedLoop B c a (num + 1) raws db1 t1 = Some (cs1, rest, num', db', t')" and cs: "cs = raw2 # cs1"
      using Cons.prems(1) c True by (auto simp: raw2_def Let_def bind_eq_Some_conv)
    have ok2: "raw_ok raw2" using cr(2) Cons.prems(2) by (simp add: raw2_def raw_ok_def)
    have IH: "num' = num + 1 + of_nat (length cs1)"
      "agree {KConfirmed a (num + 1 + of_nat j) |j. j < length cs1} db1 db'"
      "\<forall>j < length cs1. ReadConfirmedTx a (num + 1 + of_nat j) db' = Some (cs1 ! j)" "list_all raw_ok (cs1 @ rest)"
      using Cons.IH [OF l] Cons.prems(2,3) by (auto simp: cs)
    have shift: "num + 1 + of_nat j = num + of_nat (Suc j)" for j by simp
    have "KConfirmed a num \<notin> {KConfirmed a (num + 1 + of_nat j) |j. j < length cs1}"
    proof
      assume "KConfirmed a num \<in> {KConfirmed a (num + 1 + of_nat j) |j. j < length cs1}"
      then obtain j where j: "j < length cs1" "num = num + of_nat (Suc j)" unfolding shift by auto
      then have "(of_nat (Suc j) :: u64) = of_nat 0" by simp
      then show False using j(1) Cons.prems(3) by (subst (asm) of_nat_u64_inject) (auto simp: cs)
    qed
    then have "ReadConfirmedTx a num db' = Some raw2"
      using read_agree(7) [OF IH(2)] read_written_confirmed [OF w ok2] by (simp add: cs)
    then have reads: "\<forall>j < length cs. ReadConfirmedTx a (num + of_nat j) db' = Some (cs ! j)"
      using IH(3) unfolding shift by (auto simp: cs less_Suc_eq_0_disj)
    have "agree {KConfirmed a (num + of_nat j) |j. j < length cs} db db'"
      using agree_trans [OF write_agree(7) [OF w] IH(2)]
    proof (rule agree_mono, unfold shift, intro subsetI)
      fix k
      assume "k \<in> {KConfirmed a num} \<union> {KConfirmed a (num + of_nat (Suc j)) |j. j < length cs1}"
      then consider "k = KConfirmed a (num + of_nat 0)" | j where "k = KConfirmed a (num + of_nat (Suc j))" "j < length cs1"
        by auto
      then show "k \<in> {KConfirmed a (num + of_nat j) |j. j < length cs}"
        by cases (use cs in \<open>blast intro: Suc_less_eq [THEN iffD2]\<close>, use cs in force)
    qed
    then show ?thesis using reads IH(1,4) ok2 unfolding cs by (simp add: add.assoc)
  qed
qed simp

lemma moveConfirmed_cases:
  assumes "moveConfirmed B a tm = Some tm'" and "mirror a tm"
  obtains cs rest num1 db1 t where
    "confirmedLoop B (currentBlockNumber tm) a (of_nat (length (confirmed tm a))) (unconfirmed tm a) (tm_db tm) (tm_clock tm)
       = Some (cs, rest, num1, db1, t)"
    "confirmed tm' = (confirmed tm)(a := confirmed tm a @ cs)" "unconfirmed tm' = (unconfirmed tm)(a := rest)"
    "pending tm' = pending tm" "tm_nonce tm' = tm_nonce tm" "addresses tm' = addresses tm"
    "if cs = [] then tm_db tm' = db1
     else \<exists>db2. WriteNumConfirmedRawTxs a num1 db1 = Some db2 \<and> WriteUnconfirmedTxs a rest db2 = Some (tm_db tm')"
proof -
  have n: "ReadNumConfirmedRawTxs a (tm_db tm) = Some (of_nat (length (confirmed tm a)))"
    using assms(2) by (simp add: mirror_def)
  then obtain cs rest num1 db1 t where
    l: "confirmedLoop B (currentBlockNumber tm) a (of_nat (length (confirmed tm a))) (unconfirmed tm a) (tm_db tm) (tm_clock tm)
       = Some (cs, rest, num1, db1, t)"
    using assms(1) by (auto simp: moveConfirmed_def bind_eq_Some_conv)
  then show thesis
    using assms(1) n
    by (intro that [OF l]) (auto simp: moveConfirmed_def Let_def bind_eq_Some_conv split: if_splits)
qed

lemma moveConfirmed_mirror:
  assumes "backend_ok B" and "moveConfirmed B a tm = Some tm'" and "mirror a tm" and "length (all_raws a tm) < 2 ^ 64"
  shows "mirror a tm' \<and> agree (keys_of a) (tm_db tm) (tm_db tm') \<and> ReadNumRawTxs a (tm_db tm') = ReadNumRawTxs a (tm_db tm) \<and>
    tm_nonce tm' = tm_nonce tm \<and> addresses tm' = addresses tm \<and> pending tm' = pending tm"
  using assms(2,3)
proof (cases rule: moveConfirmed_cases)
  case (1 cs rest num1 db1 t)
  let ?n = "length (confirmed tm a)" and ?new = "{KConfirmed a (of_nat (length (confirmed tm a)) + of_nat j) |j. j < length cs}"
  have ok: "list_all raw_ok (all_raws a tm)" using assms(3) by (simp add: mirror_def)
  have "length (all_raws a tm') = length (all_raws a tm)"
    using moveConfirmed_frame(1) [OF assms(2)] by (rule map_eq_imp_length_eq)
  then have len: "?n + length cs < 2 ^ 64" using assms(4) 1(2-4) by (simp add: all_raws_def)
  then have w: "num1 = of_nat ?n + of_nat (length cs)" "agree ?new (tm_db tm) db1"
    "\<forall>j < length cs. ReadConfirmedTx a (of_nat ?n + of_nat j) db1 = Some (cs ! j)" "list_all raw_ok (cs @ rest)"
    "cs = [] \<longrightarrow> map strip rest = map strip (unconfirmed tm a)"
    using confirmedLoop_written [OF assms(1) 1(1)] ok len by (auto simp: all_raws_def)
  have old: "KConfirmed a (of_nat j) \<notin> ?new" if "j < ?n" for j
  proof
    assume "KConfirmed a (of_nat j) \<in> ?new"
    then obtain i where "(of_nat j :: u64) = of_nat (?n + i)" "i < length cs" by auto
    then show False using that len by (subst (asm) of_nat_u64_inject) auto
  qed
  have conf: "ReadConfirmedTx a (of_nat j) db1 = Some ((confirmed tm a @ cs) ! j)" if "j < ?n + length cs" for j
  proof (cases "j < ?n")
    case True
    then show ?thesis using read_agree(7) [OF w(2) old [OF True]] assms(3) by (simp add: mirror_def nth_append)
  next
    case False
    then have "(of_nat ?n + of_nat (j - ?n) :: u64) = of_nat j" by (simp flip: of_nat_add)
    moreover have "ReadConfirmedTx a (of_nat ?n + of_nat (j - ?n)) db1 = Some (cs ! (j - ?n))"
      by (rule w(3) [rule_format]) (use that False in linarith)
    ultimately have "ReadConfirmedTx a (of_nat j) db1 = Some (cs ! (j - ?n))" by metis
    then show ?thesis using False by (simp add: nth_append)
  qed
  have g: "agree (?new \<union> (if cs = [] then {} else {KNumConfirmed a} \<union> {KUnconfirmed a})) (tm_db tm) (tm_db tm')"
  proof (cases "cs = []")
    case False
    then obtain db2 where "WriteNumConfirmedRawTxs a num1 db1 = Some db2" "WriteUnconfirmedTxs a rest db2 = Some (tm_db tm')"
      using 1(7) by auto
    from agree_trans [OF w(2) agree_trans [OF write_agree(6) [OF this(1)] write_agree(8) [OF this(2)]]] show ?thesis
      using False by (rule_tac agree_mono) auto
  qed (use 1(7) w(2) in simp)
  note rd = read_agree [OF g]
  have db: "tm_db tm' = db1" if "cs = []" using 1(7) that by simp
  have tail: "ReadNumConfirmedRawTxs a (tm_db tm') = Some (of_nat (?n + length cs)) \<and>
      ReadUnconfirmedTxs a (tm_db tm') = Some rest \<and> (\<forall>i. ReadConfirmedTx a i (tm_db tm') = ReadConfirmedTx a i db1)" if ne: "cs \<noteq> []"
  proof -
    obtain db2 where d: "WriteNumConfirmedRawTxs a num1 db1 = Some db2" "WriteUnconfirmedTxs a rest db2 = Some (tm_db tm')"
      using 1(7) ne by auto
    have "list_all raw_ok rest" using w(4) by simp
    then show ?thesis
      using read_written_number(2) [OF d(1)] read_written_queue(2) [OF d(2)] read_agree(6) [OF write_agree(8) [OF d(2)], of a]
        read_agree(7) [OF write_agree(8) [OF d(2)]] read_agree(7) [OF write_agree(6) [OF d(1)]] w(1) by simp
  qed
  have "mirror a tm'"
  proof (cases "cs = []")
    case True
    then have "stored (ReadUnconfirmedTxs a (tm_db tm')) rest"
      using assms(3) rd(8) w(5) by (auto simp: mirror_def intro: stored_strip)
    then show ?thesis using True assms(3) w(4) 1(2-6) rd(4,6,7,9)
      by (simp add: mirror_def all_raws_def nonce_of_account_def)
  next
    case False
    then show ?thesis using assms(3) tail conf w(4) 1(2-6) rd(4,9)
      by (auto simp: mirror_def all_raws_def nonce_of_account_def)
  qed
  moreover have "agree (keys_of a) (tm_db tm) (tm_db tm')" using g by (rule agree_mono) (auto simp: keys_of_def)
  ultimately show ?thesis using rd(5) [of a] 1(4-6) by simp
qed

lemma confirmQueue_inv:
  assumes "backend_ok B" and "confirmQueue B a tm = Some tm'" and "tm_inv tm"
  shows "tm_inv tm'"
proof (cases "unconfirmed tm a = []")
  case True
  then show ?thesis using assms(2,3) by (simp add: confirmQueue_def)
next
  case False
  then obtain tm1 where r: "resendRemoved B a tm = Some tm1" and m: "moveConfirmed B a tm1 = Some tm'"
    using assms(2) by (auto simp: confirmQueue_def bind_eq_Some_conv)
  have inv: "mirror a tm" "indexed a tm" "listed tm" using assms(3) by (auto simp: tm_inv_def)
  have p: "pending tm' = pending tm1"
    using m by (auto simp: moveConfirmed_def Let_def bind_eq_Some_conv split: if_splits)
  note c1 = resendRemoved_mirror [OF r inv(1)]
  have m1: "mirror a tm1" and g1: "agree {KPending a, KUnconfirmed a} (tm_db tm) (tm_db tm1)" using c1 by auto
  have "mset (map rt_Index (all_raws a tm1)) \<subseteq># mset (map rt_Index (all_raws a tm))"
    unfolding resendRemoved_frame(1) [OF r, symmetric] by (rule mset_subset_eq_add_left)
  from size_mset_mono [OF this] have "length (all_raws a tm1) < 2 ^ 64" using indexed_length [OF inv(2)] by simp
  note c2 = moveConfirmed_mirror [OF assms(1) m m1 this]
  have g2: "agree (keys_of a) (tm_db tm1) (tm_db tm')" using c2 by auto
  have g: "agree (keys_of a \<union> {KGasPrice}) (tm_db tm) (tm_db tm')"
    by (rule agree_mono [OF agree_trans [OF g1 g2]]) auto
  have "ReadNumRawTxs a (tm_db tm1) = ReadNumRawTxs a (tm_db tm)"
    by (rule read_agree(5) [OF g1]) simp
  then have n: "ReadNumRawTxs a (tm_db tm') = ReadNumRawTxs a (tm_db tm)" using c2 by simp
  have s: "sorted (map rt_Index (pending tm' a))"
    using c1 inv(2) unfolding p indexed_def by auto
  have sub: "mset (map rt_Index (all_raws a tm')) \<subseteq># mset (map rt_Index (all_raws a tm))"
    unfolding confirmQueue_frame(1) [OF assms(2), symmetric] by (rule mset_subset_eq_add_left)
  have e: "a \<in> set (addresses tm) \<or> all_raws a tm' = []"
    using inv(3) sub by (cases "a \<in> set (addresses tm)") (simp_all add: listed_def)
  have "ReadGasPrice (tm_db tm') = ReadGasPrice (tm_db tm)"
    by (rule read_agree(1) [OF agree_trans [OF g1 g2]]) (auto simp: keys_of_def)
  then show ?thesis
    using c1 c2 by (intro tm_inv_step [OF assms(3) _ indexed_sub [OF inv(2) sub n s] g confirmQueue_frame(2) [OF assms(2)] _ _ e]) simp_all
qed

end
