(* ===== verification/Tx_Manager_Reach.thy ===== *)
theory Tx_Manager_Reach
  imports Tx_Manager_Inv
begin

text \<open>
  Adding raw transactions keeps the invariant of the manager, so every state a manager reaches
  by its operations has it; and a manager that is created anew from the database of such a
  state has the same accounts, queues and nonces.
\<close>

section \<open>Adding\<close>

lemma indexOf_from_iff: "0 \<le> i \<Longrightarrow> indexOf_from i as a < 0 \<longleftrightarrow> a \<notin> set as"
  by (induction as arbitrary: i) auto

lemma indexOf_iff: "indexOf a tm < 0 \<longleftrightarrow> a \<notin> set (addresses tm)"
  by (simp add: indexOf_def indexOf_from_iff)

definition side_keys :: "dbKey set" where
  "side_keys = global_keys \<union> (\<Union>c. range (KRawHash c))"

text \<open>Records that belong to no queue do not matter to the queues.\<close>

lemma queues_same:
  assumes "agree side_keys (tm_db tm) (tm_db tm')" and "confirmed tm' = confirmed tm" and "unconfirmed tm' = unconfirmed tm"
    and "pending tm' = pending tm" and "tm_nonce tm' = tm_nonce tm"
  shows "mirror b tm' = mirror b tm" and "indexed b tm' = indexed b tm"
proof -
  note r = read_agree [OF assms(1)]
  have "ReadPendingTxs b (tm_db tm') = ReadPendingTxs b (tm_db tm)"
    and "ReadUnconfirmedTxs b (tm_db tm') = ReadUnconfirmedTxs b (tm_db tm)"
    and "ReadNumConfirmedRawTxs b (tm_db tm') = ReadNumConfirmedRawTxs b (tm_db tm)"
    and "ReadAddrNonce b (tm_db tm') = ReadAddrNonce b (tm_db tm)"
    and "ReadNumRawTxs b (tm_db tm') = ReadNumRawTxs b (tm_db tm)"
    and "\<And>i. ReadConfirmedTx b i (tm_db tm') = ReadConfirmedTx b i (tm_db tm)"
    by (auto intro!: r simp: side_keys_def global_keys_def)
  then show "mirror b tm' = mirror b tm" and "indexed b tm' = indexed b tm"
    using assms(2-5) by (simp_all add: mirror_def indexed_def all_raws_def nonce_of_account_def)
qed

lemma register_inv:
  assumes "register a tm = Some tm1" and "tm_inv tm" and "length (addresses tm1) < 2 ^ 64 - 1"
  shows "tm_inv tm1 \<and> a \<in> set (addresses tm1) \<and> all_raws b tm1 = all_raws b tm \<and> tm_nonce tm1 = tm_nonce tm \<and>
    ReadNumRawTxs b (tm_db tm1) = ReadNumRawTxs b (tm_db tm)"
proof (cases "a \<in> set (addresses tm)")
  case True
  then show ?thesis using assms(1,2) by (simp add: register_def indexOf_iff)
next
  case False
  let ?n = "length (addresses tm)"
  obtain db1 db2 where w: "WriteNumAddr (of_nat (?n + 1)) (tm_db tm) = Some db1" "WriteAddr (of_nat ?n) a db1 = Some db2"
    and t: "tm1 = tm\<lparr>addresses := addresses tm @ [a], tm_db := db2, confirmed := (confirmed tm)(a := []),
                 unconfirmed := (unconfirmed tm)(a := []), pending := (pending tm)(a := [])\<rparr>"
    using assms(1) False by (auto simp: register_def indexOf_iff Let_def bind_eq_Some_conv)
  have l: "listed tm" using assms(2) by (simp add: tm_inv_def)
  then have "all_raws a tm = []" using False by (simp add: listed_def)
  then have q: "confirmed tm1 = confirmed tm" "unconfirmed tm1 = unconfirmed tm" "pending tm1 = pending tm" "tm_nonce tm1 = tm_nonce tm"
    unfolding t all_raws_def by auto
  have g: "agree ({KNumAddr} \<union> {KAddr (of_nat ?n)}) (tm_db tm) (tm_db tm1)"
    using agree_trans [OF write_agree(2) [OF w(1)] write_agree(3) [OF w(2)]] t by simp
  then have side: "agree side_keys (tm_db tm) (tm_db tm1)"
    by (rule agree_mono) (auto simp: side_keys_def global_keys_def)
  have "ReadAddr (of_nat i) (tm_db tm1) = Some (addresses tm1 ! i)" if "i < ?n + 1" for i
  proof (cases "i = ?n")
    case True
    then show ?thesis using read_written_number(5) [OF w(2)] t by simp
  next
    case False
    then have "(of_nat i :: u64) \<noteq> of_nat ?n" using that assms(3) t by (subst of_nat_u64_inject) auto
    then show ?thesis using read_agree(3) [OF g, of "of_nat i"] l False that t by (auto simp: listed_def nth_append)
  qed
  moreover have "ReadNumAddr (tm_db tm1) = Some (of_nat (?n + 1))"
    using read_written_number(4) [OF w(1)] read_agree(2) [OF write_agree(3) [OF w(2)]] t by simp
  moreover have raws: "all_raws c tm1 = all_raws c tm" for c using q by (simp add: all_raws_def)
  ultimately have "listed tm1" using l False assms(3) t by (auto simp: listed_def)
  moreover have "ReadNumRawTxs b (tm_db tm1) = ReadNumRawTxs b (tm_db tm)" by (rule read_agree(5) [OF g]) simp
  moreover have "addresses tm1 = addresses tm @ [a]" using t by simp
  ultimately show ?thesis
    using assms(2) queues_same [OF side q] raws q(4) read_agree(1) [OF g] by (simp add: tm_inv_def)
qed

lemma enqueue_cases:
  assumes "enqueue a raw tm = Some tm'"
  obtains n db1 db2 q where "ReadNumRawTxs a (tm_db tm) = Some n"
    "q = pending tm a @ [raw\<lparr>rt_Index := n, rt_Nonce := sint (nonce_of_account a tm)\<rparr>]"
    "WriteNumRawTxs a (n + 1) (tm_db tm) = Some db1" "WriteAddrNonce a (nonce_of_account a tm + 1) db1 = Some db2"
    "WritePendingTxs a q db2 = Some (tm_db tm')" "tm_nonce tm' = (tm_nonce tm)(a \<mapsto> nonce_of_account a tm + 1)"
    "pending tm' = (pending tm)(a := q)" "addresses tm' = addresses tm" "confirmed tm' = confirmed tm"
    "unconfirmed tm' = unconfirmed tm"
  using assms by (auto simp: enqueue_def Let_def bind_eq_Some_conv)

lemma word_less_plus: "n + 1 \<noteq> 0 \<Longrightarrow> i \<le> n \<Longrightarrow> (i :: u64) < n + 1"
  using unatSuc [of n] by (simp add: word_less_nat_alt word_le_nat_alt add.commute)

lemma indexed_snoc:
  assumes "indexed a tm" and "ReadNumRawTxs a (tm_db tm) = Some n" and "n + 1 \<noteq> 0" and "rt_Index r = n"
    and "ReadNumRawTxs a (tm_db tm') = Some (n + 1)" and "all_raws a tm' = all_raws a tm @ [r]" and "pending tm' a = pending tm a @ [r]"
  shows "indexed a tm'"
proof -
  have lt: "\<forall>r \<in> set (all_raws a tm). rt_Index r < n" using assms(1,2) by (simp add: indexed_def)
  then have "rt_Index x < n + 1" if "x \<in> set (all_raws a tm')" for x
    using that assms(4,6) by (intro word_less_plus [OF assms(3)]) auto
  moreover have "distinct (map rt_Index (all_raws a tm'))"
    using assms(1,4,6) lt by (auto simp: indexed_def)
  moreover have "\<forall>r \<in> set (pending tm a). rt_Index r \<le> n"
    using lt by (auto simp: all_raws_def intro: less_imp_le)
  then have "sorted (map rt_Index (pending tm' a))"
    using assms(1,4,7) by (auto simp: indexed_def sorted_append)
  ultimately show ?thesis using assms(5) by (simp add: indexed_def)
qed

lemma enqueue_inv:
  assumes "enqueue a raw tm = Some tm'" and "tm_inv tm" and "a \<in> set (addresses tm)"
    and "rt_Recipient raw \<noteq> None" and "ReadNumRawTxs a (tm_db tm) \<noteq> Some (-1)"
  shows "tm_inv tm'"
  using assms(1)
proof (cases rule: enqueue_cases)
  case (1 n db1 db2 q)
  have inv: "mirror a tm" "indexed a tm" using assms(2) by (auto simp: tm_inv_def)
  have g3: "agree {KPending a} db2 (tm_db tm')" by (rule write_agree(9) [OF 1(5)])
  have g2: "agree ({KAddrNonce a} \<union> {KPending a}) db1 (tm_db tm')"
    by (rule agree_trans [OF write_agree(4) [OF 1(4)] g3])
  have g: "agree ({KNumRawTxs a} \<union> ({KAddrNonce a} \<union> {KPending a})) (tm_db tm) (tm_db tm')"
    by (rule agree_trans [OF write_agree(5) [OF 1(3)] g2])
  have raws: "all_raws a tm' = confirmed tm a @ unconfirmed tm a @ q" using 1 by (simp add: all_raws_def)
  have ok: "list_all raw_ok (all_raws a tm)" using inv by (simp add: mirror_def)
  have "\<forall>r \<in> set q. rt_Recipient r \<noteq> None"
    using ok assms(4) 1(2) by (auto simp: all_raws_def list_all_iff raw_ok_def)
  then have qok: "list_all raw_ok q" by (rule WritePendingTxs_ok [OF 1(5)])
  then have p: "ReadPendingTxs a (tm_db tm') = Some q" by (rule read_written_queue(1) [OF 1(5)])
  have nn: "ReadAddrNonce a (tm_db tm') = Some (nonce_of_account a tm + 1)"
    using read_agree(4) [OF g3] read_written_number(3) [OF 1(4)] by simp
  have "mirror a tm'"
    using inv(1) p nn qok ok raws 1 read_agree(6,7,8) [OF g]
    by (simp add: mirror_def nonce_of_account_def all_raws_def)
  moreover have "indexed a tm'"
  proof (rule indexed_snoc [OF inv(2) 1(1)])
    show "ReadNumRawTxs a (tm_db tm') = Some (n + 1)"
      using read_agree(5) [OF g2] read_written_number(1) [OF 1(3)] by simp
    show "n + 1 \<noteq> 0" using assms(5) 1(1) by (metis add_eq_0_iff2)
  qed (use raws 1(2,7) in \<open>simp_all add: all_raws_def\<close>)
  ultimately show ?thesis
  proof (rule tm_inv_step [OF assms(2)])
    show "agree (keys_of a \<union> {KGasPrice}) (tm_db tm) (tm_db tm')" using g by (rule agree_mono) simp
  qed (use 1 assms(3) read_agree(1) [OF g] in \<open>simp_all add: others_same_def\<close>)
qed

lemma enqueue_frame:
  assumes "enqueue a raw tm = Some tm'"
  shows "addresses tm' = addresses tm" and "others_same a tm tm'"
    and "\<exists>r. all_raws a tm' = all_raws a tm @ [r] \<and> rt_Payload r = rt_Payload raw"
    and "agree {KNumRawTxs a, KAddrNonce a, KPending a} (tm_db tm) (tm_db tm')"
  using assms
proof (atomize(full), cases rule: enqueue_cases)
  case (1 n db1 db2 q)
  have "agree ({KNumRawTxs a} \<union> ({KAddrNonce a} \<union> {KPending a})) (tm_db tm) (tm_db tm')"
    by (rule agree_trans [OF write_agree(5) [OF 1(3)] agree_trans [OF write_agree(4) [OF 1(4)] write_agree(9) [OF 1(5)]]])
  then show "(addresses tm' = addresses tm \<and> others_same a tm tm') \<and>
      (\<exists>r. all_raws a tm' = all_raws a tm @ [r] \<and> rt_Payload r = rt_Payload raw) \<and>
      agree {KNumRawTxs a, KAddrNonce a, KPending a} (tm_db tm) (tm_db tm')"
    using 1 by (auto simp: others_same_def all_raws_def insert_commute)
qed

lemma Add_inv:
  assumes "Add keccak HasAddress a raw dup tm = Some (e, tm')" and "tm_inv tm"
    and "length (addresses tm') < 2 ^ 64 - 1" and "ReadNumRawTxs a (tm_db tm) \<noteq> Some (-1)"
  shows "tm_inv tm'"
proof (cases "HasAddress a")
  case True
  then obtain tm1 h previous where r: "register a tm = Some tm1" and h: "raw_Hash keccak raw = Some h"
    using assms(1) by (auto simp: Add_def bind_eq_Some_conv)
  have rec: "rt_Recipient raw \<noteq> None" using h by (auto simp: raw_Hash_def split: option.splits)
  consider "tm' = tm1" | db where "WriteRawTxHash keccak a raw (tm_db tm1) = Some db" "enqueue a raw (tm1\<lparr>tm_db := db\<rparr>) = Some tm'"
    | "enqueue a raw tm1 = Some tm'"
    using assms(1) True r h by (auto simp: Add_def bind_eq_Some_conv split: if_splits)
  then show ?thesis
  proof cases
    case 1
    then show ?thesis using register_inv [OF r assms(2)] assms(3) by simp
  next
    case (2 db)
    have l: "length (addresses tm1) < 2 ^ 64 - 1" using enqueue_frame(1) [OF 2(2)] assms(3) by simp
    note r1 = register_inv [OF r assms(2) l, of a]
    have g: "agree (range (KRawHash a)) (tm_db tm1) db" by (rule WriteRawTxHash_agree [OF 2(1)])
    then have side: "agree side_keys (tm_db tm1) db" by (rule agree_mono) (auto simp: side_keys_def)
    have "ReadNumAddr db = ReadNumAddr (tm_db tm1)" "ReadAddr i db = ReadAddr i (tm_db tm1)"
      "ReadGasPrice db = ReadGasPrice (tm_db tm1)" for i
      by (auto intro!: read_agree(1-3) [OF g])
    then have "tm_inv (tm1\<lparr>tm_db := db\<rparr>)"
      using r1 queues_same [of tm1 "tm1\<lparr>tm_db := db\<rparr>"] side by (simp add: tm_inv_def listed_def all_raws_def)
    moreover have "ReadNumRawTxs a db = ReadNumRawTxs a (tm_db tm1)" by (rule read_agree(5) [OF g]) auto
    ultimately show ?thesis
      using r1 assms(4) rec by (intro enqueue_inv [OF 2(2)]) auto
  next
    case 3
    have l: "length (addresses tm1) < 2 ^ 64 - 1" using enqueue_frame(1) [OF 3] assms(3) by simp
    show ?thesis using register_inv [OF r assms(2) l, of a] assms(4) rec by (intro enqueue_inv [OF 3]) auto
  qed
qed (use assms in \<open>simp add: Add_def\<close>)

end
