(* ===== verification/Tx_Signing.thy ===== *)
theory Tx_Signing
  imports Tx_Types
begin

text \<open>
  Signatures of transactions (\<^verbatim>\<open>src/core/types/transaction_signing.go\<close>): the three signers, signing,
  and the recovery of the sender with its cache. The curve (\<^verbatim>\<open>crypto.Sign\<close>, \<^verbatim>\<open>crypto.Ecrecover\<close>) and
  the hash are arguments of the model; a private key is the function that signs with it.
\<close>

section \<open>Signers\<close>

datatype Signer = EIP155Signer int | HomesteadSigner | FrontierSigner

datatype sigError = ErrInvalidSig | ErrInvalidChainId | ErrSign | ErrEcrecover | ErrInvalidPublicKey | ErrLocked

text \<open>The hash to be signed: of a list of fields, with the chain identifier under EIP 155.\<close>

definition signer_items :: "Signer \<Rightarrow> Transaction \<Rightarrow> item list" where
  "signer_items s t =
     [UInt (AccountNonce t), BigInt (Price t), UInt (tx_GasLimit t), opt_addr (tx_Recipient t), BigInt (tx_Amount t),
      Str (tx_Payload t)] @
     (case s of EIP155Signer c \<Rightarrow> [BigInt c, UInt 0, UInt 0] | _ \<Rightarrow> [])"

definition signer_Hash :: "(bytes \<Rightarrow> hash) \<Rightarrow> Signer \<Rightarrow> Transaction \<Rightarrow> hash" where
  "signer_Hash keccak s t = keccak (case EncodeToBytes (Lst (signer_items s t)) of Some b \<Rightarrow> b | None \<Rightarrow> [])"

definition SignatureLength :: nat where "SignatureLength = 65"

text \<open>A signature of the wrong size panics. The sums with the recovery byte are sums of bytes.\<close>

definition SignatureValues :: "Signer \<Rightarrow> bytes \<Rightarrow> (int \<times> int \<times> int) option" where
  "SignatureValues s sig =
     (if length sig \<noteq> SignatureLength then None
      else
        let r = int (from_be (take 32 sig)); s' = int (from_be (take 32 (drop 32 sig)))
        in case s of
             EIP155Signer c \<Rightarrow>
               Some (r, s', if c \<noteq> 0 then int (unat (sig ! 64 + 35)) + c * 2 else int (unat (sig ! 64 + 27)))
           | _ \<Rightarrow> Some (r, s', int (unat (sig ! 64 + 27))))"

definition MainnetChainId :: int where "MainnetChainId = 16"

definition WithSignature :: "Signer \<Rightarrow> bytes \<Rightarrow> Transaction \<Rightarrow> Transaction option" where
  "WithSignature s sig t =
     (if length sig = 0 then Some (t\<lparr>tx_V := MainnetChainId + 27\<rparr>)
      else case SignatureValues s sig of
             None \<Rightarrow> None
           | Some (r, s', v) \<Rightarrow> Some (t\<lparr>tx_R := r, tx_S := s', tx_V := v\<rparr>))"

text \<open>The key of the null address is the nil pointer: its transactions carry no signature.\<close>

type_synonym key = "hash \<Rightarrow> bytes option"

definition SignTx :: "(bytes \<Rightarrow> hash) \<Rightarrow> Transaction \<Rightarrow> Signer \<Rightarrow> key option \<Rightarrow> (sigError + Transaction) option" where
  "SignTx keccak t s prv =
     (case prv of
        None \<Rightarrow> Some (Inr (t\<lparr>tx_V := 0, tx_R := 0, tx_S := 0\<rparr>))
      | Some k \<Rightarrow>
          (case k (signer_Hash keccak s t) of
             None \<Rightarrow> Some (Inl ErrSign)
           | Some sig \<Rightarrow> map_option Inr (WithSignature s sig t)))"

definition ks_SignTx :: "(bytes \<Rightarrow> hash) \<Rightarrow> (address \<rightharpoonup> key) \<Rightarrow> address \<Rightarrow> Transaction \<Rightarrow> int option \<Rightarrow>
    (sigError + Transaction) option" where
  "ks_SignTx keccak unlocked a t chainID =
     (if a = NullAddress then SignTx keccak t HomesteadSigner None
      else case unlocked a of
             None \<Rightarrow> Some (Inl ErrLocked)
           | Some k \<Rightarrow>
               (case chainID of
                  Some c \<Rightarrow> SignTx keccak t (EIP155Signer c) (Some k)
                | None \<Rightarrow> SignTx keccak t HomesteadSigner (Some k)))"

section \<open>The sender\<close>

fun bit_length :: "nat \<Rightarrow> nat" where
  "bit_length n = (if n = 0 then 0 else Suc (bit_length (n div 2)))"

declare bit_length.simps [simp del]

definition BitLen :: "int \<Rightarrow> nat" where
  "BitLen x = bit_length (nat \<bar>x\<bar>)"

text \<open>\<^verbatim>\<open>big.Int.Uint64\<close>: the low 64 bits of the absolute value.\<close>

definition big_Uint64 :: "int \<Rightarrow> u64" where
  "big_Uint64 x = of_nat (nat \<bar>x\<bar>)"

definition isProtectedV :: "int \<Rightarrow> bool" where
  "isProtectedV V = (if BitLen V \<le> 8 then big_Uint64 V \<noteq> 27 \<and> big_Uint64 V \<noteq> 28 else True)"

definition deriveChainId :: "int \<Rightarrow> int" where
  "deriveChainId v =
     (if BitLen v \<le> 64
      then let w = big_Uint64 v in if w = 27 \<or> w = 28 then 0 else int (unat ((w - 35) div 2))
      else (v - 35) div 2)"

definition ChainId :: "Transaction \<Rightarrow> int" where
  "ChainId t = deriveChainId (tx_V t)"

definition Protected :: "Transaction \<Rightarrow> bool" where
  "Protected t = isProtectedV (tx_V t)"

definition secp256k1N :: int where
  "secp256k1N = 0xfffffffffffffffffffffffffffffffebaaedce6af48a03bbfd25e8cd0364141"

definition secp256k1halfN :: int where "secp256k1halfN = secp256k1N div 2"

definition ValidateSignatureValues :: "byte \<Rightarrow> int \<Rightarrow> int \<Rightarrow> bool \<Rightarrow> bool" where
  "ValidateSignatureValues v r s homestead =
     (if r < 1 \<or> s < 1 then False
      else if homestead \<and> s > secp256k1halfN then False
      else r < secp256k1N \<and> s < secp256k1N \<and> (v = 0 \<or> v = 1))"

text \<open>The numbers are copied to the right of their 32 bytes.\<close>

definition pad32 :: "bytes \<Rightarrow> bytes" where
  "pad32 b = replicate (32 - length b) 0 @ b"

type_synonym ecrecover = "hash \<Rightarrow> bytes \<Rightarrow> bytes option"

definition pubkey_address :: "(bytes \<Rightarrow> hash) \<Rightarrow> bytes \<Rightarrow> address" where
  "pubkey_address keccak pub = bytes_to_address (drop 12 (hash_bytes (keccak (drop 1 pub))))"

definition recoverPlain :: "(bytes \<Rightarrow> hash) \<Rightarrow> ecrecover \<Rightarrow> hash \<Rightarrow> int \<Rightarrow> int \<Rightarrow> int \<Rightarrow> bool \<Rightarrow> sigError + address" where
  "recoverPlain keccak Ecrecover sighash R S Vb homestead =
     (if BitLen Vb > 8 then Inl ErrInvalidSig
      else
        let V = ucast (big_Uint64 Vb - 27) :: byte
        in if \<not> ValidateSignatureValues V R S homestead then Inl ErrInvalidSig
           else case Ecrecover sighash (pad32 (big_Bytes (nat R)) @ pad32 (big_Bytes (nat S)) @ [V]) of
                  None \<Rightarrow> Inl ErrEcrecover
                | Some pub \<Rightarrow>
                    if length pub = 0 \<or> pub ! 0 \<noteq> 4 then Inl ErrInvalidPublicKey
                    else Inr (pubkey_address keccak pub))"

fun signer_Sender :: "(bytes \<Rightarrow> hash) \<Rightarrow> ecrecover \<Rightarrow> Signer \<Rightarrow> Transaction \<Rightarrow> sigError + address" where
  "signer_Sender keccak Ecrecover FrontierSigner t =
     recoverPlain keccak Ecrecover (signer_Hash keccak FrontierSigner t) (tx_R t) (tx_S t) (tx_V t) False"
| "signer_Sender keccak Ecrecover HomesteadSigner t =
     recoverPlain keccak Ecrecover (signer_Hash keccak HomesteadSigner t) (tx_R t) (tx_S t) (tx_V t) True"
| "signer_Sender keccak Ecrecover (EIP155Signer c) t =
     (if \<not> Protected t
      then recoverPlain keccak Ecrecover (signer_Hash keccak HomesteadSigner t) (tx_R t) (tx_S t) (tx_V t) True
      else if tx_V t = 0 \<and> tx_R t = 0 \<and> tx_S t = 0 then Inr NullAddress
      else if ChainId t \<noteq> c then Inl ErrInvalidChainId
      else recoverPlain keccak Ecrecover (signer_Hash keccak (EIP155Signer c) t) (tx_R t) (tx_S t) (tx_V t - c * 2 - 8) True)"

section \<open>Caches\<close>

text \<open>
  A transaction object keeps its hash, its size and the last sender it was asked for, with the
  signer, beside its data.
\<close>

type_synonym sigCache = "(Signer \<times> address) option"

record TxObject =
  ob_data :: Transaction
  ob_hash :: "hash option"
  ob_size :: "nat option"
  ob_from :: sigCache

definition fresh :: "Transaction \<Rightarrow> TxObject" where
  "fresh t = \<lparr>ob_data = t, ob_hash = None, ob_size = None, ob_from = None\<rparr>"

definition ob_Hash :: "(bytes \<Rightarrow> hash) \<Rightarrow> TxObject \<Rightarrow> hash \<times> TxObject" where
  "ob_Hash keccak ob =
     (case ob_hash ob of
        Some h \<Rightarrow> (h, ob)
      | None \<Rightarrow> let v = tx_Hash keccak (ob_data ob) in (v, ob\<lparr>ob_hash := Some v\<rparr>))"

definition ob_Size :: "TxObject \<Rightarrow> nat \<times> TxObject" where
  "ob_Size ob =
     (case ob_size ob of
        Some n \<Rightarrow> (n, ob)
      | None \<Rightarrow>
          let c = (case EncodeToBytes (item_of_tx (ob_data ob)) of Some b \<Rightarrow> length b | None \<Rightarrow> 0)
          in (c, ob\<lparr>ob_size := Some c\<rparr>))"

definition Sender :: "(bytes \<Rightarrow> hash) \<Rightarrow> ecrecover \<Rightarrow> Signer \<Rightarrow> TxObject \<Rightarrow> (sigError + address) \<times> TxObject" where
  "Sender keccak Ecrecover signer ob =
     (let derive = (case signer_Sender keccak Ecrecover signer (ob_data ob) of
                      Inl e \<Rightarrow> (Inl e, ob)
                    | Inr addr \<Rightarrow> (Inr addr, ob\<lparr>ob_from := Some (signer, addr)\<rparr>))
      in case ob_from ob of
           Some (s, addr) \<Rightarrow> if s = signer then (Inr addr, ob) else derive
         | None \<Rightarrow> derive)"

text \<open>
  Signing as a change of the object: the null key writes zeros into the object it was given and
  leaves the caches alone, a real key returns a new object.
\<close>

definition ob_SignTx :: "(bytes \<Rightarrow> hash) \<Rightarrow> TxObject \<Rightarrow> Signer \<Rightarrow> key option \<Rightarrow> (sigError + TxObject) option" where
  "ob_SignTx keccak ob s prv =
     (case prv of
        None \<Rightarrow> map_option (map_sum (\<lambda>e. e) (\<lambda>t. ob\<lparr>ob_data := t\<rparr>)) (SignTx keccak (ob_data ob) s None)
      | Some k \<Rightarrow> map_option (map_sum (\<lambda>e. e) fresh) (SignTx keccak (ob_data ob) s (Some k)))"

section \<open>Numbers\<close>

lemma bit_length_le: "bit_length n \<le> k \<longleftrightarrow> n < 2 ^ k"
proof (induction n arbitrary: k rule: bit_length.induct)
  case (1 n)
  show ?case
  proof (cases "n = 0 \<or> k = 0")
    case True
    then show ?thesis by (auto simp: bit_length.simps [of n])
  next
    case False
    then have "bit_length n \<le> k \<longleftrightarrow> bit_length (n div 2) \<le> k - 1" by (subst bit_length.simps) (simp add: Suc_le_eq less_eq_Suc_le [symmetric] le_diff_conv2)
    also have "\<dots> \<longleftrightarrow> n div 2 < 2 ^ (k - 1)" using 1 False by simp
    also have "\<dots> \<longleftrightarrow> n < 2 * 2 ^ (k - 1)" by (simp add: div_less_iff_less_mult mult.commute)
    finally show ?thesis using False by (simp add: power_eq_if)
  qed
qed

lemma BitLen_le: "BitLen x \<le> k \<longleftrightarrow> \<bar>x\<bar> < 2 ^ k"
  unfolding BitLen_def bit_length_le by (simp add: nat_less_iff)

lemma big_Uint64_nat: "0 \<le> x \<Longrightarrow> x < 2 ^ 64 \<Longrightarrow> unat (big_Uint64 x) = nat x"
  using unat_of_nat_eq_u64 [of "nat x"] by (simp add: big_Uint64_def nat_less_iff)

lemma pad32_from_be:
  assumes "length b = 32"
  shows "pad32 (big_Bytes (from_be b)) = b"
proof -
  let ?z = "takeWhile (\<lambda>x. x = 0) b" and ?r = "dropWhile (\<lambda>x. x = 0) b"
  have z: "?z = replicate (length ?z) 0" by (rule replicate_eqI) (auto dest: set_takeWhileD)
  have "from_be (replicate n 0 @ r) = from_be r" for n r by (induction n) (simp_all add: from_be_def)
  from this [of "length ?z" ?r] have "from_be b = from_be ?r" unfolding z [symmetric] by simp
  moreover have "?r = [] \<or> ?r ! 0 \<noteq> 0" using hd_dropWhile [of "\<lambda>x. x = 0" b] by (auto simp: hd_conv_nth)
  ultimately have r: "big_Bytes (from_be b) = ?r" using big_Bytes_from_be [of ?r] by simp
  have "length ?z + length ?r = 32"
    using assms by (metis length_append takeWhile_dropWhile_id)
  then have "32 - length ?r = length ?z" by simp
  then have "pad32 ?r = ?z @ ?r" unfolding pad32_def using z by metis
  then show ?thesis unfolding r by simp
qed

lemma Protected_high: "28 < v \<Longrightarrow> isProtectedV v"
proof -
  assume v: "28 < v"
  have "unat (big_Uint64 v) = nat v" if "BitLen v \<le> 8"
    using that v by (intro big_Uint64_nat) (auto simp: BitLen_le)
  then show ?thesis using v by (auto simp: isProtectedV_def)
qed

lemma deriveChainId_sum:
  assumes "0 \<le> c" and "b = 0 \<or> b = 1"
  shows "deriveChainId (35 + b + c * 2) = c"
proof (cases "BitLen (35 + b + c * 2) \<le> 64")
  case True
  let ?v = "35 + b + c * 2" and ?w = "big_Uint64 (35 + b + c * 2)"
  have u: "unat ?w = nat ?v" using True assms by (intro big_Uint64_nat) (auto simp: BitLen_le)
  have "35 \<le> ?w" using u assms by (auto simp: word_le_nat_alt)
  then have "unat ((?w - 35) div 2) = (nat ?v - 35) div 2"
    by (simp add: unat_div unat_sub u)
  moreover have "int ((nat ?v - 35) div 2) = c" using assms by (auto simp: zdiv_int)
  moreover have "?w \<noteq> 27" "?w \<noteq> 28" using u assms by auto
  ultimately show ?thesis using True by (simp add: deriveChainId_def Let_def)
next
  case False
  then show ?thesis using assms by (auto simp: deriveChainId_def)
qed

section \<open>Signing and recovering\<close>

text \<open>
  What the curve promises for a key with the uncompressed public key \<open>pub\<close>: its signatures have
  65 bytes with numbers in the accepted range, and the public key is recovered from them.
\<close>

definition key_ok :: "ecrecover \<Rightarrow> key \<Rightarrow> bytes \<Rightarrow> bool" where
  "key_ok Ecrecover k pub \<longleftrightarrow>
     length pub = 65 \<and> pub ! 0 = 4 \<and>
     (\<forall>h sig. k h = Some sig \<longrightarrow>
        length sig = SignatureLength \<and>
        ValidateSignatureValues (sig ! 64) (int (from_be (take 32 sig))) (int (from_be (take 32 (drop 32 sig)))) True \<and>
        Ecrecover h sig = Some pub)"

lemma split_signature:
  assumes "length sig = 65"
  shows "take 32 sig @ take 32 (drop 32 sig) @ [sig ! 64] = sig"
proof -
  have "drop 64 sig = [sig ! 64]" using assms by (simp add: list_eq_iff_nth_eq)
  then show ?thesis by (metis append_take_drop_id drop_drop numeral_Bit0)
qed

lemma recoverPlain_signature:
  assumes "key_ok Ecrecover k pub" and "k h = Some sig"
  shows "recoverPlain keccak Ecrecover h (int (from_be (take 32 sig))) (int (from_be (take 32 (drop 32 sig))))
    (int (unat (sig ! 64)) + 27) True = Inr (pubkey_address keccak pub)"
proof -
  have l: "length sig = 65" and v: "ValidateSignatureValues (sig ! 64) (int (from_be (take 32 sig))) (int (from_be (take 32 (drop 32 sig)))) True"
    and e: "Ecrecover h sig = Some pub" and p: "length pub = 65" "pub ! 0 = 4"
    using assms by (auto simp: key_ok_def SignatureLength_def)
  have b: "sig ! 64 = 0 \<or> sig ! 64 = 1" using v by (auto simp: ValidateSignatureValues_def split: if_splits)
  then have "ucast (big_Uint64 (int (unat (sig ! 64)) + 27) - 27) = sig ! 64"
    by (auto simp: big_Uint64_def)
  moreover have "\<not> BitLen (int (unat (sig ! 64)) + 27) > 8" using b by (auto simp: not_less BitLen_le)
  moreover have "pad32 (big_Bytes (from_be (take 32 sig))) @ pad32 (big_Bytes (from_be (take 32 (drop 32 sig)))) @ [sig ! 64] = sig"
    using l split_signature [OF l] by (simp add: pad32_from_be)
  ultimately show ?thesis using v e p by (auto simp: recoverPlain_def Let_def)
qed

lemma signer_Hash_unsigned [simp]:
  "signer_Hash keccak s (t\<lparr>tx_R := r, tx_S := s', tx_V := v\<rparr>) = signer_Hash keccak s t"
  by (simp add: signer_Hash_def signer_items_def)

lemma SignTx_cases:
  assumes "key_ok Ecrecover k pub" and "1 \<le> c" and "SignTx keccak t (EIP155Signer c) (Some k) = Some (Inr t')"
  obtains sig where "k (signer_Hash keccak (EIP155Signer c) t) = Some sig" "sig ! 64 = 0 \<or> sig ! 64 = 1"
    "1 \<le> from_be (take 32 sig)"
    "t' = t\<lparr>tx_R := int (from_be (take 32 sig)), tx_S := int (from_be (take 32 (drop 32 sig))),
            tx_V := 35 + int (unat (sig ! 64)) + c * 2\<rparr>"
proof -
  obtain sig where k: "k (signer_Hash keccak (EIP155Signer c) t) = Some sig"
    and w: "WithSignature (EIP155Signer c) sig t = Some t'"
    using assms(3) by (auto simp: SignTx_def split: option.splits)
  have l: "length sig = SignatureLength"
    and v: "ValidateSignatureValues (sig ! 64) (int (from_be (take 32 sig))) (int (from_be (take 32 (drop 32 sig)))) True"
    using assms(1) k by (auto simp: key_ok_def)
  then have b: "sig ! 64 = 0 \<or> sig ! 64 = 1" and r: "1 \<le> from_be (take 32 sig)"
    by (auto simp: ValidateSignatureValues_def split: if_splits)
  then have "int (unat (sig ! 64 + 35)) = 35 + int (unat (sig ! 64))" by auto
  then show thesis
    using that [OF k b r] w l assms(2) by (auto simp: WithSignature_def SignatureValues_def SignatureLength_def Let_def)
qed

lemma SignTx_sender_of_key:
  assumes "key_ok Ecrecover k pub" and "1 \<le> c" and "SignTx keccak t (EIP155Signer c) (Some k) = Some (Inr t')"
  shows "signer_Sender keccak Ecrecover (EIP155Signer c) t' = Inr (pubkey_address keccak pub) \<and>
    (\<forall>c'. c' \<noteq> c \<longrightarrow> signer_Sender keccak Ecrecover (EIP155Signer c') t' = Inl ErrInvalidChainId)"
  using assms
proof (cases rule: SignTx_cases)
  case (1 sig)
  let ?b = "int (unat (sig ! 64))"
  have b: "?b = 0 \<or> ?b = 1" using 1(2) by auto
  have "Protected t'" "ChainId t' = c"
    using 1(4) assms(2) b Protected_high [of "35 + ?b + c * 2"] deriveChainId_sum [of c ?b]
    by (auto simp: Protected_def ChainId_def)
  moreover have "tx_R t' \<noteq> 0" using 1(3,4) by simp
  ultimately show ?thesis
    using recoverPlain_signature [OF assms(1) 1(1), of keccak] 1(4) by (simp add: add.commute)
qed

text \<open>
  C24. A transaction signed under EIP 155 with an unlocked key has the address of the key as its
  sender under the same chain identifier, and is refused under every other one.
\<close>

theorem SignTx_Sender:
  assumes "key_ok Ecrecover k pub" and "1 \<le> c" and "SignTx keccak t (EIP155Signer c) (Some k) = Some (Inr t')"
  shows "signer_Sender keccak Ecrecover (EIP155Signer c) t' = Inr (pubkey_address keccak pub) \<and>
    (\<forall>c'. c' \<noteq> c \<longrightarrow> signer_Sender keccak Ecrecover (EIP155Signer c') t' = Inl ErrInvalidChainId)"
  using assms by (rule SignTx_sender_of_key)

definition key0 :: key where
  "key0 h = Some (be_bytes 32 1 @ be_bytes 32 1 @ [0])"

definition pub0 :: bytes where
  "pub0 = 4 # replicate 64 0"

lemma key0_ok: "key_ok (\<lambda>h sig. Some pub0) key0 pub0"
  by (simp add: key_ok_def key0_def pub0_def SignatureLength_def ValidateSignatureValues_def from_be_be_bytes
      secp256k1halfN_def secp256k1N_def nth_append)

theorem SignTx_Sender_witness:
  "\<exists>t'. SignTx (\<lambda>b. 77) (NewTransaction 0 9 5 21000 1 []) (EIP155Signer 16) (Some key0) = Some (Inr t') \<and>
     signer_Sender (\<lambda>b. 77) (\<lambda>h sig. Some pub0) (EIP155Signer 16) t' = Inr 77 \<and>
     signer_Sender (\<lambda>b. 77) (\<lambda>h sig. Some pub0) (EIP155Signer 1) t' = Inl ErrInvalidChainId"
proof -
  obtain t' where t: "SignTx (\<lambda>b. 77) (NewTransaction 0 9 5 21000 1 []) (EIP155Signer 16) (Some key0) = Some (Inr t')"
    by (auto simp: SignTx_def key0_def WithSignature_def SignatureValues_def SignatureLength_def Let_def)
  moreover have "pubkey_address (\<lambda>b. 77) pub0 = 77"
    by code_simp
  ultimately show ?thesis
    using SignTx_Sender [OF key0_ok _ t] by auto
qed

section \<open>Which sender a signer answers\<close>

text \<open>
  \<open>sig_by keccak Ecrecover h t b low a\<close>: the numbers \<open>R\<close> and \<open>S\<close> of the transaction are in range
  (\<open>S\<close> in the lower half if \<open>low\<close>), and with the recovery bit \<open>b\<close> they are a signature of \<open>h\<close>
  from which the curve recovers an uncompressed public key with the address \<open>a\<close>.
\<close>

definition sig_by :: "(bytes \<Rightarrow> hash) \<Rightarrow> ecrecover \<Rightarrow> hash \<Rightarrow> Transaction \<Rightarrow> nat \<Rightarrow> bool \<Rightarrow> address \<Rightarrow> bool" where
  "sig_by keccak Ecrecover h t b low a \<longleftrightarrow>
     b < 2 \<and> 1 \<le> tx_R t \<and> tx_R t < secp256k1N \<and> 1 \<le> tx_S t \<and> tx_S t < secp256k1N \<and>
     (low \<longrightarrow> tx_S t \<le> secp256k1halfN) \<and>
     (\<exists>pub. Ecrecover h (pad32 (big_Bytes (nat (tx_R t))) @ pad32 (big_Bytes (nat (tx_S t))) @ [of_nat b]) = Some pub \<and>
            pub \<noteq> [] \<and> pub ! 0 = 4 \<and> a = pubkey_address keccak pub)"

lemma ucast_byte_of_nat: "(ucast (of_nat n - 27 :: u64) :: byte) = of_nat n - 27"
proof -
  have "of_nat n - 27 = (word_of_int (int n - 27) :: u64)" "of_nat n - 27 = (word_of_int (int n - 27) :: byte)" by simp_all
  moreover have "(ucast (word_of_int k :: u64) :: byte) = word_of_int k" for k :: int
    by transfer (simp add: take_bit_take_bit)
  ultimately show ?thesis by metis
qed

lemma recovery_byte:
  assumes "\<bar>v\<bar> < 256" "b < 2"
  shows "ucast (big_Uint64 v - 27) = (of_nat b :: byte) \<longleftrightarrow> \<bar>v\<bar> = 27 + int b"
proof -
  define n where "n = nat \<bar>v\<bar>"
  have n: "\<bar>v\<bar> = int n" "n < 256" using assms(1) by (auto simp: n_def)
  have "(ucast (big_Uint64 v - 27) :: byte) = of_nat n - 27"
    unfolding big_Uint64_def n_def [symmetric] by (rule ucast_byte_of_nat)
  moreover have "(of_nat n - 27 = (of_nat b :: byte)) \<longleftrightarrow> (of_nat n = (of_nat (27 + b) :: byte))"
    by (simp add: diff_eq_eq add.commute)
  moreover have "\<dots> \<longleftrightarrow> n = 27 + b"
    using n(2) assms(2) by (simp add: word_unat_eq_iff unat_of_nat del: of_nat_add)
  ultimately show ?thesis using n(1) by auto
qed

lemma recoverPlain_iff:
  "recoverPlain keccak Ecrecover h (tx_R t) (tx_S t) v low = Inr a \<longleftrightarrow>
     (\<exists>b. \<bar>v\<bar> = 27 + int b \<and> sig_by keccak Ecrecover h t b low a)"
proof (cases "\<bar>v\<bar> < 256")
  case False
  then show ?thesis by (auto simp: recoverPlain_def BitLen_le not_less sig_by_def not_le)
next
  case True
  define w :: byte where "w = ucast (big_Uint64 v - 27)"
  have rb: "w = of_nat b \<longleftrightarrow> \<bar>v\<bar> = 27 + int b" if "b < 2" for b
    unfolding w_def by (rule recovery_byte [OF True that])
  let ?core = "\<lambda>w. 1 \<le> tx_R t \<and> tx_R t < secp256k1N \<and> 1 \<le> tx_S t \<and> tx_S t < secp256k1N \<and> (low \<longrightarrow> tx_S t \<le> secp256k1halfN) \<and>
     (\<exists>pub. Ecrecover h (pad32 (big_Bytes (nat (tx_R t))) @ pad32 (big_Bytes (nat (tx_S t))) @ [w]) = Some pub \<and>
            pub \<noteq> [] \<and> pub ! 0 = 4 \<and> a = pubkey_address keccak pub)"
  have "ValidateSignatureValues w (tx_R t) (tx_S t) low \<longleftrightarrow> (\<exists>b < 2. w = of_nat b) \<and>
      1 \<le> tx_R t \<and> tx_R t < secp256k1N \<and> 1 \<le> tx_S t \<and> tx_S t < secp256k1N \<and> (low \<longrightarrow> tx_S t \<le> secp256k1halfN)"
    by (auto simp: ValidateSignatureValues_def numeral_2_eq_2 less_Suc_eq)
  moreover have "recoverPlain keccak Ecrecover h (tx_R t) (tx_S t) v low =
      (if \<not> ValidateSignatureValues w (tx_R t) (tx_S t) low then Inl ErrInvalidSig
       else case Ecrecover h (pad32 (big_Bytes (nat (tx_R t))) @ pad32 (big_Bytes (nat (tx_S t))) @ [w]) of
              None \<Rightarrow> Inl ErrEcrecover
            | Some pub \<Rightarrow> if length pub = 0 \<or> pub ! 0 \<noteq> 4 then Inl ErrInvalidPublicKey else Inr (pubkey_address keccak pub))"
    using True BitLen_le [of v 8] unfolding recoverPlain_def Let_def w_def [symmetric] by simp
  ultimately have "recoverPlain keccak Ecrecover h (tx_R t) (tx_S t) v low = Inr a \<longleftrightarrow> (\<exists>b < 2. w = of_nat b) \<and> ?core w"
    by (auto split: option.splits)
  also have "\<dots> \<longleftrightarrow> (\<exists>b. \<bar>v\<bar> = 27 + int b \<and> b < 2 \<and> ?core (of_nat b))" using rb by blast
  finally show ?thesis unfolding sig_by_def .
qed

lemma isProtectedV_iff: "isProtectedV v \<longleftrightarrow> \<bar>v\<bar> \<noteq> 27 \<and> \<bar>v\<bar> \<noteq> 28"
proof (cases "\<bar>v\<bar> < 256")
  case True
  then have "nat \<bar>v\<bar> < 2 ^ 64" by simp
  then have "unat (big_Uint64 v) = nat \<bar>v\<bar>" unfolding big_Uint64_def by (rule unat_of_nat_eq_u64)
  with True show ?thesis by (auto simp: isProtectedV_def BitLen_le word_unat_eq_iff)
qed (auto simp: isProtectedV_def BitLen_le)

text \<open>The chain identifier and the recovery bit determine the number \<open>V\<close> of EIP 155, and conversely.\<close>

lemma deriveChainId_low:
  assumes "0 \<le> v" "0 \<le> c" "v \<le> c * 2 - 19" "c * 2 - 20 \<le> v"
  shows "deriveChainId v \<noteq> c"
proof (cases "BitLen v \<le> 64")
  case False
  then show ?thesis using assms by (simp add: deriveChainId_def)
next
  case True
  let ?w = "big_Uint64 v"
  have w: "unat ?w = nat v" using True assms(1) by (intro big_Uint64_nat) (simp_all add: BitLen_le)
  have *: "int (unat ((?w - 35) div 2)) \<noteq> c"
  proof (cases "35 \<le> v")
    case True
    then have "unat (?w - 35) = nat v - 35" using w by (simp add: unat_sub word_le_nat_alt)
    then show ?thesis using assms by (simp add: unat_div)
  next
    case False
    then have "unat (?w - 35) = 2 ^ 64 - 35 + nat v"
      using w by (simp add: unat_sub_if_size word_size)
    then show ?thesis using False assms by (simp add: unat_div)
  qed
  then show ?thesis using True assms by (auto simp: deriveChainId_def Let_def)
qed

lemma deriveChainId_iff:
  assumes "0 \<le> v" "0 \<le> c" "b < 2"
  shows "isProtectedV v \<and> deriveChainId v = c \<and> \<bar>v - c * 2 - 8\<bar> = 27 + int b \<longleftrightarrow> v = 35 + int b + c * 2"
proof
  assume l: "isProtectedV v \<and> deriveChainId v = c \<and> \<bar>v - c * 2 - 8\<bar> = 27 + int b"
  then have "v = 35 + int b + c * 2 \<or> v = c * 2 - 19 - int b" by linarith
  then show "v = 35 + int b + c * 2" using deriveChainId_low [of v c] l assms by auto
next
  assume v: "v = 35 + int b + c * 2"
  then have "deriveChainId v = c" using deriveChainId_sum [of c "int b"] assms by (simp add: numeral_2_eq_2 less_Suc_eq)
  then show "isProtectedV v \<and> deriveChainId v = c \<and> \<bar>v - c * 2 - 8\<bar> = 27 + int b"
    using v assms(2) by (simp add: isProtectedV_iff)
qed

text \<open>
  C24. The answers of the three signers, exactly, for a transaction whose \<open>V\<close> is not negative and
  a chain identifier that is not negative. Each signer names \<open>a\<close> as the sender just when \<open>R\<close> and \<open>S\<close>
  are a signature in range from which the curve recovers a public key with address \<open>a\<close>: over the
  plain hash with \<open>V\<close> 27 or 28 (Frontier; Homestead and EIP 155 with \<open>S\<close> in the lower half), or,
  under EIP 155, over the hash with the chain identifier \<open>c\<close> with \<open>V\<close> equal to \<open>35 + 2 * c\<close> or \<open>36 + 2 * c\<close>.
  The one other case is that EIP 155, whatever the chain, takes a transaction with \<open>V\<close>, \<open>R\<close> and
  \<open>S\<close> all 0 as sent by the null address.
\<close>

theorem Sender_exact:
  assumes "0 \<le> tx_V t" and "0 \<le> c"
  shows "(signer_Sender keccak Ecrecover FrontierSigner t = Inr a \<longleftrightarrow>
      (\<exists>b. tx_V t = 27 + int b \<and> sig_by keccak Ecrecover (signer_Hash keccak FrontierSigner t) t b False a)) \<and>
    (signer_Sender keccak Ecrecover HomesteadSigner t = Inr a \<longleftrightarrow>
      (\<exists>b. tx_V t = 27 + int b \<and> sig_by keccak Ecrecover (signer_Hash keccak HomesteadSigner t) t b True a)) \<and>
    (signer_Sender keccak Ecrecover (EIP155Signer c) t = Inr a \<longleftrightarrow>
      tx_V t = 0 \<and> tx_R t = 0 \<and> tx_S t = 0 \<and> a = NullAddress \<or>
      (\<exists>b. tx_V t = 27 + int b \<and> sig_by keccak Ecrecover (signer_Hash keccak HomesteadSigner t) t b True a) \<or>
      (\<exists>b. tx_V t = 35 + int b + c * 2 \<and> sig_by keccak Ecrecover (signer_Hash keccak (EIP155Signer c) t) t b True a))"
proof -
  let ?v = "tx_V t" and ?sig = "\<lambda>s b low. sig_by keccak Ecrecover (signer_Hash keccak s t) t b low a"
  let ?hom = "\<exists>b. ?v = 27 + int b \<and> ?sig HomesteadSigner b True"
  let ?eip = "\<exists>b. ?v = 35 + int b + c * 2 \<and> ?sig (EIP155Signer c) b True"
  let ?none = "?v = 0 \<and> tx_R t = 0 \<and> tx_S t = 0"
  have bit: "b < 2" "tx_R t \<noteq> 0" if "?sig s b low" for s b low using that by (simp_all add: sig_by_def)
  have abs: "\<bar>?v\<bar> = ?v" using assms(1) by simp
  have eip: "?eip \<longleftrightarrow> isProtectedV ?v \<and> deriveChainId ?v = c \<and> (\<exists>b. \<bar>?v - c * 2 - 8\<bar> = 27 + int b \<and> ?sig (EIP155Signer c) b True)"
    using deriveChainId_iff [OF assms bit(1)] by blast
  have hom: "\<not> isProtectedV ?v" if "?v = 27 + int b" "?sig s b low" for s b low
    using bit(1) [OF that(2)] unfolding isProtectedV_iff abs that(1) by (auto simp: numeral_2_eq_2 less_Suc_eq)
  have zero: "isProtectedV 0" by (simp add: isProtectedV_iff)
  have "signer_Sender keccak Ecrecover (EIP155Signer c) t = Inr a \<longleftrightarrow> ?none \<and> a = NullAddress \<or> ?hom \<or> ?eip"
  proof (cases "isProtectedV ?v")
    case False
    then have "\<not> ?none" "\<not> ?eip" using zero eip by (metis, metis)
    moreover have "signer_Sender keccak Ecrecover (EIP155Signer c) t = Inr a \<longleftrightarrow> ?hom"
      using False by (simp add: Protected_def recoverPlain_iff abs)
    ultimately show ?thesis by blast
  next
    case True
    then have h: "\<not> ?hom" using hom by blast
    show ?thesis
    proof (cases ?none)
      case none: True
      then have "\<not> ?eip" using bit(2) by blast
      with True h none show ?thesis by (auto simp: Protected_def)
    next
      case False
      then have "signer_Sender keccak Ecrecover (EIP155Signer c) t = Inr a \<longleftrightarrow> deriveChainId ?v = c \<and>
          recoverPlain keccak Ecrecover (signer_Hash keccak (EIP155Signer c) t) (tx_R t) (tx_S t) (?v - c * 2 - 8) True = Inr a"
        using True by (auto simp: Protected_def ChainId_def)
      with True h False eip show ?thesis unfolding recoverPlain_iff by blast
    qed
  qed
  then show ?thesis by (simp add: recoverPlain_iff abs)
qed

theorem Sender_exact_witness:
  "signer_Sender (\<lambda>b. 77) (\<lambda>h sig. Some pub0) (EIP155Signer 16) (NewTransaction 0 9 5 21000 1 []) = Inr NullAddress \<and>
   signer_Sender (\<lambda>b. 77) (\<lambda>h sig. Some pub0) HomesteadSigner (NewTransaction 0 9 5 21000 1 []) \<noteq> Inr NullAddress"
proof -
  let ?t = "NewTransaction 0 9 5 21000 1 []"
  have t: "tx_V ?t = 0" "tx_R ?t = 0" "tx_S ?t = 0" by (simp_all add: NewTransaction_def newTransaction_def)
  then have "0 \<le> tx_V ?t" by simp
  from Sender_exact [OF this, of 16 "\<lambda>b. 77" "\<lambda>h sig. Some pub0" NullAddress] t show ?thesis by simp
qed

section \<open>The caches\<close>

text \<open>What can be done to a transaction object: ask for the sender, the hash or the size, or sign it and go on with the result.\<close>

datatype tx_op = AskSender Signer | AskHash | AskSize | SignWith Signer "key option"

text \<open>A failed or panicking signature leaves the object as it is.\<close>

fun tx_step :: "(bytes \<Rightarrow> hash) \<Rightarrow> ecrecover \<Rightarrow> tx_op \<Rightarrow> TxObject \<Rightarrow> TxObject" where
  "tx_step keccak Ecrecover (AskSender s) ob = snd (Sender keccak Ecrecover s ob)"
| "tx_step keccak Ecrecover AskHash ob = snd (ob_Hash keccak ob)"
| "tx_step keccak Ecrecover AskSize ob = snd (ob_Size ob)"
| "tx_step keccak Ecrecover (SignWith s prv) ob =
     (case ob_SignTx keccak ob s prv of Some (Inr ob') \<Rightarrow> ob' | _ \<Rightarrow> ob)"

definition true_size :: "Transaction \<Rightarrow> nat" where
  "true_size t = (case EncodeToBytes (item_of_tx t) of Some b \<Rightarrow> length b | None \<Rightarrow> 0)"

definition cache_ok :: "(bytes \<Rightarrow> hash) \<Rightarrow> ecrecover \<Rightarrow> TxObject \<Rightarrow> bool" where
  "cache_ok keccak Ecrecover ob \<longleftrightarrow>
     (\<forall>h. ob_hash ob = Some h \<longrightarrow> h = tx_Hash keccak (ob_data ob)) \<and>
     (\<forall>n. ob_size ob = Some n \<longrightarrow> n = true_size (ob_data ob)) \<and>
     (\<forall>s a. ob_from ob = Some (s, a) \<longrightarrow> signer_Sender keccak Ecrecover s (ob_data ob) = Inr a)"

lemma cache_ok_fresh: "cache_ok keccak Ecrecover (fresh t)"
  by (simp add: cache_ok_def fresh_def)

lemma ask_true:
  assumes "cache_ok keccak Ecrecover ob"
  shows "fst (Sender keccak Ecrecover s ob) = signer_Sender keccak Ecrecover s (ob_data ob)"
    "fst (ob_Hash keccak ob) = tx_Hash keccak (ob_data ob)" "fst (ob_Size ob) = true_size (ob_data ob)"
    "cache_ok keccak Ecrecover (snd (Sender keccak Ecrecover s ob))"
    "cache_ok keccak Ecrecover (snd (ob_Hash keccak ob))" "cache_ok keccak Ecrecover (snd (ob_Size ob))"
  using assms
  by (auto simp: cache_ok_def Sender_def ob_Hash_def ob_Size_def true_size_def Let_def split: option.splits sum.splits)

lemma tx_step_cache_ok:
  assumes "cache_ok keccak Ecrecover ob" "\<And>s. x \<noteq> SignWith s None"
  shows "cache_ok keccak Ecrecover (tx_step keccak Ecrecover x ob)"
proof (cases x)
  case (SignWith s prv)
  then obtain k where "prv = Some k" using assms(2) by (cases prv) auto
  with SignWith assms(1) cache_ok_fresh show ?thesis
    by (cases "SignTx keccak (ob_data ob) s prv") (auto simp: ob_SignTx_def map_sum_def split: sum.splits)
qed (use ask_true(4-6) [OF assms(1)] in simp_all)

text \<open>
  C26. The caches of a transaction object cannot be observed as long as the null key does not sign
  it: a new object (also one made by signing with a real key, or whose first use was a signature
  with the null key) answers, after any sequence of questions and signatures with real keys, the
  sender under each signer, the hash and the size that its data have.
\<close>

theorem caches_true:
  assumes "\<And>s. SignWith s None \<notin> set ops" and "ob = fold (tx_step keccak Ecrecover) ops (fresh t)"
  shows "fst (Sender keccak Ecrecover s ob) = signer_Sender keccak Ecrecover s (ob_data ob) \<and>
    fst (ob_Hash keccak ob) = tx_Hash keccak (ob_data ob) \<and>
    fst (ob_Size ob) = (case EncodeToBytes (item_of_tx (ob_data ob)) of Some b \<Rightarrow> length b | None \<Rightarrow> 0)"
proof -
  have "cache_ok keccak Ecrecover (fold (tx_step keccak Ecrecover) ops ob0)"
    if "cache_ok keccak Ecrecover ob0" "\<forall>s. SignWith s None \<notin> set ops" for ob0 ops
    using that
  proof (induction ops arbitrary: ob0)
    case (Cons x ops)
    then have "cache_ok keccak Ecrecover (tx_step keccak Ecrecover x ob0)" by (intro tx_step_cache_ok) auto
    with Cons show ?case by simp
  qed simp
  with assms cache_ok_fresh have "cache_ok keccak Ecrecover ob" by blast
  from ask_true(1-3) [OF this] show ?thesis by (simp add: true_size_def)
qed

theorem caches_true_witness:
  "fst (Sender (\<lambda>b. 77) (\<lambda>h sig. None) FrontierSigner
     (fold (tx_step (\<lambda>b. 77) (\<lambda>h sig. None)) [AskHash, AskSender (EIP155Signer 16)] (fresh (NewTransaction 0 9 5 21000 1 [])))) =
   Inl ErrInvalidSig"
proof -
  let ?ops = "[AskHash, AskSender (EIP155Signer 16)]" and ?t = "NewTransaction 0 9 5 21000 1 []"
  have "ob_data (fold (tx_step (\<lambda>b. 77) (\<lambda>h sig. None)) ?ops (fresh ?t)) = ?t"
    by (simp add: ob_Hash_def Sender_def fresh_def Let_def split: sum.split)
  with caches_true [of ?ops _ "\<lambda>b. 77" "\<lambda>h sig. None" ?t FrontierSigner, OF _ refl] show ?thesis
    by (simp add: recoverPlain_def ValidateSignatureValues_def NewTransaction_def newTransaction_def)
qed

text \<open>
  C27. The null key leaves a stale cache: when a transaction signed under EIP 155 with an unlocked
  key has been asked for its sender, and the object is then signed with the null key, its data
  carry no signature any more, so that its sender is the null address; but the object still
  answers the address of the first key.
\<close>

theorem SignTx_null_stale_sender:
  assumes "key_ok Ecrecover k pub" and "1 \<le> c" and "ob_SignTx keccak (fresh t) (EIP155Signer c) (Some k) = Some (Inr ob)"
    and "ob' = snd (Sender keccak Ecrecover (EIP155Signer c) ob)"
  shows "\<exists>ob''. ob_SignTx keccak ob' s None = Some (Inr ob'') \<and>
    signer_Sender keccak Ecrecover (EIP155Signer c) (ob_data ob'') = Inr NullAddress \<and>
    fst (Sender keccak Ecrecover (EIP155Signer c) ob'') = Inr (pubkey_address keccak pub)"
proof -
  obtain t' where t': "SignTx keccak t (EIP155Signer c) (Some k) = Some (Inr t')" "ob = fresh t'"
  proof -
    obtain z where "SignTx keccak t (EIP155Signer c) (Some k) = Some z" "map_sum (\<lambda>e. e) fresh z = Inr ob"
      using assms(3) by (auto simp: ob_SignTx_def fresh_def)
    with that show thesis by (cases z) auto
  qed
  have "signer_Sender keccak Ecrecover (EIP155Signer c) t' = Inr (pubkey_address keccak pub)"
    using SignTx_sender_of_key [OF assms(1,2) t'(1)] by blast
  then have "ob' = (fresh t')\<lparr>ob_from := Some (EIP155Signer c, pubkey_address keccak pub)\<rparr>"
    using assms(4) by (simp add: t'(2) Sender_def fresh_def Let_def)
  then show ?thesis
    by (simp add: ob_SignTx_def SignTx_def Sender_def Let_def Protected_def isProtectedV_iff fresh_def)
qed

theorem SignTx_null_stale_sender_witness:
  "\<exists>ob ob''. ob_SignTx (\<lambda>b. 77) (fresh (NewTransaction 0 9 5 21000 1 [])) (EIP155Signer 16) (Some key0) = Some (Inr ob) \<and>
     ob_SignTx (\<lambda>b. 77) (snd (Sender (\<lambda>b. 77) (\<lambda>h sig. Some pub0) (EIP155Signer 16) ob)) HomesteadSigner None = Some (Inr ob'') \<and>
     fst (Sender (\<lambda>b. 77) (\<lambda>h sig. Some pub0) (EIP155Signer 16) ob'') = Inr 77"
proof -
  obtain ob where ob: "ob_SignTx (\<lambda>b. 77) (fresh (NewTransaction 0 9 5 21000 1 [])) (EIP155Signer 16) (Some key0) = Some (Inr ob)"
    by (auto simp: ob_SignTx_def fresh_def SignTx_def key0_def WithSignature_def SignatureValues_def SignatureLength_def Let_def)
  moreover have "pubkey_address (\<lambda>b. 77) pub0 = 77" by code_simp
  ultimately show ?thesis using SignTx_null_stale_sender [OF key0_ok _ ob refl, of HomesteadSigner] by auto
qed

end
