(* ===== verification/Tx_Send.thy ===== *)
theory Tx_Send
  imports Tx_Manager Tx_Signing "HOL-Library.Sublist"
begin

text \<open>
  The loops of the transaction manager (\<^verbatim>\<open>Start\<close> and \<^verbatim>\<open>confirmLoop\<close> of \<^verbatim>\<open>src/tx/manager.go\<close>): sending a
  pending raw transaction, reacting to the answer of the node, and the handling of new root
  chain blocks. A raw transaction is a shared object: it is named by its account and its
  position in the pending queue, and changes to it are changes of the queue.
\<close>

section \<open>Error messages\<close>

definition lower_char :: "char \<Rightarrow> char" where
  "lower_char c = (let n = (of_char c :: nat) in if 65 \<le> n \<and> n \<le> 90 then char_of (n + 32) else c)"

definition ToLower :: "string \<Rightarrow> string" where
  "ToLower s = map lower_char s"

fun Contains :: "string \<Rightarrow> string \<Rightarrow> bool" where
  "Contains [] p = (p = [])"
| "Contains (c # s) p = (prefix p (c # s) \<or> Contains s p)"

datatype sendError = ErrInsufficientFunds | ErrReplaceUnderpriced | ErrKnownTransaction | ErrTooManyPending | ErrSubmit string

section \<open>Sending one raw transaction\<close>

definition MaxNumKnownTx :: u64 where "MaxNumKnownTx = 5"
definition SendDelay :: u64 where "SendDelay = 2"
definition ConfirmationDelay :: u64 where "ConfirmationDelay = 4"

definition set_raw :: "address \<Rightarrow> nat \<Rightarrow> RawTransaction \<Rightarrow> TransactionManager \<Rightarrow> TransactionManager" where
  "set_raw addr i raw tm = tm\<lparr>pending := (pending tm)(addr := (pending tm addr)[i := raw])\<rparr>"

definition SendTransaction :: "Backend \<Rightarrow> nat \<Rightarrow> Transaction \<Rightarrow> string option" where
  "SendTransaction B t signedTx =
     (case EncodeToBytes (item_of_tx signedTx) of
        None \<Rightarrow> Some ''rlp: cannot encode negative *big.Int''
      | Some data \<Rightarrow> rpc_send B t signedTx)"

text \<open>
  The outcome of an attempt: hash and error to be returned, or \<open>None\<close> when the attempt is
  repeated with a new nonce.
\<close>

type_synonym outcome = "(hash \<times> sendError option) option"

definition knownTransaction :: "Backend \<Rightarrow> hash \<Rightarrow> TransactionManager \<Rightarrow> outcome \<times> TransactionManager" where
  "knownTransaction B h tm =
     (let n = numKnownErr tm h + 1
      in if n = MaxNumKnownTx then (Some (h, Some ErrKnownTransaction), tm\<lparr>numKnownErr := (numKnownErr tm)(h := 0)\<rparr>)
         else (Some (h, if rpc_new_head B (tm_clock tm) then Some ErrKnownTransaction else None),
               tm\<lparr>numKnownErr := (numKnownErr tm)(h := n), tm_clock := tm_clock tm + 1\<rparr>))"

text \<open>The nonce of the account is overwritten even when the question for it fails.\<close>

definition nonceTooLow :: "Backend \<Rightarrow> address \<Rightarrow> nat \<Rightarrow> TransactionManager \<Rightarrow> (outcome \<times> TransactionManager) option" where
  "nonceTooLow B addr i tm =
     (case rpc_nonce B (tm_clock tm) addr of
        (n, err) \<Rightarrow>
          let tm1 = tm\<lparr>tm_nonce := (tm_nonce tm)(addr \<mapsto> n), tm_clock := tm_clock tm + 1\<rparr>
          in if err \<noteq> None then Some (None, tm1)
             else do {
               let tm2 = set_raw addr i ((pending tm1 addr ! i)\<lparr>rt_Nonce := sint n\<rparr>) tm1;
               db \<leftarrow> WriteAddrNonce addr n (tm_db tm2);
               Some (None, tm2\<lparr>tm_db := db\<rparr>)
             })"

definition submit :: "Backend \<Rightarrow> address \<Rightarrow> nat \<Rightarrow> Transaction \<Rightarrow> hash \<Rightarrow> TransactionManager \<Rightarrow>
    (outcome \<times> TransactionManager) option" where
  "submit B addr i signedTx h tm =
     (let tm1 = tm\<lparr>tm_clock := tm_clock tm + 1\<rparr>
      in case SendTransaction B (tm_clock tm) signedTx of
           None \<Rightarrow> Some (Some (h, None), tm1)
         | Some err \<Rightarrow>
             let m = ToLower err
             in if Contains m ''insufficient funds for gas * price + value'' then Some (Some (h, Some ErrInsufficientFunds), tm1)
                else if Contains m ''replacement transaction underpriced'' then Some (Some (h, Some ErrReplaceUnderpriced), tm1)
                else if Contains m ''transaction underpriced'' then Some (Some (h, Some ErrReplaceUnderpriced), tm1)
                else if Contains m ''known transaction'' then Some (knownTransaction B h tm1)
                else if Contains m ''nonce too low'' \<or> Contains m ''nonce is too low'' then nonceTooLow B addr i tm1
                else Some (Some (h, Some (ErrSubmit err)), tm1))"

text \<open>
  One call of the function \<^verbatim>\<open>f\<close> of \<^verbatim>\<open>send\<close>. When signing fails the signed transaction is nil, and
  asking it for its hash panics.
\<close>

definition attempt :: "(bytes \<Rightarrow> hash) \<Rightarrow> (address \<rightharpoonup> key) \<Rightarrow> Backend \<Rightarrow> address \<Rightarrow> nat \<Rightarrow> TransactionManager \<Rightarrow>
    (outcome \<times> TransactionManager) option" where
  "attempt keccak unlocked B addr i tm =
     (if \<not> i < length (pending tm addr) then None
      else
        let raw = pending tm addr ! i; blockNumber = big_Uint64 (currentBlockNumber tm)
        in if LastSentBlockNumber raw \<noteq> 0 \<and> LastSentBlockNumber raw + SendDelay \<le> blockNumber
           then Some (Some (0, None), set_raw addr i (raw\<lparr>LastSentBlockNumber := blockNumber\<rparr>) tm)
           else case ks_SignTx keccak unlocked addr (ToTransaction (tm_gasPrice tm) raw) (cfg_ChainId (tm_config tm)) of
                  Some (Inr signedTx) \<Rightarrow>
                    let h = tx_Hash keccak signedTx
                    in if HasPending keccak signedTx raw then Some (Some (h, None), tm)
                       else (case AddPending signedTx raw of
                               None \<Rightarrow> map_option (\<lambda>_. (Some (h, Some ErrTooManyPending), tm)) (raw_Hash keccak raw)
                             | Some raw1 \<Rightarrow>
                                 do {
                                   let tm1 = set_raw addr i (raw1\<lparr>LastSentBlockNumber := blockNumber\<rparr>) tm;
                                   db \<leftarrow> WritePendingTxs addr (pending tm1 addr) (tm_db tm1);
                                   submit B addr i signedTx h (tm1\<lparr>tm_db := db\<rparr>)
                                 })
                | _ \<Rightarrow> None)"

lemma knownTransaction_once: "fst (knownTransaction B h tm) \<noteq> None"
  by (simp add: knownTransaction_def Let_def)

lemma submit_pending:
  assumes "submit B addr i signedTx h tm = Some (r, tm')"
  shows "pending tm' = pending tm \<or>
    (\<exists>n. pending tm' = (pending tm)(addr := (pending tm addr)[i := (pending tm addr ! i)\<lparr>rt_Nonce := n\<rparr>]))"
  using assms
  by (auto simp: submit_def nonceTooLow_def knownTransaction_def set_raw_def Let_def bind_eq_Some_conv
      split: option.splits if_splits prod.splits)

text \<open>The raw transaction after a signed transaction was added to it.\<close>

definition extended :: "Transaction \<Rightarrow> TransactionManager \<Rightarrow> RawTransaction \<Rightarrow> RawTransaction" where
  "extended signedTx tm raw =
     raw\<lparr>PendingTxs := PendingTxs raw @ [signedTx], LastSentBlockNumber := big_Uint64 (currentBlockNumber tm)\<rparr>"

lemma attempt_cases:
  assumes "attempt keccak unlocked B addr i tm = Some (r, tm')"
  obtains (early) "i < length (pending tm addr)" "r = Some (0, None)"
      "tm' = set_raw addr i ((pending tm addr ! i)\<lparr>LastSentBlockNumber := big_Uint64 (currentBlockNumber tm)\<rparr>) tm"
  | (same) "tm' = tm" "r \<noteq> None"
  | (sent) signedTx db where "i < length (pending tm addr)"
      "ks_SignTx keccak unlocked addr (ToTransaction (tm_gasPrice tm) (pending tm addr ! i)) (cfg_ChainId (tm_config tm))
         = Some (Inr signedTx)"
      "length (PendingTxs (pending tm addr ! i)) < MaxNumPending"
      "WritePendingTxs addr ((pending tm addr)[i := extended signedTx tm (pending tm addr ! i)]) (tm_db tm) = Some db"
      "submit B addr i signedTx (tx_Hash keccak signedTx)
         ((set_raw addr i (extended signedTx tm (pending tm addr ! i)) tm)\<lparr>tm_db := db\<rparr>) = Some (r, tm')"
  using assms
  by (auto simp: attempt_def Let_def AddPending_def extended_def set_raw_def bind_eq_Some_conv
      split: if_splits option.splits sum.splits)

lemma attempt_again:
  assumes "attempt keccak unlocked B addr i tm = Some (None, tm')"
  shows "length (PendingTxs (pending tm' addr ! i)) = Suc (length (PendingTxs (pending tm addr ! i)))"
    and "length (PendingTxs (pending tm addr ! i)) < MaxNumPending"
proof -
  have "length (PendingTxs (pending tm' addr ! i)) = Suc (length (PendingTxs (pending tm addr ! i))) \<and>
      length (PendingTxs (pending tm addr ! i)) < MaxNumPending"
    using assms
  proof (cases rule: attempt_cases)
    case (sent signedTx db)
    then show ?thesis using submit_pending [OF sent(5)] by (auto simp: set_raw_def extended_def)
  qed auto
  then show "length (PendingTxs (pending tm' addr ! i)) = Suc (length (PendingTxs (pending tm addr ! i)))"
    and "length (PendingTxs (pending tm addr ! i)) < MaxNumPending" by auto
qed

lemma attempt_decreases:
  assumes "attempt keccak unlocked B addr i tm = Some (None, tm')"
  shows "MaxNumPending - length (PendingTxs (pending tm' addr ! i)) < MaxNumPending - length (PendingTxs (pending tm addr ! i))"
  using attempt_again [OF assms] by simp

text \<open>
  The attempts end: every repetition has added a transaction to the raw transaction, which
  holds at most \<^verbatim>\<open>MaxNumPending\<close> of them.
\<close>

function sendLoop :: "(bytes \<Rightarrow> hash) \<Rightarrow> (address \<rightharpoonup> key) \<Rightarrow> Backend \<Rightarrow> address \<Rightarrow> nat \<Rightarrow> TransactionManager \<Rightarrow>
    ((hash \<times> sendError option) \<times> TransactionManager) option" where
  "sendLoop keccak unlocked B addr i tm =
     (case attempt keccak unlocked B addr i tm of
        None \<Rightarrow> None
      | Some (Some r, tm1) \<Rightarrow> Some (r, tm1)
      | Some (None, tm1) \<Rightarrow> sendLoop keccak unlocked B addr i tm1)"
  by pat_completeness auto
termination
  by (relation "measure (\<lambda>(keccak, unlocked, B, addr, i, tm). MaxNumPending - length (PendingTxs (pending tm addr ! i)))")
    (auto dest: attempt_decreases)

declare sendLoop.simps [simp del]

definition send :: "(bytes \<Rightarrow> hash) \<Rightarrow> (address \<rightharpoonup> key) \<Rightarrow> Backend \<Rightarrow> address \<Rightarrow> nat \<Rightarrow> TransactionManager \<Rightarrow>
    ((hash \<times> sendError option) \<times> TransactionManager) option" where
  "send keccak unlocked B addr i tm =
     (if \<not> i < length (pending tm addr) then None
      else if Mined (pending tm addr ! i) then Some ((MinedTxHash (pending tm addr ! i), None), tm)
      else sendLoop keccak unlocked B addr i tm)"

section \<open>The ticker\<close>

text \<open>What the loop does with the raw transaction it has picked, and with the answer to it.\<close>

definition resend :: "(bytes \<Rightarrow> hash) \<Rightarrow> (address \<rightharpoonup> key) \<Rightarrow> Backend \<Rightarrow> address \<Rightarrow> nat \<Rightarrow> TransactionManager \<Rightarrow>
    TransactionManager option" where
  "resend keccak unlocked B addr i tm = map_option snd (send keccak unlocked B addr i tm)"

definition raisePrice :: "bool \<Rightarrow> Backend \<Rightarrow> address \<Rightarrow> nat \<Rightarrow> TransactionManager \<Rightarrow> TransactionManager option" where
  "raisePrice c B addr i tm = (if c then adjustGasPrice B (pending tm addr ! i) False tm else Some tm)"

definition followUp :: "(bytes \<Rightarrow> hash) \<Rightarrow> (address \<rightharpoonup> key) \<Rightarrow> Backend \<Rightarrow> address \<Rightarrow> nat \<Rightarrow> hash \<Rightarrow> sendError option \<Rightarrow>
    TransactionManager \<Rightarrow> TransactionManager option" where
  "followUp keccak unlocked B addr i h err tm =
     (let (receipt, err2) = TransactionReceipt B (tm_clock tm) h;
          tm1 = tm\<lparr>tm_clock := tm_clock tm + 1\<rparr>
      in if receipt \<noteq> None then Some tm1
         else if receipt = None \<and> err = Some ErrKnownTransaction \<and> numKnownErr tm1 h \<le> MaxNumKnownTx
         then Some (tm1\<lparr>numKnownErr := (numKnownErr tm1)(h := numKnownErr tm1 h + 1)\<rparr>)
         else
           let fixed1 = (err = Some ErrKnownTransaction);
               fixed2 = (err2 = Some NotFound \<or> fixed1)
           in do {
             tm2 \<leftarrow> raisePrice (err2 = Some NotFound) B addr i tm1;
             tm3 \<leftarrow> raisePrice (err \<noteq> None \<and> \<not> fixed2) B addr i tm2;
             resend keccak unlocked B addr i tm3
           })"

definition sendPicked :: "(bytes \<Rightarrow> hash) \<Rightarrow> (address \<rightharpoonup> key) \<Rightarrow> Backend \<Rightarrow> address \<Rightarrow> nat \<Rightarrow> TransactionManager \<Rightarrow>
    TransactionManager option" where
  "sendPicked keccak unlocked B addr i tm =
     do {
       ((h, err), tm1) \<leftarrow> send keccak unlocked B addr i tm;
       if err = Some ErrReplaceUnderpriced then do {
         tm2 \<leftarrow> adjustGasPrice B (pending tm1 addr ! i) False tm1;
         resend keccak unlocked B addr i tm2
       }
       else if err = Some ErrInsufficientFunds \<or> err = Some ErrReplaceUnderpriced
       then resend keccak unlocked B addr i tm1
       else followUp keccak unlocked B addr i h err tm1
     }"

text \<open>
  One round for an account. The queue is read before the mined transactions leave it, and
  whether the goroutine sees the sorted queue or the old one depends on the capacity of a
  slice; it picks some pending transaction that is not mined, or none: the argument \<open>pick\<close>.
\<close>

definition iterate :: "(bytes \<Rightarrow> hash) \<Rightarrow> (address \<rightharpoonup> key) \<Rightarrow> Backend \<Rightarrow> address \<Rightarrow> nat option \<Rightarrow> TransactionManager \<Rightarrow>
    TransactionManager option" where
  "iterate keccak unlocked B addr pick tm =
     do {
       let queue = pending tm addr;
       tm1 \<leftarrow> clearQueue keccak B addr tm;
       tm2 \<leftarrow> confirmQueue B addr tm1;
       if length queue = 0 then Some tm2
       else case pick of
              None \<Rightarrow> Some tm2
            | Some i \<Rightarrow>
                if i < length (pending tm2 addr) \<and> \<not> Mined (pending tm2 addr ! i)
                then sendPicked keccak unlocked B addr i tm2
                else Some tm2
     }"

section \<open>New root chain blocks\<close>

fun confirmAll :: "Backend \<Rightarrow> address list \<Rightarrow> TransactionManager \<Rightarrow> TransactionManager option" where
  "confirmAll B [] tm = Some tm"
| "confirmAll B (addr # addrs) tm = do { tm1 \<leftarrow> confirmQueue B addr tm; confirmAll B addrs tm1 }"

text \<open>
  The handler of a new header in \<^verbatim>\<open>confirmLoop\<close>; \<open>found\<close> tells whether its block could be read. The
  number of the last processed block is a local variable of the loop.
\<close>

definition newHeader :: "Backend \<Rightarrow> bool \<Rightarrow> int \<Rightarrow> u64 \<times> TransactionManager \<Rightarrow> (u64 \<times> TransactionManager) option" where
  "newHeader B found number = (\<lambda>(lastConfirmed, tm).
     (let last1 = (if lastConfirmed = 0 then big_Uint64 number else lastConfirmed)
      in if \<not> found then Some (last1, tm)
         else
           let tm1 = tm\<lparr>currentBlockNumber := number\<rparr>
           in if last1 + ConfirmationDelay < big_Uint64 number then Some (last1, tm1)
              else map_option (Pair (big_Uint64 number)) (confirmAll B (addresses tm1) tm1)))"

end
