(* ===== verification/Tx_Send_Inv.thy ===== *)
theory Tx_Send_Inv
  imports Tx_Manager_Reach Tx_Send
begin

text \<open>
  Sending keeps the invariant of the transaction manager. With the other operations this gives
  the invariant of every state a manager reaches.
\<close>

section \<open>What sending changes\<close>

definition sends :: "address \<Rightarrow> TransactionManager \<Rightarrow> TransactionManager \<Rightarrow> bool" where
  "sends a tm tm' \<longleftrightarrow>
     confirmed tm' = confirmed tm \<and> unconfirmed tm' = unconfirmed tm \<and> addresses tm' = addresses tm \<and>
     tm_config tm' = tm_config tm \<and> (\<forall>b. b \<noteq> a \<longrightarrow> pending tm' b = pending tm b \<and> tm_nonce tm' b = tm_nonce tm b) \<and>
     map rt_Index (pending tm' a) = map rt_Index (pending tm a) \<and>
     agree {KPending a, KAddrNonce a, KGasPrice} (tm_db tm) (tm_db tm') \<and> (mirror a tm \<longrightarrow> mirror a tm') \<and>
     (ReadGasPrice (tm_db tm) \<noteq> None \<longrightarrow> ReadGasPrice (tm_db tm') \<noteq> None) \<and>
     (MinGasPrice (tm_config tm) \<le> MaxGasPrice (tm_config tm) \<longrightarrow> in_range tm \<longrightarrow> in_range tm')"

lemma sends_refl [simp]: "sends a tm tm"
  by (simp add: sends_def)

lemma sends_trans: "sends a tm tm1 \<Longrightarrow> sends a tm1 tm2 \<Longrightarrow> sends a tm tm2"
  using agree_trans [of "{KPending a, KAddrNonce a, KGasPrice}" "tm_db tm" "tm_db tm1" "{KPending a, KAddrNonce a, KGasPrice}" "tm_db tm2"]
  by (simp add: sends_def)

lemma sends_priced: "priced tm tm' \<Longrightarrow> sends a tm tm'"
  using mirror_priced [of a tm tm'] agree_mono [of "{KGasPrice}" "tm_db tm" "tm_db tm'" "{KPending a, KAddrNonce a, KGasPrice}"]
  by (simp add: sends_def priced_def)

lemma mirror_pending:
  assumes "mirror a tm" and "agree {KPending a, KAddrNonce a, KGasPrice} (tm_db tm) (tm_db tm')"
    and "confirmed tm' = confirmed tm" and "unconfirmed tm' = unconfirmed tm"
    and "stored (ReadPendingTxs a (tm_db tm')) (pending tm' a)" and "list_all raw_ok (pending tm' a)"
    and "\<exists>n. ReadAddrNonce a (tm_db tm') = Some n \<and> nonce_of_account a tm' \<in> {0, n}"
  shows "mirror a tm'"
  using assms(1,3-) read_agree(6-8) [OF assms(2)] by (simp add: mirror_def all_raws_def)

text \<open>Memory only: a new block of the last attempt or a new nonce of the raw transaction.\<close>

lemma map_strip_update: "i < length q \<Longrightarrow> f r = f (q ! i) \<Longrightarrow> map f (q[i := r]) = map f q"
  by (metis list_update_id map_update)

lemma sends_set_raw:
  assumes "i < length (pending tm a)" and "strip r = strip (pending tm a ! i)" and "raw_ok (pending tm a ! i) \<Longrightarrow> raw_ok r"
  shows "sends a tm (set_raw a i r tm)"
proof -
  have "rt_Index r = rt_Index (pending tm a ! i)" using arg_cong [OF assms(2), of rt_Index] by (simp add: strip_def)
  then have idx: "map rt_Index ((pending tm a)[i := r]) = map rt_Index (pending tm a)"
    by (rule map_strip_update [OF assms(1)])
  have "mirror a (set_raw a i r tm)" if m: "mirror a tm"
  proof (rule mirror_pending [OF m])
    have "stored (ReadPendingTxs a (tm_db tm)) (pending tm a)" and ok: "list_all raw_ok (pending tm a)"
      using m by (simp_all add: mirror_def all_raws_def)
    then show "stored (ReadPendingTxs a (tm_db (set_raw a i r tm))) (pending (set_raw a i r tm) a)"
      using map_strip_update [OF assms(1,2)] by (simp add: set_raw_def stored_strip)
    show "list_all raw_ok (pending (set_raw a i r tm) a)"
      using ok assms(1,3) by (auto simp: set_raw_def list_all_iff dest: set_update_subset_insert [THEN subsetD])
  qed (use m in \<open>auto simp: set_raw_def mirror_def nonce_of_account_def\<close>)
  then show ?thesis using idx by (simp add: sends_def set_raw_def in_range_def)
qed

lemma sends_same:
  assumes "confirmed tm' = confirmed tm" and "unconfirmed tm' = unconfirmed tm" and "pending tm' = pending tm"
    and "addresses tm' = addresses tm" and "tm_config tm' = tm_config tm" and "tm_nonce tm' = tm_nonce tm"
    and "tm_db tm' = tm_db tm" and "tm_gasPrice tm' = tm_gasPrice tm"
  shows "sends a tm tm'"
  using assms by (simp add: sends_def mirror_def all_raws_def nonce_of_account_def in_range_def)

text \<open>A new nonce of the account, from the node.\<close>

lemma sends_lost_nonce: "sends a tm (tm\<lparr>tm_nonce := (tm_nonce tm)(a \<mapsto> 0), tm_clock := t\<rparr>)"
  by (auto simp: sends_def mirror_def all_raws_def nonce_of_account_def in_range_def)

lemma sends_nonce:
  assumes "WriteAddrNonce a n (tm_db tm) = Some db"
  shows "sends a tm (tm\<lparr>tm_nonce := (tm_nonce tm)(a \<mapsto> n), tm_clock := t, tm_db := db\<rparr>)" (is "sends a tm ?tm")
proof -
  have g: "agree {KAddrNonce a} (tm_db tm) db" by (rule write_agree(4) [OF assms])
  then have g': "agree {KPending a, KAddrNonce a, KGasPrice} (tm_db tm) (tm_db ?tm)"
    by (simp add: agree_mono [of "{KAddrNonce a}"])
  have "mirror a ?tm" if m: "mirror a tm"
    using m read_written_number(3) [OF assms] read_agree(9) [OF g, of a]
    by (intro mirror_pending [OF m g']) (auto simp: mirror_def all_raws_def nonce_of_account_def)
  then show ?thesis using g' read_agree(1) [OF g] by (simp add: sends_def in_range_def)
qed

lemma sint_nonneg:
  assumes "unat (n :: u64) < 2 ^ 63"
  shows "0 \<le> sint n"
proof -
  have "uint n < 2 ^ 63" using assms by (metis of_nat_less_iff of_nat_numeral of_nat_power uint_nat)
  then have "uint n div 2 ^ 63 = 0" by (intro div_pos_pos_trivial) auto
  then have "\<not> bit (uint n) 63" by (simp only: bit_iff_odd even_zero not_not)
  then show ?thesis unfolding sint_uint by (subst signed_take_bit_nonnegative_iff) simp
qed

lemma nonceTooLow_sends:
  assumes "backend_ok B" and "nonceTooLow B a i tm = Some (r, tm')" and "i < length (pending tm a)"
  shows "sends a tm tm'"
proof -
  obtain n err where n: "rpc_nonce B (tm_clock tm) a = (n, err)" by force
  then have ok: "unat n < 2 ^ 63" "err \<noteq> None \<Longrightarrow> n = 0" using assms(1) by (auto simp: backend_ok_def)
  show ?thesis
  proof (cases err)
    case None
    let ?r = "(pending tm a ! i)\<lparr>rt_Nonce := sint n\<rparr>"
    obtain db where w: "WriteAddrNonce a n (tm_db tm) = Some db"
      and tm': "tm' = (set_raw a i ?r tm)\<lparr>tm_nonce := (tm_nonce tm)(a \<mapsto> n), tm_clock := tm_clock tm + 1, tm_db := db\<rparr>"
      using assms(2) n None by (auto simp: nonceTooLow_def Let_def set_raw_def bind_eq_Some_conv)
    have "sends a tm (set_raw a i ?r tm)"
      using sint_nonneg [OF ok(1)] by (intro sends_set_raw [OF assms(3)]) (auto simp: strip_def raw_ok_def)
    moreover have "sends a (set_raw a i ?r tm) tm'"
      using sends_nonce [of a n "set_raw a i ?r tm" db "tm_clock tm + 1"] w tm' by (simp add: set_raw_def)
    ultimately show ?thesis by (rule sends_trans)
  next
    case (Some e)
    then show ?thesis using assms(2) n ok sends_lost_nonce by (auto simp: nonceTooLow_def Let_def)
  qed
qed

lemma submit_sends:
  assumes "backend_ok B" and "submit B a i signedTx h tm = Some (r, tm')" and "i < length (pending tm a)"
  shows "sends a tm tm'"
proof -
  let ?tm = "tm\<lparr>tm_clock := tm_clock tm + 1\<rparr>"
  have s: "sends a tm ?tm" by (rule sends_same) simp_all
  have "tm' = ?tm \<or> knownTransaction B h ?tm = (r, tm') \<or> nonceTooLow B a i ?tm = Some (r, tm')"
    using assms(2) unfolding submit_def Let_def by (simp split: option.splits if_splits)
  then consider "tm' = ?tm" | "knownTransaction B h ?tm = (r, tm')" | "nonceTooLow B a i ?tm = Some (r, tm')" by blast
  then show ?thesis
  proof cases
    case 2
    then show ?thesis by (intro sends_same) (auto simp: knownTransaction_def Let_def split: if_splits)
  next
    case 3
    then show ?thesis using nonceTooLow_sends [OF assms(1) 3] assms(3) by (intro sends_trans [OF s]) simp
  qed (use s in simp)
qed

lemma sends_extended:
  assumes "WritePendingTxs a ((pending tm a)[i := r]) (tm_db tm) = Some db" and "i < length (pending tm a)"
    and "rt_Index r = rt_Index (pending tm a ! i)" and "rt_Recipient r = rt_Recipient (pending tm a ! i)"
  shows "sends a tm ((set_raw a i r tm)\<lparr>tm_db := db\<rparr>)" (is "sends a tm ?tm")
proof -
  have g: "agree {KPending a} (tm_db tm) db" by (rule write_agree(9) [OF assms(1)])
  then have g': "agree {KPending a, KAddrNonce a, KGasPrice} (tm_db tm) (tm_db ?tm)"
    by (simp add: agree_mono [of "{KPending a}"])
  have "mirror a ?tm" if m: "mirror a tm"
  proof (rule mirror_pending [OF m g'])
    have "\<forall>x \<in> set ((pending tm a)[i := r]). rt_Recipient x \<noteq> None"
      using m assms(2,4) set_update_subset_insert [of "pending tm a" i r]
      by (auto simp: mirror_def all_raws_def raw_ok_def list_all_iff)
    then show ok: "list_all raw_ok (pending ?tm a)"
      using WritePendingTxs_ok [OF assms(1)] by (simp add: set_raw_def)
    then show "stored (ReadPendingTxs a (tm_db ?tm)) (pending ?tm a)"
      using read_written_queue(1) [OF assms(1)] by (simp add: set_raw_def)
  qed (use m read_agree(4) [OF g, of a] in \<open>auto simp: set_raw_def mirror_def nonce_of_account_def\<close>)
  then show ?thesis
    using g' map_strip_update [OF assms(2,3)] read_agree(1) [OF g] by (simp add: sends_def set_raw_def in_range_def)
qed

lemma attempt_sends:
  assumes "backend_ok B" and "attempt keccak unlocked B a i tm = Some (r, tm')"
  shows "sends a tm tm'"
  using assms(2)
proof (cases rule: attempt_cases)
  case early
  then show ?thesis by (auto intro!: sends_set_raw simp: strip_def raw_ok_def)
next
  case same
  then show ?thesis by simp
next
  case (sent signedTx db)
  let ?tm = "(set_raw a i (extended signedTx tm (pending tm a ! i)) tm)\<lparr>tm_db := db\<rparr>"
  have "sends a tm ?tm" by (rule sends_extended [OF sent(4,1)]) (simp_all add: extended_def)
  moreover have "sends a ?tm tm'" using sent(1) by (intro submit_sends [OF assms(1) sent(5)]) (simp add: set_raw_def)
  ultimately show ?thesis by (rule sends_trans)
qed

lemma sendLoop_sends:
  assumes "backend_ok B"
  shows "sendLoop keccak unlocked B a i tm = Some (r, tm') \<Longrightarrow> sends a tm tm'"
  using assms
proof (induction keccak unlocked B a i tm rule: sendLoop.induct)
  case (1 keccak unlocked B a i tm)
  from 1(2) obtain o1 tm1 where at: "attempt keccak unlocked B a i tm = Some (o1, tm1)"
    and o1: "case o1 of None \<Rightarrow> sendLoop keccak unlocked B a i tm1 = Some (r, tm') | Some x \<Rightarrow> tm' = tm1"
    unfolding sendLoop.simps [of keccak unlocked B a i tm] by (auto split: option.splits)
  have s: "sends a tm tm1" by (rule attempt_sends [OF 1(3) at])
  show ?case
  proof (cases o1)
    case None
    then have "sends a tm1 tm'" using 1(1) [OF at _ None] o1 1(3) by simp
    with s show ?thesis by (rule sends_trans)
  qed (use s o1 in simp)
qed

lemma send_sends:
  assumes "backend_ok B" and "send keccak unlocked B a i tm = Some (r, tm')"
  shows "sends a tm tm'"
  using assms sendLoop_sends by (auto simp: send_def split: if_splits)

lemma adjustGasPrice_sends: "adjustGasPrice B raw d tm = Some tm' \<Longrightarrow> sends a tm tm'"
  by (rule sends_priced) (rule adjustGasPrice_priced)

lemma resend_sends: "backend_ok B \<Longrightarrow> resend keccak unlocked B a i tm = Some tm' \<Longrightarrow> sends a tm tm'"
  using send_sends by (auto simp: resend_def)

lemma raisePrice_sends: "raisePrice c B addr i tm = Some tm' \<Longrightarrow> sends a tm tm'"
  using adjustGasPrice_sends by (auto simp: raisePrice_def split: if_splits)

lemma followUp_sends:
  assumes "backend_ok B" and "followUp keccak unlocked B a i h err tm = Some tm'"
  shows "sends a tm tm'"
proof -
  obtain receipt err2 where r: "TransactionReceipt B (tm_clock tm) h = (receipt, err2)" by force
  let ?tm = "tm\<lparr>tm_clock := tm_clock tm + 1\<rparr>"
  have s: "sends a tm ?tm" by (rule sends_same) simp_all
  show ?thesis
  proof (cases "receipt \<noteq> None \<or> err = Some ErrKnownTransaction \<and> numKnownErr tm h \<le> MaxNumKnownTx")
    case True
    then show ?thesis using assms(2) r by (intro sends_same) (auto simp: followUp_def Let_def split: if_splits)
  next
    case False
    then obtain tm2 tm3 c where "raisePrice (err2 = Some NotFound) B a i ?tm = Some tm2" "raisePrice c B a i tm2 = Some tm3"
      "resend keccak unlocked B a i tm3 = Some tm'"
      using assms(2) r unfolding followUp_def Let_def by (auto simp: bind_eq_Some_conv)
    then show ?thesis using s raisePrice_sends resend_sends [OF assms(1)] sends_trans by metis
  qed
qed

lemma sendPicked_sends:
  assumes "backend_ok B" and "sendPicked keccak unlocked B a i tm = Some tm'"
  shows "sends a tm tm'"
proof -
  obtain h err tm1 where s: "send keccak unlocked B a i tm = Some ((h, err), tm1)"
    using assms(2) by (auto simp: sendPicked_def bind_eq_Some_conv)
  consider tm2 where "adjustGasPrice B (pending tm1 a ! i) False tm1 = Some tm2" "resend keccak unlocked B a i tm2 = Some tm'"
    | "resend keccak unlocked B a i tm1 = Some tm'" | "followUp keccak unlocked B a i h err tm1 = Some tm'"
    using assms(2) s by (auto simp: sendPicked_def bind_eq_Some_conv split: if_splits)
  then have "sends a tm1 tm'"
  proof cases
    case (1 tm2)
    then show ?thesis using sends_trans [OF adjustGasPrice_sends [OF 1(1)] resend_sends [OF assms(1) 1(2)]] by simp
  next
    case 2
    then show ?thesis by (rule resend_sends [OF assms(1)])
  next
    case 3
    then show ?thesis by (rule followUp_sends [OF assms(1)])
  qed
  with send_sends [OF assms(1) s] show ?thesis by (rule sends_trans)
qed

section \<open>The invariant\<close>

lemma sends_inv:
  assumes "tm_inv tm" and "sends a tm tm'"
  shows "tm_inv tm'"
proof (rule tm_inv_step [OF assms(1)])
  have inv: "mirror a tm" "indexed a tm" "listed tm" using assms(1) by (auto simp: tm_inv_def)
  have g: "agree {KPending a, KAddrNonce a, KGasPrice} (tm_db tm) (tm_db tm')" using assms(2) by (simp add: sends_def)
  show "mirror a tm'" using inv(1) assms(2) by (simp add: sends_def)
  have idx: "map rt_Index (all_raws a tm') = map rt_Index (all_raws a tm)"
    using assms(2) by (simp add: sends_def all_raws_def)
  show "indexed a tm'"
  proof (rule indexed_sub [OF inv(2)])
    show "ReadNumRawTxs a (tm_db tm') = ReadNumRawTxs a (tm_db tm)" by (rule read_agree(5) [OF g]) simp
    show "sorted (map rt_Index (pending tm' a))" using inv(2) assms(2) by (simp add: sends_def indexed_def)
  qed (simp add: idx)
  show "agree (keys_of a \<union> {KGasPrice}) (tm_db tm) (tm_db tm')" using g by (rule agree_mono) simp
  show "a \<in> set (addresses tm) \<or> all_raws a tm' = []" using inv(3) arg_cong [OF idx, of length] by (auto simp: listed_def)
qed (use assms(2) in \<open>simp_all add: sends_def others_same_def\<close>)

lemma iterate_inv:
  assumes "backend_ok B" and "hash_ok keccak" and "iterate keccak unlocked B a pick tm = Some tm'" and "tm_inv tm"
  shows "tm_inv tm'"
proof -
  obtain tm1 tm2 where c: "clearQueue keccak B a tm = Some tm1" "confirmQueue B a tm1 = Some tm2"
    and t: "tm' = tm2 \<or> (\<exists>i. sendPicked keccak unlocked B a i tm2 = Some tm')"
    using assms(3) by (auto simp: iterate_def Let_def bind_eq_Some_conv split: if_splits option.splits)
  have "tm_inv tm2" by (rule confirmQueue_inv [OF assms(1) c(2) clearQueue_inv [OF assms(1,2) c(1) assms(4)]])
  then show ?thesis using t sendPicked_sends [OF assms(1)] sends_inv by blast
qed

lemma confirmAll_inv:
  assumes "backend_ok B"
  shows "confirmAll B addrs tm = Some tm' \<Longrightarrow> tm_inv tm \<Longrightarrow> tm_inv tm'"
  using confirmQueue_inv [OF assms] by (induction addrs arbitrary: tm) (auto simp: bind_eq_Some_conv)

lemma tm_inv_block: "tm_inv (tm\<lparr>currentBlockNumber := n\<rparr>) = tm_inv tm"
  by (simp add: tm_inv_def mirror_def indexed_def listed_def all_raws_def nonce_of_account_def)

lemma newHeader_inv:
  assumes "backend_ok B" and "newHeader B found number (l, tm) = Some (l', tm')" and "tm_inv tm"
  shows "tm_inv tm'"
  using assms confirmAll_inv [OF assms(1)]
  by (auto simp: newHeader_def Let_def tm_inv_block split: if_splits)

section \<open>Runs of the manager\<close>

text \<open>
  A run interleaves calls of \<open>Add\<close>, rounds of the ticker and new headers, with any answers of the
  node and any unlocked keys in every step. The counters of 64 bits must not overflow.
\<close>

definition in_limits :: "TransactionManager \<Rightarrow> bool" where
  "in_limits tm \<longleftrightarrow> length (addresses tm) < 2 ^ 64 - 1 \<and> (\<forall>a. ReadNumRawTxs a (tm_db tm) \<noteq> Some (-1))"

inductive tm_step :: "(bytes \<Rightarrow> hash) \<Rightarrow> TransactionManager \<Rightarrow> TransactionManager \<Rightarrow> bool" for keccak where
  add: "Add keccak HasAddress a raw dup tm = Some (e, tm') \<Longrightarrow> tm_step keccak tm tm'"
| tick: "backend_ok B \<Longrightarrow> iterate keccak unlocked B a pick tm = Some tm' \<Longrightarrow> tm_step keccak tm tm'"
| head: "backend_ok B \<Longrightarrow> newHeader B found number (l, tm) = Some (l', tm') \<Longrightarrow> tm_step keccak tm tm'"

inductive tm_run :: "(bytes \<Rightarrow> hash) \<Rightarrow> TransactionManager \<Rightarrow> TransactionManager \<Rightarrow> bool" for keccak tm where
  start: "tm_run keccak tm tm"
| more: "tm_run keccak tm tm1 \<Longrightarrow> in_limits tm1 \<Longrightarrow> tm_step keccak tm1 tm2 \<Longrightarrow> in_limits tm2 \<Longrightarrow> tm_run keccak tm tm2"

inductive_cases tm_stepE: "tm_step keccak tm tm'"

lemma tm_step_inv:
  assumes "tm_step keccak tm tm'" and "hash_ok keccak" and "tm_inv tm" and "in_limits tm" and "in_limits tm'"
  shows "tm_inv tm'"
  using assms(1)
proof cases
  case (add HasAddress a raw dup e)
  then show ?thesis using assms(3-5) by (intro Add_inv [OF add]) (auto simp: in_limits_def)
next
  case (tick B unlocked a pick)
  then show ?thesis using iterate_inv assms(2,3) by blast
next
  case (head B found number l l')
  then show ?thesis using newHeader_inv assms(3) by blast
qed

lemma tm_run_inv: "tm_run keccak tm tm' \<Longrightarrow> hash_ok keccak \<Longrightarrow> tm_inv tm \<Longrightarrow> tm_inv tm'"
  by (induction rule: tm_run.induct) (auto intro: tm_step_inv)

end
