(* ===== verification/Tx_Restart.thy ===== *)
theory Tx_Restart
  imports Tx_Send_Inv
begin

text \<open>
  Loading a manager from the database of another one that satisfies the invariant, and the
  properties of the transaction manager.
\<close>

section \<open>Loading\<close>

lemma readConfirmedTxs_all:
  assumes "\<forall>j < length xs. ReadConfirmedTx a (of_nat j) db = Some (xs ! j)"
  shows "i + n = length xs \<Longrightarrow> readConfirmedTxs a i n db = Some (drop i xs)"
proof (induction n arbitrary: i)
  case (Suc n)
  then have "i < length xs" by simp
  moreover have "readConfirmedTxs a (i + 1) n db = Some (drop (i + 1) xs)" using Suc by (intro Suc.IH) simp
  ultimately show ?case using assms by (simp add: Cons_nth_drop_Suc)
qed simp

text \<open>What a loaded manager has of an account of the old one.\<close>

definition same_account :: "address \<Rightarrow> TransactionManager \<Rightarrow> TransactionManager \<Rightarrow> bool" where
  "same_account a tm tm' \<longleftrightarrow>
     confirmed tm' a = confirmed tm a \<and> map strip (unconfirmed tm' a) = map strip (unconfirmed tm a) \<and>
     map strip (pending tm' a) = map strip (pending tm a) \<and>
     (nonce_of_account a tm \<noteq> 0 \<longrightarrow> nonce_of_account a tm' = nonce_of_account a tm)"

definition node_answers :: "Backend \<Rightarrow> bool" where
  "node_answers B \<longleftrightarrow> (\<forall>t a. snd (rpc_nonce B t a) = None)"

lemma WriteAddrNonce_defined: "\<exists>db'. WriteAddrNonce a n db = Some db'"
  using u64_codec.write_defined by (simp add: WriteAddrNonce_def)

lemma loadAccount_restores:
  assumes "mirror a tm" and "length (confirmed tm a) < 2 ^ 64 - 1" and "node_answers B"
    and "agree (KAddrNonce ` A) (tm_db tm) (tm_db L)" and "a \<notin> A" and "tm_nonce L a = None"
  obtains L' n where "loadAccount B a L = Some (Inr L')" "same_account a tm L'" "addresses L' = addresses L @ [a]"
    "agree (KAddrNonce ` insert a A) (tm_db tm) (tm_db L')" "tm_nonce L' = (tm_nonce L)(a \<mapsto> n)"
    "\<And>b. b \<noteq> a \<Longrightarrow> confirmed L' b = confirmed L b \<and> unconfirmed L' b = unconfirmed L b \<and> pending L' b = pending L b"
proof -
  obtain us ps n where m: "ReadUnconfirmedTxs a (tm_db tm) = Some us" "map strip us = map strip (unconfirmed tm a)"
    "ReadPendingTxs a (tm_db tm) = Some ps" "map strip ps = map strip (pending tm a)"
    "ReadNumConfirmedRawTxs a (tm_db tm) = Some (of_nat (length (confirmed tm a)))"
    "\<forall>j < length (confirmed tm a). ReadConfirmedTx a (of_nat j) (tm_db tm) = Some (confirmed tm a ! j)"
    "ReadAddrNonce a (tm_db tm) = Some n" "nonce_of_account a tm \<in> {0, n}"
    using assms(1) unfolding mirror_def stored_def by blast
  have "ReadUnconfirmedTxs a (tm_db L) = ReadUnconfirmedTxs a (tm_db tm)" "ReadPendingTxs a (tm_db L) = ReadPendingTxs a (tm_db tm)"
    "ReadNumConfirmedRawTxs a (tm_db L) = ReadNumConfirmedRawTxs a (tm_db tm)" "ReadAddrNonce a (tm_db L) = ReadAddrNonce a (tm_db tm)"
    "\<And>i. ReadConfirmedTx a i (tm_db L) = ReadConfirmedTx a i (tm_db tm)"
    using assms(5) by (auto intro!: read_agree [OF assms(4)])
  then have r: "ReadUnconfirmedTxs a (tm_db L) = Some us" "ReadPendingTxs a (tm_db L) = Some ps"
    "ReadNumConfirmedRawTxs a (tm_db L) = Some (of_nat (length (confirmed tm a)))" "ReadAddrNonce a (tm_db L) = Some n"
    "\<forall>j < length (confirmed tm a). ReadConfirmedTx a (of_nat j) (tm_db L) = Some (confirmed tm a ! j)"
    using m by simp_all
  have "unat (of_nat (length (confirmed tm a)) :: u64) = length (confirmed tm a)"
    using assms(2) by (intro unat_of_nat_eq_u64) simp
  moreover have "(of_nat (length (confirmed tm a)) :: u64) \<noteq> -1"
    using calculation assms(2) by (auto simp: unsigned_minus_1_eq_mask mask_eq_exp_minus_1)
  moreover note readConfirmedTxs_all [OF r(5), of 0 "length (confirmed tm a)"]
  moreover define L1 where "L1 = L\<lparr>addresses := addresses L @ [a], confirmed := (confirmed L)(a := confirmed tm a),
                  unconfirmed := (unconfirmed L)(a := us), pending := (pending L)(a := ps), tm_nonce := (tm_nonce L)(a \<mapsto> n)\<rparr>"
  ultimately have load: "loadAccount B a L =
      (if n \<noteq> 0 then Some (Inr L1)
       else (case rpc_nonce B (tm_clock L1) a of
               (n, Some e) \<Rightarrow> Some (Inl (ErrNonce e))
             | (n, None) \<Rightarrow> WriteAddrNonce a n (tm_db L1) \<bind>
                 (\<lambda>db. Some (Inr (L1\<lparr>tm_nonce := (tm_nonce L1)(a \<mapsto> n), tm_db := db, tm_clock := tm_clock L1 + 1\<rparr>)))))"
    using assms(6) r by (simp add: loadAccount_def Let_def split: prod.splits option.splits)
  have g: "agree (KAddrNonce ` insert a A) (tm_db tm) (tm_db L)" using assms(4) by (rule agree_mono) auto
  show thesis
  proof (cases "n = 0")
    case False
    then show thesis
      using load m(2,4,8) g by (intro that [of L1 n]) (auto simp: L1_def same_account_def nonce_of_account_def)
  next
    case True
    obtain n' where n': "rpc_nonce B (tm_clock L1) a = (n', None)"
      using assms(3) unfolding node_answers_def by (metis prod.collapse)
    obtain db where w: "WriteAddrNonce a n' (tm_db L1) = Some db" using WriteAddrNonce_defined by blast
    have "WriteAddrNonce a n' (tm_db L) = Some db" using w by (simp add: L1_def)
    then have "agree (KAddrNonce ` insert a A) (tm_db tm) db"
      using agree_trans [OF g write_agree(4), of a n' db] by (rule_tac agree_mono) auto
    then show thesis
      using load True n' w m(2,4,8)
      by (intro that [of "L1\<lparr>tm_nonce := (tm_nonce L1)(a \<mapsto> n'), tm_db := db, tm_clock := tm_clock L1 + 1\<rparr>" n'])
        (auto simp: L1_def same_account_def nonce_of_account_def)
  qed
qed

text \<open>The manager after the first \<open>i\<close> accounts have been loaded.\<close>

definition loaded :: "TransactionManager \<Rightarrow> nat \<Rightarrow> TransactionManager \<Rightarrow> bool" where
  "loaded tm i L \<longleftrightarrow>
     addresses L = take i (addresses tm) \<and> dom (tm_nonce L) = set (take i (addresses tm)) \<and>
     agree (KAddrNonce ` set (take i (addresses tm))) (tm_db tm) (tm_db L) \<and>
     (\<forall>a \<in> set (take i (addresses tm)). same_account a tm L)"

lemma loadAccounts_restores:
  assumes "tm_inv tm" and "\<And>a. length (confirmed tm a) < 2 ^ 64 - 1" and "node_answers B"
  shows "loaded tm i L \<Longrightarrow> i + n = length (addresses tm) \<Longrightarrow>
    \<exists>L'. loadAccounts B i n L = Some (Inr L') \<and> loaded tm (i + n) L'"
proof (induction n arbitrary: i L)
  case (Suc n)
  let ?a = "addresses tm ! i" and ?A = "set (take i (addresses tm))"
  have i: "i < length (addresses tm)" using Suc.prems(2) by simp
  have l: "listed tm" and m: "mirror ?a tm" using assms(1) by (auto simp: tm_inv_def)
  have g: "agree (KAddrNonce ` ?A) (tm_db tm) (tm_db L)" using Suc.prems(1) by (simp add: loaded_def)
  have read: "ReadAddr (of_nat i) (tm_db L) = Some ?a"
    using l i read_agree(3) [OF g, of "of_nat i"] by (auto simp: listed_def)
  have new: "?a \<notin> ?A" using l i by (auto simp: listed_def in_set_conv_nth nth_eq_iff_index_eq)
  then have none: "tm_nonce L ?a = None" using Suc.prems(1) by (auto simp: loaded_def)
  obtain L1 k where L1: "loadAccount B ?a L = Some (Inr L1)" "same_account ?a tm L1" "addresses L1 = addresses L @ [?a]"
    "agree (KAddrNonce ` insert ?a ?A) (tm_db tm) (tm_db L1)" "tm_nonce L1 = (tm_nonce L)(?a \<mapsto> k)"
    "\<And>b. b \<noteq> ?a \<Longrightarrow> confirmed L1 b = confirmed L b \<and> unconfirmed L1 b = unconfirmed L b \<and> pending L1 b = pending L b"
    by (rule loadAccount_restores [OF m assms(2,3) g new none]) blast
  have take: "take (i + 1) (addresses tm) = take i (addresses tm) @ [?a]" using i by (simp add: take_Suc_conv_app_nth)
  have "same_account b tm L1" if "b \<in> ?A" for b
    using that new Suc.prems(1) L1(5) L1(6) [of b] by (auto simp: loaded_def same_account_def nonce_of_account_def)
  then have "loaded tm (i + 1) L1"
    using Suc.prems(1) L1(2-5) unfolding loaded_def take by auto
  then obtain L' where "loadAccounts B (i + 1) n L1 = Some (Inr L') \<and> loaded tm (i + 1 + n) L'"
    using Suc.IH Suc.prems(2) by force
  then show ?case using read L1(1) by simp
qed simp

lemma in_limits_confirmed:
  assumes "tm_inv tm" and "in_limits tm"
  shows "length (confirmed tm a) < 2 ^ 64 - 1"
proof -
  have "indexed a tm" using assms(1) by (simp add: tm_inv_def)
  then obtain n where n: "ReadNumRawTxs a (tm_db tm) = Some n" "length (all_raws a tm) \<le> unat n"
    using indexed_length_le by blast
  then have "n \<noteq> -1" using assms(2) by (auto simp: in_limits_def)
  then have "unat n \<noteq> unat (-1 :: u64)" by (simp add: word_unat_eq_iff)
  then have "unat n \<noteq> 2 ^ 64 - 1" by (simp add: unsigned_minus_1_eq_mask mask_eq_exp_minus_1)
  moreover have "unat n < 2 ^ 64" by simp
  ultimately have "unat n < 2 ^ 64 - 1" by linarith
  then show ?thesis using n(2) by (simp add: all_raws_def)
qed

lemma NewTransactionManager_restores:
  assumes "tm_inv tm" and "in_limits tm" and "node_answers B" and "MinGasPrice config \<le> MaxGasPrice config"
  shows "\<exists>tm'. NewTransactionManager B config t (tm_db tm) = Some (Inr tm') \<and> addresses tm' = addresses tm \<and>
    (\<forall>a \<in> set (addresses tm). same_account a tm tm')"
proof -
  let ?n = "length (addresses tm)"
  obtain g where g: "ReadGasPrice (tm_db tm) = Some g" using assms(1) by (auto simp: tm_inv_def)
  have l: "listed tm" using assms(1) by (simp add: tm_inv_def)
  have u: "unat (of_nat ?n :: u64) = ?n" using assms(2) by (intro unat_of_nat_eq_u64) (simp add: in_limits_def)
  moreover have "(of_nat ?n :: u64) \<noteq> -1"
    using calculation assms(2) by (auto simp: in_limits_def unsigned_minus_1_eq_mask mask_eq_exp_minus_1)
  ultimately obtain L where new: "NewTransactionManager B config t (tm_db tm) = loadAccounts B 0 ?n L" and L: "loaded tm 0 L"
    using g l assms(4) by (auto simp: NewTransactionManager_def Let_def listed_def loaded_def)
  from loadAccounts_restores [OF assms(1) in_limits_confirmed [OF assms(1,2)] assms(3) L, of ?n] obtain tm'
    where "loadAccounts B 0 ?n L = Some (Inr tm')" "loaded tm ?n tm'" by auto
  then show ?thesis using new by (auto simp: loaded_def)
qed

section \<open>The gas price in a run\<close>

definition price_ok :: "TransactionManager \<Rightarrow> bool" where
  "price_ok tm \<longleftrightarrow> MinGasPrice (tm_config tm) \<le> MaxGasPrice (tm_config tm) \<and> in_range tm"

lemma price_ok_same: "tm_config tm' = tm_config tm \<Longrightarrow> tm_gasPrice tm' = tm_gasPrice tm \<Longrightarrow> price_ok tm' = price_ok tm"
  by (simp add: price_ok_def in_range_def)

lemma priced_price: "priced tm tm' \<Longrightarrow> price_ok tm \<Longrightarrow> price_ok tm'"
  by (simp add: priced_def price_ok_def)

lemma sends_price: "sends a tm tm' \<Longrightarrow> price_ok tm \<Longrightarrow> price_ok tm'"
  by (simp add: sends_def price_ok_def)

lemma clearQueue_price:
  assumes "clearQueue keccak B a tm = Some tm'" and "price_ok tm"
  shows "price_ok tm'"
proof (cases "pending tm a = []")
  case False
  then obtain q tm1 where c: "checkLoop keccak B (pending tm a) tm = Some (q, tm1)"
    and t: "tm_config tm' = tm_config tm1" "tm_gasPrice tm' = tm_gasPrice tm1"
    using assms(1) by (auto simp: clearQueue_def Let_def bind_eq_Some_conv split: if_splits)
  have "price_ok tm1" using checkLoop_frame [OF c] assms(2) priced_price by blast
  then show ?thesis using price_ok_same [OF t] by simp
qed (use assms in \<open>simp add: clearQueue_def\<close>)

lemma confirmQueue_price: "confirmQueue B a tm = Some tm' \<Longrightarrow> tm_config tm' = tm_config tm \<and> tm_gasPrice tm' = tm_gasPrice tm"
  by (auto simp: confirmQueue_def resendRemoved_def moveConfirmed_def Let_def bind_eq_Some_conv split: if_splits prod.splits)

lemma confirmAll_price: "confirmAll B as tm = Some tm' \<Longrightarrow> tm_config tm' = tm_config tm \<and> tm_gasPrice tm' = tm_gasPrice tm"
proof (induction as arbitrary: tm)
  case (Cons a as)
  then obtain tm1 where "confirmQueue B a tm = Some tm1" "confirmAll B as tm1 = Some tm'" by (auto simp: bind_eq_Some_conv)
  then show ?case using Cons.IH [of tm1] confirmQueue_price [of B a tm tm1] by simp
qed simp

lemma Add_price: "Add keccak H a raw dup tm = Some (e, tm') \<Longrightarrow> tm_config tm' = tm_config tm \<and> tm_gasPrice tm' = tm_gasPrice tm"
  by (auto simp: Add_def register_def enqueue_def Let_def bind_eq_Some_conv split: if_splits)

lemma iterate_price:
  assumes "backend_ok B" and "iterate keccak unlocked B a pick tm = Some tm'" and "price_ok tm"
  shows "price_ok tm'"
proof -
  obtain tm1 tm2 where c: "clearQueue keccak B a tm = Some tm1" "confirmQueue B a tm1 = Some tm2"
    and t: "tm' = tm2 \<or> (\<exists>i. sendPicked keccak unlocked B a i tm2 = Some tm')"
    using assms(2) by (auto simp: iterate_def Let_def bind_eq_Some_conv split: if_splits option.splits)
  have "price_ok tm2"
    using clearQueue_price [OF c(1) assms(3)] confirmQueue_price [OF c(2)] price_ok_same by blast
  then show ?thesis using t sendPicked_sends [OF assms(1)] sends_price by blast
qed

lemma tm_step_price: "tm_step keccak tm tm' \<Longrightarrow> price_ok tm \<Longrightarrow> price_ok tm'"
proof (erule tm_stepE, goal_cases)
  case (1 H a raw dup e)
  then show ?case using Add_price price_ok_same by blast
next
  case (2 B unlocked a pick)
  then show ?case using iterate_price by blast
next
  case (3 B found number l l')
  then consider "tm_config tm' = tm_config tm" "tm_gasPrice tm' = tm_gasPrice tm"
    using confirmAll_price [of B "addresses tm" "tm\<lparr>currentBlockNumber := number\<rparr>" tm']
    by (auto simp: newHeader_def Let_def split: if_splits)
  then show ?case using 3 price_ok_same by cases blast
qed

lemma tm_run_price: "tm_run keccak tm tm' \<Longrightarrow> price_ok tm \<Longrightarrow> price_ok tm'"
  by (induction rule: tm_run.induct) (auto intro: tm_step_price)

section \<open>A new manager\<close>

lemma loadAccount_price:
  "loadAccount B a tm = Some (Inr tm') \<Longrightarrow> tm_config tm' = tm_config tm \<and> tm_gasPrice tm' = tm_gasPrice tm"
  by (auto simp: loadAccount_def Let_def split: Option.bind_splits if_splits option.splits prod.splits)

lemma loadAccounts_price:
  "loadAccounts B i n tm = Some (Inr tm') \<Longrightarrow> tm_config tm' = tm_config tm \<and> tm_gasPrice tm' = tm_gasPrice tm"
proof (induction n arbitrary: i tm)
  case (Suc n)
  then obtain a tm1 where "loadAccount B a tm = Some (Inr tm1)" "loadAccounts B (i + 1) n tm1 = Some (Inr tm')"
    by (auto split: Option.bind_splits sum.splits)
  then show ?case using Suc.IH loadAccount_price by metis
qed simp

text \<open>A stored price out of range is clamped.\<close>

lemma NewTransactionManager_price:
  assumes "NewTransactionManager B config t db = Some (Inr tm)"
  shows "price_ok tm" "tm_config tm = config"
proof -
  obtain g n where r: "ReadGasPrice db = Some g" "ReadNumAddr db = Some n" "n \<noteq> -1"
    and c: "MinGasPrice config \<le> MaxGasPrice config"
    using assms by (auto simp: NewTransactionManager_def Let_def split: Option.bind_splits if_splits)
  from assms r c loadAccounts_price
  have "tm_config tm = config \<and> tm_gasPrice tm = clamp config (if cfg_GasPrice config = 0 then DefaultGasPrice else g)"
    by (fastforce simp: NewTransactionManager_def Let_def)
  then show "tm_config tm = config" "price_ok tm" using clamp_range [OF c] c by (auto simp: price_ok_def in_range_def)
qed

lemma NewTransactionManager_empty:
  assumes "NewTransactionManager B config t Map.empty = Some (Inr tm)"
  shows "tm_inv tm \<and> in_limits tm \<and> price_ok tm"
proof -
  have tm: "tm = \<lparr>tm_config = config, tm_db = Map.empty, currentBlockNumber = 0,
      tm_gasPrice = clamp config (if cfg_GasPrice config = 0 then DefaultGasPrice else 10 * GWei), addresses = [],
      confirmed = (\<lambda>_. []), unconfirmed = (\<lambda>_. []), pending = (\<lambda>_. []), tm_nonce = Map.empty, numKnownErr = (\<lambda>_. 0), tm_clock = t\<rparr>"
    and c: "MinGasPrice config \<le> MaxGasPrice config"
    using assms by (auto simp: NewTransactionManager_def ReadGasPrice_def ReadNumAddr_def db_read_def db_get_def Let_def split: if_splits)
  have "mirror a tm" "indexed a tm" for a
    by (simp_all add: tm mirror_def indexed_def all_raws_def nonce_of_account_def read_defs db_read_def db_get_def)
  moreover have "listed tm" "in_limits tm"
    by (simp_all add: tm listed_def in_limits_def all_raws_def read_defs db_read_def db_get_def)
  moreover have "price_ok tm" using c clamp_range [OF c] by (simp add: tm price_ok_def in_range_def)
  ultimately show ?thesis by (simp add: tm_inv_def) (simp add: tm read_defs db_read_def db_get_def)
qed

end
