(* ===== verification/Tx_Props.thy ===== *)
theory Tx_Props
  imports Tx_Restart
begin

text \<open>
  The properties of the transaction manager: what adding does, what the queues keep and lose,
  the range of the gas price, the end of sending, the invariant of runs, and restarting.
\<close>

section \<open>Example\<close>

definition backend0 :: Backend where
  "backend0 = \<lparr>rpc_receipt = (\<lambda>t h. (None, None)), rpc_transaction = (\<lambda>t h. (False, None)), rpc_nonce = (\<lambda>t a. (0, None)),
     rpc_send = (\<lambda>t x. None), rpc_new_head = (\<lambda>t. True)\<rparr>"

definition config0 :: TxConfig where
  "config0 = \<lparr>cfg_GasPrice = 10, MinGasPrice = 1, MaxGasPrice = 100, cfg_ChainId = Some 16\<rparr>"

definition manager0 :: TransactionManager where
  "manager0 = \<lparr>tm_config = config0, tm_db = Map.empty, currentBlockNumber = 0, tm_gasPrice = 100, addresses = [],
      confirmed = (\<lambda>_. []), unconfirmed = (\<lambda>_. []), pending = (\<lambda>_. []), tm_nonce = Map.empty,
      numKnownErr = (\<lambda>_. 0), tm_clock = 0\<rparr>"

lemma manager0_new: "NewTransactionManager backend0 config0 0 Map.empty = Some (Inr manager0)"
  by (simp add: NewTransactionManager_def read_defs db_read_def db_get_def config0_def manager0_def clamp_def GWei_def)

lemmas manager0_inv = NewTransactionManager_empty [OF manager0_new, THEN conjunct1]
  and manager0_limits = NewTransactionManager_empty [OF manager0_new, THEN conjunct2, THEN conjunct1]

lemma raw0_storable:
  "encodable (item_of_raws [raw0\<lparr>rt_Index := 0, rt_Nonce := 0\<rparr>])" "small (item_of_raws [raw0\<lparr>rt_Index := 0, rt_Nonce := 0\<rparr>])"
  "encodable (item_of_raw raw0)" "small (item_of_raw raw0)"
  by (simp_all add: raw0_def NewRawTransaction_def small_def item_of_raws_def item_of_raw_def opt_addr_def
      list_enc_def str_enc_def puthead_def putint_def big_Bytes.simps)

lemma WriteNumber_defined: "\<exists>d. WriteNumAddr n db = Some d" "\<exists>d. WriteAddr i a db = Some d" "\<exists>d. WriteNumRawTxs a n db = Some d"
  using u64_codec.write_defined addr_codec.write_defined by (simp_all add: write_defs)

lemma manager0_Add: "\<exists>tm. Add (\<lambda>b. 77) (\<lambda>a. True) 7 raw0 False manager0 = Some (None, tm) \<and> in_limits tm"
proof -
  obtain db1 where w1: "WriteNumAddr 1 Map.empty = Some db1" using WriteNumber_defined(1) by blast
  obtain db2 where w2: "WriteAddr 0 7 db1 = Some db2" using WriteNumber_defined(2) by blast
  have h: "raw_Hash (\<lambda>b. 77) raw0 = Some 77" by (simp add: raw_Hash_def raw0_def NewRawTransaction_def tx_Hash_def)
  obtain db3 where w3: "WriteRawTxHash (\<lambda>b. 77) 7 raw0 db2 = Some db3"
    using h raw0_storable(3,4) by (simp add: WriteRawTxHash_def db_write_encoded)
  have g2: "agree ({KNumAddr} \<union> {KAddr 0}) Map.empty db2" by (rule agree_trans [OF write_agree(2) [OF w1] write_agree(3) [OF w2]])
  have g3: "agree (({KNumAddr} \<union> {KAddr 0}) \<union> range (KRawHash 7)) Map.empty db3"
    by (rule agree_trans [OF g2 WriteRawTxHash_agree [OF w3]])
  have r: "ReadRawTxHash 7 77 db2 = Some None" "ReadNumRawTxs 7 db3 = Some 0"
    using read_agree(10) [OF g2, of 7 77] read_agree(5) [OF g3, of 7] by (auto simp: read_defs db_read_def db_get_def)
  obtain db4 where w4: "WriteNumRawTxs 7 1 db3 = Some db4" using WriteNumber_defined(3) by blast
  obtain db5 where w5: "WriteAddrNonce 7 1 db4 = Some db5" using WriteAddrNonce_defined by blast
  obtain db6 where w6: "WritePendingTxs 7 [raw0\<lparr>rt_Index := 0, rt_Nonce := 0\<rparr>] db5 = Some db6"
    using raw0_storable(1,2) by (simp add: WritePendingTxs_def db_write_encoded)
  have "ReadNumRawTxs b db6 = Some (if b = 7 then 1 else 0)" for b
    using read_agree(5) [OF agree_trans [OF write_agree(4) [OF w5] write_agree(9) [OF w6]], of b]
      read_agree(5) [OF write_agree(5) [OF w4], of b] read_agree(5) [OF g3, of b] read_written_number(1) [OF w4]
    by (auto simp: read_defs db_read_def db_get_def)
  then show ?thesis
    using w1 w2 h w3 r w4 w5 w6
    by (simp add: Add_def register_def indexOf_def enqueue_def nonce_of_account_def manager0_def in_limits_def Let_def)
qed

section \<open>Adding\<close>

lemma ReadRawTxHash_written:
  assumes "WriteRawTxHash keccak a raw db = Some db'" and "raw_Hash keccak raw = Some h"
  shows "ReadRawTxHash a h db' = Some (Some raw)"
proof -
  have w: "db_write (rawTxHashKey a h) (item_of_raw raw) db = Some db'" using assms by (simp add: WriteRawTxHash_def)
  have "rt_Recipient raw \<noteq> None" using assms(2) by (auto simp: raw_Hash_def split: option.splits)
  then have ok: "raw_ok raw" using w encodable_raw by (simp add: db_write_encoded)
  show ?thesis
    using raw_codec.decode_written [OF w ok] by (auto simp: ReadRawTxHash_def db_read_def db_decode_def split: option.splits sum.splits)
qed

lemma Add_cases:
  assumes "Add keccak HasAddress a raw False tm = Some (None, tm')" and "tm_inv tm" and "in_limits tm'"
  obtains h tm1 db where "HasAddress a" "raw_Hash keccak raw = Some h" "register a tm = Some tm1"
    "WriteRawTxHash keccak a raw (tm_db tm1) = Some db" "enqueue a raw (tm1\<lparr>tm_db := db\<rparr>) = Some tm'"
    "a \<in> set (addresses tm1)" "\<And>b. all_raws b tm1 = all_raws b tm" "tm_nonce tm1 = tm_nonce tm"
    "ReadNumRawTxs a db = ReadNumRawTxs a (tm_db tm)"
proof -
  from assms(1) obtain h tm1 db where c: "HasAddress a" "raw_Hash keccak raw = Some h" "register a tm = Some tm1"
    "WriteRawTxHash keccak a raw (tm_db tm1) = Some db" "enqueue a raw (tm1\<lparr>tm_db := db\<rparr>) = Some tm'"
    by (auto simp: Add_def bind_eq_Some_conv split: if_splits)
  have "addresses tm' = addresses tm1" using enqueue_frame(1) [OF c(5)] by simp
  then have l: "length (addresses tm1) < 2 ^ 64 - 1" using assms(3) by (simp add: in_limits_def)
  have "ReadNumRawTxs a db = ReadNumRawTxs a (tm_db tm1)"
    by (rule read_agree(5) [OF WriteRawTxHash_agree [OF c(4)]]) auto
  then show thesis using that [OF c] register_inv [OF c(3) assms(2) l] by metis
qed

lemma all_raws_Nil: "all_raws a tm = [] \<longleftrightarrow> confirmed tm a = [] \<and> unconfirmed tm a = [] \<and> pending tm a = []"
  by (simp add: all_raws_def)

lemma register_queues:
  assumes "register a tm = Some tm1" and "tm_inv tm"
  shows "confirmed tm1 = confirmed tm" "unconfirmed tm1 = unconfirmed tm" "pending tm1 = pending tm"
proof -
  have "all_raws a tm = []" if "a \<notin> set (addresses tm)" using assms(2) that by (simp add: tm_inv_def listed_def)
  then show "confirmed tm1 = confirmed tm" "unconfirmed tm1 = unconfirmed tm" "pending tm1 = pending tm"
    using assms(1) by (auto simp: register_def indexOf_iff all_raws_Nil Let_def bind_eq_Some_conv split: if_splits)
qed

text \<open>
  C28. A raw transaction that Add accepts as a new one (with \<^verbatim>\<open>duplicate\<close> false), in a manager that
  satisfies the invariant and stays within the limits, is appended to the pending queue of its
  account, with the next index of the account and with the account's nonce; the index counter and
  the nonce, in memory and in the database, have grown by one; no other queue and no other nonce
  changes; and the same transaction is refused as a new one from then on, whatever index or nonce
  it carries.
\<close>

theorem Add_appends:
  assumes "Add keccak HasAddress a raw False tm = Some (None, tm')" and "tm_inv tm" and "in_limits tm'"
  shows "(\<exists>n. ReadNumRawTxs a (tm_db tm) = Some n \<and> ReadNumRawTxs a (tm_db tm') = Some (n + 1) \<and>
      a \<in> set (addresses tm') \<and> confirmed tm' = confirmed tm \<and> unconfirmed tm' = unconfirmed tm \<and>
      pending tm' = (pending tm)(a := pending tm a @ [raw\<lparr>rt_Index := n, rt_Nonce := sint (nonce_of_account a tm)\<rparr>])) \<and>
    tm_nonce tm' = (tm_nonce tm)(a \<mapsto> nonce_of_account a tm + 1) \<and>
    ReadAddrNonce a (tm_db tm') = Some (nonce_of_account a tm + 1) \<and>
    (\<forall>raw2. raw_Hash keccak raw2 = raw_Hash keccak raw \<longrightarrow>
      Add keccak HasAddress a raw2 False tm' = Some (Some ErrDuplicateRaw, tm'))"
  using assms
proof (cases rule: Add_cases)
  case (1 h tm1 db)
  note q = register_queues [OF 1(3) assms(2)]
  have g: "agree {KNumRawTxs a, KAddrNonce a, KPending a} db (tm_db tm')" using enqueue_frame(4) [OF 1(5)] by simp
  have dup: "ReadRawTxHash a h (tm_db tm') = Some (Some raw)"
    using read_agree(10) [OF g] ReadRawTxHash_written [OF 1(4,2)] by simp
  have "a \<in> set (addresses tm')" using 1(6) enqueue_frame(1) [OF 1(5)] by simp
  then have reg: "register a tm' = Some tm'" by (simp add: register_def indexOf_iff)
  from 1(5) obtain n db1 db2 where e: "ReadNumRawTxs a db = Some n" "WriteNumRawTxs a (n + 1) db = Some db1"
    "WriteAddrNonce a (nonce_of_account a tm + 1) db1 = Some db2" "confirmed tm' = confirmed tm" "unconfirmed tm' = unconfirmed tm"
    "pending tm' = (pending tm)(a := pending tm a @ [raw\<lparr>rt_Index := n, rt_Nonce := sint (nonce_of_account a tm)\<rparr>])"
    "WritePendingTxs a (pending tm' a) db2 = Some (tm_db tm')" "tm_nonce tm' = (tm_nonce tm)(a \<mapsto> nonce_of_account a tm + 1)"
    using q 1(8) by (elim enqueue_cases) (auto simp: nonce_of_account_def)
  have "ReadNumRawTxs a (tm_db tm') = Some (n + 1)"
    using read_agree(5) [OF agree_trans [OF write_agree(4) [OF e(3)] write_agree(9) [OF e(7)]]]
      read_written_number(1) [OF e(2)] by simp
  moreover have "ReadAddrNonce a (tm_db tm') = Some (nonce_of_account a tm + 1)"
    using read_agree(4) [OF write_agree(9) [OF e(7)]] read_written_number(3) [OF e(3)] by simp
  ultimately show ?thesis using e 1(1,2,9) reg dup \<open>a \<in> set (addresses tm')\<close> by (auto simp: Add_def)
qed

theorem Add_appends_witness:
  "\<exists>tm. Add (\<lambda>b. 77) (\<lambda>a. True) 7 raw0 False manager0 = Some (None, tm) \<and>
     pending tm 7 = [raw0] \<and> nonce_of_account 7 tm = 1 \<and> Add (\<lambda>b. 77) (\<lambda>a. True) 7 raw0 False tm = Some (Some ErrDuplicateRaw, tm)"
proof -
  obtain tm where a: "Add (\<lambda>b. 77) (\<lambda>a. True) 7 raw0 False manager0 = Some (None, tm)" "in_limits tm" using manager0_Add by blast
  have "raw0\<lparr>rt_Index := 0, rt_Nonce := 0\<rparr> = raw0" by (simp add: raw0_def NewRawTransaction_def)
  then show ?thesis
    using Add_appends [OF a(1) manager0_inv a(2)] a(1)
    by (auto simp: manager0_def nonce_of_account_def read_defs db_read_def db_get_def)
qed

section \<open>The queues\<close>

text \<open>
  C31. As long as the node answers, the rounds of the manager lose no raw transaction and invent
  none: clearQueue and confirmQueue only move the raw transactions of the account between its
  queues, and do not touch other accounts.
\<close>

theorem queues_keep_raws:
  assumes "\<And>t h. snd (rpc_receipt B t h) \<noteq> Some RpcError"
    and "clearQueue keccak B a tm = Some tm' \<or> confirmQueue B a tm = Some tm'"
  shows "mset (map rt_Index (all_raws a tm')) = mset (map rt_Index (all_raws a tm)) \<and> others_same a tm tm'"
  using assms(2)
proof
  assume "clearQueue keccak B a tm = Some tm'"
  then show ?thesis using clearQueue_frame by metis
next
  assume c: "confirmQueue B a tm = Some tm'"
  have "Removed B t raw \<noteq> Inl e" for t raw e
    using assms(1) [of t "MinedTxHash raw"]
    by (auto simp: Removed_def TransactionReceipt_def split: prod.splits option.splits backendError.splits if_splits)
  then have "dropped B a tm = []"
    using removedLoop_all [of "unconfirmed tm a" B "tm_clock tm"] by (auto simp: dropped_def split: prod.splits)
  then show ?thesis using confirmQueue_frame [OF c] by simp
qed

theorem queues_keep_raws_witness:
  "\<exists>tm'. clearQueue (\<lambda>b. 77) backend0 7 (manager0\<lparr>pending := (pending manager0)(7 := [raw0])\<rparr>) = Some tm' \<and>
     mset (map rt_Index (all_raws 7 tm')) = {#rt_Index raw0#}"
proof -
  let ?tm = "manager0\<lparr>pending := (pending manager0)(7 := [raw0])\<rparr>"
  obtain tm' where c: "clearQueue (\<lambda>b. 77) backend0 7 ?tm = Some tm'"
    by (auto simp: clearQueue_def CheckMined_def raw0_def NewRawTransaction_def Mined_def)
  have "snd (rpc_receipt backend0 t h) \<noteq> Some RpcError" for t h by (simp add: backend0_def)
  from queues_keep_raws [OF this disjI1 [OF c]] show ?thesis using c by (auto simp: all_raws_def manager0_def)
qed

lemma removedLoop_fails:
  assumes "\<And>i. i < length pre \<Longrightarrow> \<exists>b. Removed B (t + i) (pre ! i) = Inr b" and "Removed B (t + length pre) bad = Inl e"
  shows "\<exists>rs ks t'. removedLoop B t (pre @ bad # post) = (rs, ks, length pre, t')"
  using assms
proof (induction pre arbitrary: t)
  case (Cons raw pre)
  obtain b where b: "Removed B t raw = Inr b" using Cons.prems(1) [of 0] by auto
  have "\<exists>b. Removed B (t + 1 + i) (pre ! i) = Inr b" if "i < length pre" for i
    using Cons.prems(1) [of "Suc i"] that by simp
  then obtain rs ks t' where "removedLoop B (t + 1) (pre @ bad # post) = (rs, ks, length pre, t')"
    using Cons.IH [of "t + 1"] Cons.prems(2) by auto
  then show ?case using b by simp
qed simp

text \<open>
  C32. When the node fails in the middle of confirmQueue, after it has answered for at least one
  raw transaction, the raw transactions from the failed one on are in no queue any more.
\<close>

theorem confirmQueue_drops_behind_error:
  assumes "confirmQueue B a tm = Some tm'" and "distinct (map rt_Index (all_raws a tm))"
    and "unconfirmed tm a = pre @ bad # post" and "pre \<noteq> []"
    and "\<And>i. i < length pre \<Longrightarrow> \<exists>b. Removed B (tm_clock tm + i) (pre ! i) = Inr b"
    and "Removed B (tm_clock tm + length pre) bad = Inl e"
  shows "rt_Index ` set (bad # post) \<inter> rt_Index ` set (all_raws a tm') = {}"
proof -
  obtain rs ks t' where r: "removedLoop B (tm_clock tm) (unconfirmed tm a) = (rs, ks, length pre, t')"
    using removedLoop_fails [OF assms(5,6)] assms(3) by metis
  have d: "dropped B a tm = bad # post" using assms(3,4) r by (simp add: dropped_def)
  have "mset (map rt_Index (all_raws a tm') @ map rt_Index (bad # post)) = mset (map rt_Index (all_raws a tm))"
    using confirmQueue_frame(1) [OF assms(1)] unfolding d mset_append by simp
  then have "distinct (map rt_Index (all_raws a tm') @ map rt_Index (bad # post))"
    using assms(2) mset_eq_imp_distinct_iff by blast
  then show ?thesis by (auto simp del: map_map)
qed

definition failing :: Backend where
  "failing = backend0\<lparr>rpc_receipt := (\<lambda>t h. if t = 1 then (None, Some RpcError) else (Some \<lparr>Status = 1, BlockNumber = 0\<rparr>, None))\<rparr>"

definition mined0 :: "u64 \<Rightarrow> RawTransaction" where "mined0 i = raw0\<lparr>rt_Index := i, MinedTxHash := 5\<rparr>"

theorem confirmQueue_drops_behind_error_witness:
  "\<exists>tm'. confirmQueue failing 7 (manager0\<lparr>unconfirmed := (\<lambda>_. [mined0 0, mined0 1])\<rparr>) = Some tm' \<and>
     rt_Index ` set (mined0 1 # []) \<inter> rt_Index ` set (all_raws 7 tm') = {}"
proof -
  let ?tm = "manager0\<lparr>unconfirmed := (\<lambda>_. [mined0 0, mined0 1])\<rparr>"
  have w: "\<exists>d. WriteUnconfirmedTxs 7 [mined0 0] db = Some d" "\<exists>d. WritePendingTxs 7 [] db = Some d" for db
    by (simp_all add: WriteUnconfirmedTxs_def WritePendingTxs_def db_write_encoded mined0_def raw0_def NewRawTransaction_def
        small_def item_of_raws_def item_of_raw_def opt_addr_def list_enc_def str_enc_def puthead_def putint_def big_Bytes.simps)
  obtain db1 where w1: "WriteUnconfirmedTxs 7 [mined0 0] Map.empty = Some db1" using w(1) by blast
  obtain db2 where w2: "WritePendingTxs 7 [] db1 = Some db2" using w(2) by blast
  have "agree ({KUnconfirmed 7} \<union> {KPending 7}) Map.empty db2" by (rule agree_trans [OF write_agree(8) [OF w1] write_agree(9) [OF w2]])
  then have r: "ReadNumConfirmedRawTxs 7 db2 = Some 0"
    using read_agree(6) [of _ Map.empty db2 7] by (auto simp: read_defs db_read_def db_get_def)
  have m: "Removed failing 0 (mined0 0) = Inr False" "Removed failing 1 (mined0 1) = Inl RpcError"
    by (simp_all add: Removed_def TransactionReceipt_def failing_def)
  obtain tm' where c: "confirmQueue failing 7 ?tm = Some tm'"
    using w1 w2 r m
    by (auto simp: confirmQueue_def resendRemoved_def moveConfirmed_def manager0_def Confirmed_def TransactionReceipt_def
        failing_def mined0_def Confirmation_def)
  show ?thesis
    using confirmQueue_drops_behind_error [OF c, of "[mined0 0]" "mined0 1" "[]" RpcError] m c
    by (auto simp: all_raws_def manager0_def mined0_def)
qed

section \<open>Sending\<close>

text \<open>
  C33. Sending a raw transaction ends: every attempt that has to be repeated with another nonce
  adds one transaction to the pending transactions of the raw transaction, and there are at most
  \<^verbatim>\<open>MaxNumPending\<close> of them.
\<close>

theorem attempts_bounded:
  assumes "((\<lambda>x y. attempt keccak unlocked B a i x = Some (None, y)) ^^ n) tm tm'"
  shows "n \<le> MaxNumPending - length (PendingTxs (pending tm a ! i)) \<and>
    length (PendingTxs (pending tm' a ! i)) = n + length (PendingTxs (pending tm a ! i))"
  using assms
proof (induction n arbitrary: tm')
  case (Suc n)
  then obtain tm1 where "((\<lambda>x y. attempt keccak unlocked B a i x = Some (None, y)) ^^ n) tm tm1"
    and "attempt keccak unlocked B a i tm1 = Some (None, tm')" by auto
  then show ?case using Suc.IH attempt_again by fastforce
qed simp

definition tooLow :: Backend where
  "tooLow = backend0\<lparr>rpc_send := (\<lambda>t x. Some ''Nonce too low''), rpc_nonce := (\<lambda>t a. (0, Some RpcError))\<rparr>"

lemma too_low:
  "\<not> Contains (ToLower ''Nonce too low'') ''insufficient funds for gas * price + value''"
  "\<not> Contains (ToLower ''Nonce too low'') ''replacement transaction underpriced''"
  "\<not> Contains (ToLower ''Nonce too low'') ''transaction underpriced''"
  "\<not> Contains (ToLower ''Nonce too low'') ''known transaction''"
  "Contains (ToLower ''Nonce too low'') ''nonce too low''"
  by code_simp+

theorem attempts_bounded_witness:
  "\<exists>tm'. attempt (\<lambda>b. 77) Map.empty tooLow 0 0 (manager0\<lparr>pending := (\<lambda>_. [raw0])\<rparr>) = Some (None, tm') \<and>
     length (PendingTxs (pending tm' 0 ! 0)) = 1"
proof -
  let ?tm = "manager0\<lparr>pending := (\<lambda>_. [raw0])\<rparr>"
  let ?tx = "(ToTransaction 100 raw0)\<lparr>tx_V := 0, tx_R := 0, tx_S := 0\<rparr>"
  have "\<exists>d. WritePendingTxs 0 [raw0\<lparr>PendingTxs := [?tx], LastSentBlockNumber := 0\<rparr>] Map.empty = Some d"
    by (simp add: WritePendingTxs_def db_write_encoded raw0_def NewRawTransaction_def ToTransaction_def NewTransaction_def newTransaction_def
        small_def item_of_raws_def item_of_raw_def item_of_tx_def opt_addr_def list_enc_def str_enc_def puthead_def putint_def
        big_Bytes.simps)
  then obtain db where w: "WritePendingTxs 0 [raw0\<lparr>PendingTxs := [?tx], LastSentBlockNumber := 0\<rparr>] Map.empty = Some db" by blast
  have e: "EncodeToBytes (item_of_tx ?tx) \<noteq> None"
    by (simp add: EncodeToBytes_enc raw0_def NewRawTransaction_def ToTransaction_def NewTransaction_def newTransaction_def small_def
        item_of_tx_def opt_addr_def list_enc_def str_enc_def puthead_def putint_def big_Bytes.simps)
  have f: "LastSentBlockNumber raw0 = 0" "PendingTxs raw0 = []" by (simp_all add: raw0_def NewRawTransaction_def)
  have "SendTransaction tooLow 0 ?tx = Some ''Nonce too low''" using e by (auto simp: SendTransaction_def tooLow_def)
  then have "\<exists>tm'. submit tooLow 0 0 ?tx h tm = Some (None, tm')" if "tm_clock tm = 0" for h tm
    using too_low that by (simp add: submit_def nonceTooLow_def tooLow_def Let_def del: Contains.simps)
  then have "\<exists>tm'. attempt (\<lambda>b. 77) Map.empty tooLow 0 0 ?tm = Some (None, tm')"
    using w
    by (simp add: attempt_def ks_SignTx_def SignTx_def NullAddress_def manager0_def set_raw_def AddPending_def HasPending_def f
        MaxNumPending_def big_Uint64_def Let_def)
  then obtain tm' where a: "attempt (\<lambda>b. 77) Map.empty tooLow 0 0 ?tm = Some (None, tm')" by blast
  have "((\<lambda>x y. attempt (\<lambda>b. 77) Map.empty tooLow 0 0 x = Some (None, y)) ^^ 1) ?tm tm'"
    unfolding relpowp_1 by (rule a)
  from attempts_bounded [OF this] have "length (PendingTxs (pending tm' 0 ! 0)) = 1" by (simp add: raw0_def NewRawTransaction_def)
  with a show ?thesis by blast
qed

section \<open>New heads\<close>

fun newHeaders :: "Backend \<Rightarrow> (bool \<times> int) list \<Rightarrow> u64 \<times> TransactionManager \<Rightarrow> (u64 \<times> TransactionManager) option" where
  "newHeaders B [] s = Some s"
| "newHeaders B ((found, number) # hs) s = Option.bind (newHeader B found number s) (newHeaders B hs)"

lemma newHeaders_skip:
  assumes "l \<noteq> 0" and "\<forall>h \<in> set hs. l + ConfirmationDelay < big_Uint64 (snd h)"
  shows "\<exists>number. newHeaders B hs (l, tm) = Some (l, tm\<lparr>currentBlockNumber := number\<rparr>)"
  using assms(2)
proof (induction hs arbitrary: tm)
  case Nil
  show ?case by (rule exI [of _ "currentBlockNumber tm"]) simp
next
  case (Cons h hs)
  obtain found number where h: "h = (found, number)" by force
  show ?case
  proof (cases found)
    case True
    then show ?thesis using Cons.IH [of "tm\<lparr>currentBlockNumber := number\<rparr>"] Cons.prems assms(1) by (simp add: h newHeader_def Let_def)
  next
    case False
    then show ?thesis using Cons.IH [of tm] Cons.prems assms(1) by (simp add: h newHeader_def Let_def)
  qed
qed

text \<open>
  C34. Once one head arrives that is more than \<^verbatim>\<open>ConfirmationDelay\<close> blocks ahead of the last block at
  which transactions were confirmed (and there has been such a block), confirming has stopped: as
  long as the heads that follow do not go back below that head, however many of them arrive, the
  queues, the database and the last block stay as they are.
\<close>

theorem newHeader_stuck:
  assumes "l \<noteq> 0" and "l + ConfirmationDelay < big_Uint64 first"
    and "\<forall>h \<in> set hs. big_Uint64 first \<le> big_Uint64 (snd h)"
  shows "\<exists>number. newHeaders B ((found, first) # hs) (l, tm) = Some (l, tm\<lparr>currentBlockNumber := number\<rparr>)"
  by (rule newHeaders_skip [OF assms(1)]) (use assms(2,3) in auto)

theorem newHeader_stuck_witness:
  "\<exists>number. newHeaders backend0 [(True, 100), (True, 101)] (1, manager0) = Some (1, manager0\<lparr>currentBlockNumber := number\<rparr>)"
  by (rule newHeader_stuck) (simp_all add: ConfirmationDelay_def big_Uint64_def)

section \<open>Runs\<close>

text \<open>
  C28. In every run of a manager that starts on an empty database, whatever is added and wherever
  the rounds pick up, the queues of the accounts and what the database holds for them agree, the
  raw transactions have distinct indexes, and the accounts are listed once. The node may fail at any
  question; its block numbers are not negative, its nonces are below 2 to the 63, and no hash is zero.
\<close>

theorem manager_invariant:
  assumes "NewTransactionManager B config t Map.empty = Some (Inr tm0)" and "tm_run keccak tm0 tm" and "hash_ok keccak"
  shows "tm_inv tm"
  using tm_run_inv [OF assms(2,3)] NewTransactionManager_empty [OF assms(1)] by blast

lemma hash77_ok: "hash_ok (\<lambda>b. 77)" by (simp add: hash_ok_def)

lemma manager0_run: "\<exists>tm. tm_run (\<lambda>b. 77) manager0 tm \<and> addresses tm = [7]"
proof -
  obtain tm where a: "Add (\<lambda>b. 77) (\<lambda>a. True) 7 raw0 False manager0 = Some (None, tm)" "in_limits tm" using manager0_Add by blast
  have "tm_run (\<lambda>b. 77) manager0 tm"
    by (rule tm_run.more [OF tm_run.start manager0_limits tm_step.add [OF a(1)] a(2)])
  moreover have "addresses tm = [7]"
    using a(1)
    by (auto simp: Add_def register_def indexOf_def enqueue_def manager0_def Let_def bind_eq_Some_conv
        split: if_splits option.splits)
  ultimately show ?thesis by blast
qed

theorem manager_invariant_witness: "\<exists>tm. tm_run (\<lambda>b. 77) manager0 tm \<and> addresses tm = [7] \<and> tm_inv tm"
proof -
  obtain tm where r: "tm_run (\<lambda>b. 77) manager0 tm" "addresses tm = [7]" using manager0_run by blast
  show ?thesis using r manager_invariant [OF manager0_new r(1) hash77_ok] by blast
qed

lemma tm_run_limits: "tm_run keccak tm tm' \<Longrightarrow> in_limits tm \<Longrightarrow> in_limits tm'"
  by (induction rule: tm_run.induct) auto

text \<open>
  C29. A manager that is stopped after any run from an empty database (under the hypotheses of the
  invariant) and started again on its database, with a node that answers for the nonces and a
  configuration whose minimal price does not exceed the maximal one, starts. It has the same
  accounts, the same confirmed raw transactions, and the same unconfirmed and pending ones up to
  their last sent and mined block numbers and their nonces; and the next nonce of every account is
  the same, unless it was 0 in memory, when the node is asked again.
\<close>

theorem restart_restores:
  assumes "NewTransactionManager B config t Map.empty = Some (Inr tm0)" and "tm_run keccak tm0 tm" and "hash_ok keccak"
    and "node_answers B'" and "MinGasPrice config' \<le> MaxGasPrice config'"
  shows "\<exists>tm'. NewTransactionManager B' config' t' (tm_db tm) = Some (Inr tm') \<and> addresses tm' = addresses tm \<and>
    (\<forall>a \<in> set (addresses tm). same_account a tm tm')"
  using NewTransactionManager_restores [OF _ _ assms(4,5)] NewTransactionManager_empty [OF assms(1)]
    tm_run_inv [OF assms(2,3)] tm_run_limits [OF assms(2)] by blast

theorem restart_restores_witness:
  "\<exists>tm tm'. tm_run (\<lambda>b. 77) manager0 tm \<and> NewTransactionManager backend0 config0 0 (tm_db tm) = Some (Inr tm') \<and>
     addresses tm' = [7] \<and> same_account 7 tm tm'"
proof -
  obtain tm where r: "tm_run (\<lambda>b. 77) manager0 tm" "addresses tm = [7]" using manager0_run by blast
  have "node_answers backend0" "MinGasPrice config0 \<le> MaxGasPrice config0" by (simp_all add: node_answers_def backend0_def config0_def)
  from restart_restores [OF manager0_new r(1) hash77_ok this] r show ?thesis by auto
qed

text \<open>
  C35. The gas price of the manager stays between the configured minimum and maximum in every run,
  whatever database it is started on: a stored price out of range is clamped.
\<close>

theorem gasPrice_in_range:
  assumes "NewTransactionManager B config t db = Some (Inr tm0)" and "tm_run keccak tm0 tm"
  shows "tm_config tm0 = config \<and> MinGasPrice config \<le> tm_gasPrice tm0 \<and> tm_gasPrice tm0 \<le> MaxGasPrice config \<and>
    MinGasPrice (tm_config tm) \<le> tm_gasPrice tm \<and> tm_gasPrice tm \<le> MaxGasPrice (tm_config tm)"
  using NewTransactionManager_price [OF assms(1)] tm_run_price [OF assms(2)] by (auto simp: price_ok_def in_range_def)

lemma stored_price: "\<exists>db tm. ReadGasPrice db = Some 1000 \<and> NewTransactionManager backend0 config0 0 db = Some (Inr tm)"
proof -
  obtain db where w: "WriteGasPrice 1000 Map.empty = Some db"
    by (auto simp: WriteGasPrice_def db_write_encoded small_def str_enc_def puthead_def putint_def big_Bytes.simps)
  have "ReadNumAddr db = Some 0"
    using read_agree(2) [OF write_agree(1) [OF w]] by (simp add: read_defs db_read_def db_get_def)
  then show ?thesis using read_written_price [OF w]
    by (intro exI [of _ db]) (simp add: NewTransactionManager_def config0_def)
qed

theorem gasPrice_in_range_witness:
  "(\<exists>db tm. ReadGasPrice db = Some 1000 \<and> NewTransactionManager backend0 config0 0 db = Some (Inr tm) \<and> tm_gasPrice tm \<le> 100) \<and>
   (\<exists>tm. tm_run (\<lambda>b. 77) manager0 tm \<and> addresses tm = [7] \<and> tm_gasPrice tm \<le> MaxGasPrice (tm_config tm))"
proof
  obtain db tm where n: "ReadGasPrice db = Some 1000" "NewTransactionManager backend0 config0 0 db = Some (Inr tm)"
    using stored_price by blast
  from gasPrice_in_range [OF n(2) tm_run.start] n
  show "\<exists>db tm. ReadGasPrice db = Some 1000 \<and> NewTransactionManager backend0 config0 0 db = Some (Inr tm) \<and> tm_gasPrice tm \<le> 100"
    by (auto simp: config0_def)
  obtain tm where r: "tm_run (\<lambda>b. 77) manager0 tm" "addresses tm = [7]" using manager0_run by blast
  from gasPrice_in_range [OF manager0_new r(1)] r
  show "\<exists>tm. tm_run (\<lambda>b. 77) manager0 tm \<and> addresses tm = [7] \<and> tm_gasPrice tm \<le> MaxGasPrice (tm_config tm)" by blast
qed

end
