(* ===== verification/Spec2Isabelle.thy ===== *)
theory Spec2Isabelle
  imports Merkle StateDB_Props State_Root Transition_Ledger Tx_Props
begin

text \<open>
  A verification of parts of plasma-evm, an Ethereum client (a fork of go-ethereum) that runs a
  plasma chain: blocks are committed to a root chain contract by their Merkle roots, requests
  to enter and exit are replayed as transactions of the null address, fees may be paid with
  stamina, and an operator sends transactions to the root chain through a transaction manager.

  \<^bold>\<open>The parts and their theories.\<close>

  \<^item> \<open>Prelude\<close>: types of the model (\<open>byte\<close>, \<open>u64\<close>, \<open>address\<close>, \<open>hash\<close>, \<open>bytes\<close>), big endian numbers, checked
    indexing, binary search and sums over functions with finite support.
  \<^item> \<open>Merkle\<close>: the binary Merkle trees of plasma blocks (\<^verbatim>\<open>core/types/derive_sha.go\<close>) and the membership
    check of the root chain contract (\<^verbatim>\<open>BMT.sol\<close>). Proofs are accepted, accepted proofs are sound,
    and the root does not determine the leaves.
  \<^item> \<open>State_Object\<close>, \<open>StateDB\<close>: accounts with their three layers of storage
    (\<^verbatim>\<open>core/state/state_object.go\<close>), and the state with its journal (\<^verbatim>\<open>statedb.go\<close>, \<^verbatim>\<open>journal.go\<close>).
    \<open>StateDB_Refine\<close> maps a state to the abstract world it shows and proves that every operation
    refines an operation on worlds; \<open>StateDB_Ops\<close> adds sequences of operations and the locale
    \<open>snapshotting\<close>, the contract between the state and the virtual machine, interpreted on the
    state; \<open>StateDB_Props\<close> holds the properties: reverting restores, the dirty counters and \<^verbatim>\<open>Finalise\<close>.
    \<open>State_Root\<close> is \<^verbatim>\<open>IntermediateRoot\<close> with the encoding of accounts: when it panics, and what it writes.
  \<^item> \<open>Evm\<close>: message calls and contract creation (\<^verbatim>\<open>core/vm/evm.go\<close>, \<^verbatim>\<open>contract.go\<close>, \<^verbatim>\<open>core/evm.go\<close>) over an
    arbitrary interpreter, which may panic: a failing call changes nothing that can be observed,
    and a failing creation nothing but the nonce of the creator.
  \<^item> \<open>State_Transition\<close>, \<open>Transition_Ledger\<close>: applying a message (\<^verbatim>\<open>core/state_transition.go\<close>,
    \<^verbatim>\<open>gaspool.go\<close>, \<^verbatim>\<open>stamina.go\<close>): intrinsic gas, the gas pool, and for messages to accounts without
    code every balance and nonce afterwards, and that they go through.
  \<^item> \<open>Rlp\<close>, \<open>Rlp_Stream\<close>: the encoder with its deferred list headers (\<^verbatim>\<open>rlp/encode.go\<close>), \<^verbatim>\<open>Split\<close> and its
    relatives (\<^verbatim>\<open>raw.go\<close>), and the stream decoder (\<^verbatim>\<open>decode.go\<close>), with round trips in both directions.
  \<^item> \<open>Tx_Types\<close>, \<open>Tx_Signing\<close>: transactions and signatures (\<^verbatim>\<open>core/types/transaction.go\<close>,
    \<^verbatim>\<open>transaction_signing.go\<close>) and the raw transactions of the manager (\<^verbatim>\<open>tx/types.go\<close>): which sender a
    signer answers, and when the caches of a transaction object are true.
  \<^item> \<open>Tx_Rawdb\<close>: the records of the manager in its database (\<^verbatim>\<open>tx/rawdb.go\<close>); the locale \<open>codec\<close> is the
    interface between a record and RLP, interpreted for every type of record.
  \<^item> \<open>Tx_Manager\<close>, \<open>Tx_Send\<close>: the transaction manager (\<^verbatim>\<open>tx/manager.go\<close>): adding, clearing, confirming,
    loading, the gas price, sending with its error handling, and new root chain blocks.
    \<open>Tx_Manager_Queues\<close>, \<open>Tx_Manager_Inv\<close> and \<open>Tx_Manager_Reach\<close> show what the operations leave alone,
    and the invariant between the queues and the database; \<open>Tx_Send_Inv\<close> carries it through sending
    and defines the steps and runs of a manager; \<open>Tx_Restart\<close> shows that loading the database
    restores the manager. \<open>Tx_Props\<close> holds the properties: adding, what the queues keep and when they
    lose, the bound on repeated sending, new heads, the invariant of runs, restart, the gas price.

  \<^bold>\<open>Conventions.\<close> A struct is a record and its methods are functions that return the changed
  record. \<^verbatim>\<open>*big.Int\<close> is \<open>int\<close>; \<^verbatim>\<open>uint64\<close>, addresses and hashes are words of 64, 160 and 256 bits, with
  the wrap-around of the code. An error is \<open>Inl\<close> or \<open>Some\<close> of an error datatype, and a panic or the exit
  of the process by \<^verbatim>\<open>log.Crit\<close> is \<open>None\<close>. \<^verbatim>\<open>EncodeToBytes\<close> is \<open>None\<close> for an error (a negative
  number) as well as for a panic, which would need an encoding of \<open>2 ^ 63\<close> bytes. Locks, logging and metrics
  are left out, and goroutines run one after the other; a round of the ticker of the transaction
  manager is one step, with the raw transaction it picks as an argument. Values are copied where the
  code shares pointers: \<open>Add\<close> takes a raw transaction by value, so adding the same pointer twice is not
  covered. Only the caches of a transaction object are modelled as part of a shared object.

  \<^bold>\<open>Arguments of the model.\<close> The hash function, the curve (\<^verbatim>\<open>Sign\<close>, \<^verbatim>\<open>Ecrecover\<close>), the interpreter and the
  precompiled contracts, the tries of the state, and the answers of the root chain node, which
  may change with every question. What is assumed of them are named predicates (\<open>evm_ok\<close>:
  a run that returns has not gained gas and keeps earlier snapshots; \<open>idle\<close>: a run on empty code does
  nothing; \<open>key_ok\<close>, \<open>backend_ok\<close>, \<open>hash_ok\<close>), and the witnesses instantiate them. A trie of the state, once
  opened (\<open>state_New\<close> is the case that \<^verbatim>\<open>OpenTrie\<close> succeeds), is complete: reading, updating and deleting
  do not fail, as they would on missing nodes of the database. The comparison of raw transactions in
  memory and in the database ignores three fields (\<open>strip\<close>): the last sent and mined block numbers and
  the nonce, which the code changes without writing the queue.

  \<^bold>\<open>Fuel.\<close> The only loop on fuel is the loop over the elements of a slice in the decoder, which can
  run forever for one kind of type; one unit more than the input has bytes is shown to be
  enough for all other types. The attempts to send a transaction are a function with a
  termination proof: every repetition adds a transaction to a list of bounded length.

  \<^bold>\<open>Not modelled.\<close> The instructions of the interpreter with their gas, and the bodies of the
  precompiled contracts; the Patricia trie; import, validation and storage of blocks; the
  transaction pool; the miner and the managers of the plasma protocol, which are concurrent
  event loops over generated contract bindings; consensus engines; networking, accounts on
  disk, the console and the command line. In the modelled parts: \<^verbatim>\<open>Commit\<close>, \<^verbatim>\<open>Copy\<close> and the iterators
  of the state, JSON, reflection in RLP (the Go types are a datatype), and resubscription in
  the loops of the transaction manager.
\<close>

end
